(* ===== verification/Prelude.thy ===== *)
theory Prelude
  imports "HOL-Library.Word" "HOL-Library.AList" "HOL-Library.Sublist"
begin

text \<open>
  Shared vocabulary of the development.

  \<^item> Rust's primitive data: bytes are \<^typ>\<open>8 word\<close>, byte slices and \<^verbatim>\<open>Vec<u8>\<close> are lists
    of bytes, fixed-width unsigned integers are natural numbers whose bound is stated where
    a computation can reach it, with the checked and saturating operations of the standard
    library written out.
  \<^item> \<^verbatim>\<open>Result<T, E>\<close> is the sum type with \<^const>\<open>Inl\<close> for the error; \<^verbatim>\<open>?\<close> is \<open>and_then\<close>.
  \<^item> Little- and big-endian integers, with their round trips.
  \<^item> Slicing, searching and association lists, as the components use them.

  The collection \<open>result_simps\<close> carries the case rules of \<open>and_then\<close> and \<open>ensure\<close>, the collection
  \<open>codec_simps\<close> the length and decoding rules of the byte encodings.
\<close>

named_theorems result_simps "case rules for results"
named_theorems codec_simps "lengths and round trips of byte encodings"

type_synonym byte = "8 word"
type_synonym bytes = "8 word list"
type_synonym ('k, 'v) alist = "('k \<times> 'v) list"

section \<open>Results\<close>

text \<open>The \<^verbatim>\<open>?\<close> operator: an error returns early, a value is passed on.\<close>

definition and_then :: "'e + 'a \<Rightarrow> ('a \<Rightarrow> 'e + 'b) \<Rightarrow> 'e + 'b" where
  "and_then m f = (case m of Inl e \<Rightarrow> Inl e | Inr x \<Rightarrow> f x)"

definition ensure :: "bool \<Rightarrow> 'e \<Rightarrow> 'e + unit" where
  "ensure b e = (if b then Inr () else Inl e)"

definition ok_or :: "'e \<Rightarrow> 'a option \<Rightarrow> 'e + 'a" where
  "ok_or e v = (case v of None \<Rightarrow> Inl e | Some x \<Rightarrow> Inr x)"

definition map_err :: "('e \<Rightarrow> 'f) \<Rightarrow> 'e + 'a \<Rightarrow> 'f + 'a" where
  "map_err g m = (case m of Inl e \<Rightarrow> Inl (g e) | Inr x \<Rightarrow> Inr x)"

definition is_ok :: "'e + 'a \<Rightarrow> bool" where
  "is_ok m = (case m of Inl e \<Rightarrow> False | Inr x \<Rightarrow> True)"

definition is_err :: "'e + 'a \<Rightarrow> bool" where
  "is_err m = (case m of Inl e \<Rightarrow> True | Inr x \<Rightarrow> False)"

lemma and_then_simps [simp]:
  "and_then (Inl e) f = Inl e"
  "and_then (Inr x) f = f x"
  by (simp_all add: and_then_def)

lemma and_then_Inr_iff [result_simps]:
  "and_then m f = Inr y \<longleftrightarrow> (\<exists>x. m = Inr x \<and> f x = Inr y)"
  by (cases m) simp_all

lemma and_then_Inl_iff:
  "and_then m f = Inl e \<longleftrightarrow> m = Inl e \<or> (\<exists>x. m = Inr x \<and> f x = Inl e)"
  by (cases m) simp_all

lemma ensure_Inr_iff [result_simps]: "ensure b e = Inr u \<longleftrightarrow> b"
  by (simp add: ensure_def)

lemma ensure_Inl_iff [result_simps]: "ensure b e = Inl e' \<longleftrightarrow> \<not> b \<and> e' = e"
  by (auto simp: ensure_def)

lemma ensure_simps [simp]:
  "ensure True e = Inr ()"
  "ensure False e = Inl e"
  by (simp_all add: ensure_def)

lemma ok_or_Inr_iff [result_simps]: "ok_or e v = Inr x \<longleftrightarrow> v = Some x"
  by (simp add: ok_or_def split: option.splits)

lemma ok_or_simps [simp]:
  "ok_or e None = Inl e"
  "ok_or e (Some x) = Inr x"
  by (simp_all add: ok_or_def)

lemma map_err_Inr_iff [result_simps]: "map_err g m = Inr x \<longleftrightarrow> m = Inr x"
  by (simp add: map_err_def split: sum.splits)

lemma map_err_simps [simp]:
  "map_err g (Inl e) = Inl (g e)"
  "map_err g (Inr x) = Inr x"
  by (simp_all add: map_err_def)

lemma is_ok_simps [simp]:
  "is_ok (Inl e) = False"
  "is_ok (Inr x) = True"
  "is_err (Inl e) = True"
  "is_err (Inr x) = False"
  by (simp_all add: is_ok_def is_err_def)

text \<open>An operation that may panic instead of returning.\<close>

datatype 'a outcome = Panic | Done 'a

definition on_done :: "'a outcome \<Rightarrow> ('a \<Rightarrow> 'b outcome) \<Rightarrow> 'b outcome" where
  "on_done m f = (case m of Panic \<Rightarrow> Panic | Done x \<Rightarrow> f x)"

lemma on_done_simps [simp]:
  "on_done Panic f = Panic"
  "on_done (Done x) f = f x"
  by (simp_all add: on_done_def)

lemma on_done_Done_iff [result_simps]:
  "on_done m f = Done y \<longleftrightarrow> (\<exists>x. m = Done x \<and> f x = Done y)"
  by (cases m) simp_all

section \<open>Fixed-width integers\<close>

text \<open>
  \<^verbatim>\<open>usize\<close> and \<^verbatim>\<open>u64\<close> are natural numbers below \<^term>\<open>u64_max + 1\<close>; the operations that the
  sources use to stay in range are the following ones.
\<close>

definition u64_max :: nat where "u64_max = 2 ^ 64 - 1"
definition u32_max :: nat where "u32_max = 2 ^ 32 - 1"
definition u16_max :: nat where "u16_max = 2 ^ 16 - 1"
definition i64_max :: int where "i64_max = 2 ^ 63 - 1"
definition i64_min :: int where "i64_min = - (2 ^ 63)"

definition checked_add :: "nat \<Rightarrow> nat \<Rightarrow> nat option" where
  "checked_add a b = (if a + b \<le> u64_max then Some (a + b) else None)"

definition saturating_add :: "nat \<Rightarrow> nat \<Rightarrow> nat" where
  "saturating_add a b = min (a + b) u64_max"

definition saturating_mul :: "nat \<Rightarrow> nat \<Rightarrow> nat" where
  "saturating_mul a b = min (a * b) u64_max"

text \<open>Saturating subtraction on unsigned integers is truncated subtraction.\<close>

abbreviation (input) saturating_sub :: "nat \<Rightarrow> nat \<Rightarrow> nat" where
  "saturating_sub a b \<equiv> a - b"

definition isaturate :: "int \<Rightarrow> int" where
  "isaturate x = max i64_min (min i64_max x)"

lemma checked_add_Some_iff [simp]:
  "checked_add a b = Some c \<longleftrightarrow> c = a + b \<and> a + b \<le> u64_max"
  by (auto simp: checked_add_def)

lemma checked_add_None_iff [simp]: "checked_add a b = None \<longleftrightarrow> u64_max < a + b"
  by (auto simp: checked_add_def)

lemma saturating_add_le [simp]: "saturating_add a b \<le> u64_max"
  by (simp add: saturating_add_def)

lemma saturating_add_exact: "a + b \<le> u64_max \<Longrightarrow> saturating_add a b = a + b"
  by (simp add: saturating_add_def)

lemma isaturate_id: "i64_min \<le> x \<Longrightarrow> x \<le> i64_max \<Longrightarrow> isaturate x = x"
  by (simp add: isaturate_def)

section \<open>Endian encodings\<close>

primrec le_bytes :: "nat \<Rightarrow> nat \<Rightarrow> bytes" where
  "le_bytes 0 n = []"
| "le_bytes (Suc k) n = word_of_nat (n mod 256) # le_bytes k (n div 256)"

primrec of_le :: "bytes \<Rightarrow> nat" where
  "of_le [] = 0"
| "of_le (b # bs) = unat b + 256 * of_le bs"

definition be_bytes :: "nat \<Rightarrow> nat \<Rightarrow> bytes" where
  "be_bytes k n = rev (le_bytes k n)"

definition of_be :: "bytes \<Rightarrow> nat" where
  "of_be bs = of_le (rev bs)"

lemma unat_byte_of_nat: "n < 256 \<Longrightarrow> unat (word_of_nat n :: byte) = n"
  by (simp add: unat_of_nat)

lemma unat_byte_less [simp]: "unat (b :: byte) < 256"
  using unsigned_less [of b, where 'a = nat] by simp

lemma length_le_bytes [simp, codec_simps]: "length (le_bytes k n) = k"
  by (induction k arbitrary: n) simp_all

lemma le_bytes_eq_Nil_iff [simp]: "le_bytes k n = [] \<longleftrightarrow> k = 0"
  by (cases k) simp_all

lemma le_bytes_0: "le_bytes k 0 = replicate k 0"
  by (induction k) simp_all

lemma length_be_bytes [simp, codec_simps]: "length (be_bytes k n) = k"
  by (simp add: be_bytes_def)

lemma of_le_le_bytes [codec_simps]: "n < 256 ^ k \<Longrightarrow> of_le (le_bytes k n) = n"
proof (induction k arbitrary: n)
  case (Suc k)
  then have "n div 256 < 256 ^ k"
    by (simp add: less_mult_imp_div_less mult.commute)
  then show ?case
    using Suc.IH by (simp add: unat_byte_of_nat)
qed simp

lemma of_be_be_bytes [codec_simps]: "n < 256 ^ k \<Longrightarrow> of_be (be_bytes k n) = n"
  by (simp add: of_be_def be_bytes_def of_le_le_bytes)

lemma of_le_bound: "of_le bs < 256 ^ length bs"
proof (induction bs)
  case (Cons b bs)
  then have "256 * of_le bs + 256 \<le> 256 * 256 ^ length bs"
    by simp
  then show ?case
    using unat_byte_less [of b] by (simp del: unat_byte_less)
qed simp

lemma of_be_bound: "of_be bs < 256 ^ length bs"
  using of_le_bound [of "rev bs"] by (simp add: of_be_def)

lemma le_bytes_of_le: "length bs = k \<Longrightarrow> le_bytes k (of_le bs) = bs"
  by (induction bs arbitrary: k) (auto simp: unat_byte_less)

lemma be_bytes_of_be: "length bs = k \<Longrightarrow> be_bytes k (of_be bs) = bs"
  by (simp add: be_bytes_def of_be_def le_bytes_of_le)

text \<open>Two's complement reading of a 64-bit field.\<close>

definition i64_le_bytes :: "int \<Rightarrow> bytes" where
  "i64_le_bytes x = le_bytes 8 (nat (x mod 2 ^ 64))"

definition of_i64_le :: "bytes \<Rightarrow> int" where
  "of_i64_le bs = (let n = int (of_le bs) in if n < 2 ^ 63 then n else n - 2 ^ 64)"

lemma length_i64_le_bytes [simp, codec_simps]: "length (i64_le_bytes x) = 8"
  by (simp add: i64_le_bytes_def)

lemma of_i64_le_bytes [codec_simps]:
  assumes "i64_min \<le> x" "x \<le> i64_max"
  shows "of_i64_le (i64_le_bytes x) = x"
proof -
  let ?n = "nat (x mod 2 ^ 64)"
  have "of_le (le_bytes 8 ?n) = ?n"
    by (rule of_le_le_bytes) simp
  moreover have "x mod 2 ^ 64 = (if x < 0 then x + 2 ^ 64 else x)"
  proof (cases "x < 0")
    case True
    then have "(x + 2 ^ 64) mod 2 ^ 64 = x + 2 ^ 64"
      using assms by (intro mod_pos_pos_trivial) (auto simp: i64_min_def)
    then show ?thesis
      using True by simp
  next
    case False
    then show ?thesis
      using assms by (auto simp: i64_max_def)
  qed
  ultimately show ?thesis
    using assms by (auto simp: of_i64_le_def i64_le_bytes_def i64_min_def i64_max_def Let_def)
qed

section \<open>Slices\<close>

text \<open>\<^verbatim>\<open>xs[i..j]\<close> for an in-range \<open>i \<le> j\<close>, and \<^verbatim>\<open>xs.get(i..j)\<close>.\<close>

definition subslice :: "nat \<Rightarrow> nat \<Rightarrow> 'a list \<Rightarrow> 'a list" where
  "subslice i j xs = take (j - i) (drop i xs)"

definition get_range :: "nat \<Rightarrow> nat \<Rightarrow> 'a list \<Rightarrow> 'a list option" where
  "get_range i j xs = (if i \<le> j \<and> j \<le> length xs then Some (subslice i j xs) else None)"

text \<open>\<^verbatim>\<open>dst[i..i + src.len()].copy_from_slice(src)\<close>, for an in-range destination.\<close>

definition overwrite :: "nat \<Rightarrow> 'a list \<Rightarrow> 'a list \<Rightarrow> 'a list" where
  "overwrite i src dst = take i dst @ src @ drop (i + length src) dst"

lemma length_subslice [simp]: "j \<le> length xs \<Longrightarrow> length (subslice i j xs) = j - i"
  by (simp add: subslice_def)

lemma length_overwrite [simp]: "i + length src \<le> length dst \<Longrightarrow> length (overwrite i src dst) = length dst"
  by (simp add: overwrite_def)

lemma subslice_append_left: "j \<le> length xs \<Longrightarrow> subslice i j (xs @ ys) = subslice i j xs"
  by (simp add: subslice_def)

lemma subslice_take: "j \<le> n \<Longrightarrow> subslice i j (take n xs) = subslice i j xs"
  by (simp add: subslice_def drop_take min_def)

lemma subslice_prefix: "subslice 0 (length xs) (xs @ ys) = xs"
  by (simp add: subslice_def)

lemma subslice_overwrite_same:
  "i + length src \<le> length dst \<Longrightarrow> subslice i (i + length src) (overwrite i src dst) = src"
  by (simp add: subslice_def overwrite_def)

lemma nth_overwrite:
  assumes "i + length src \<le> length dst" "k < length dst"
  shows "overwrite i src dst ! k = (if i \<le> k \<and> k < i + length src then src ! (k - i) else dst ! k)"
  using assms by (auto simp: overwrite_def nth_append min_def)

lemma subslice_overwrite_disjoint:
  assumes "i + length src \<le> length dst" "q \<le> length dst" "q \<le> i \<or> i + length src \<le> p"
  shows "subslice p q (overwrite i src dst) = subslice p q dst"
  using assms by (intro nth_equalityI) (auto simp: subslice_def nth_overwrite)

section \<open>Searching\<close>

text \<open>\<^verbatim>\<open>iter().position(p)\<close>: the index of the first element that satisfies the predicate.\<close>

fun position :: "('a \<Rightarrow> bool) \<Rightarrow> 'a list \<Rightarrow> nat option" where
  "position p [] = None"
| "position p (x # xs) = (if p x then Some 0 else map_option Suc (position p xs))"

lemma position_None_iff: "position p xs = None \<longleftrightarrow> (\<forall>x\<in>set xs. \<not> p x)"
  by (induction xs) auto

lemma position_SomeD:
  "position p xs = Some i \<Longrightarrow> i < length xs \<and> p (xs ! i) \<and> (\<forall>j<i. \<not> p (xs ! j))"
proof (induction xs arbitrary: i)
  case (Cons x xs)
  then show ?case
    by (auto split: if_splits simp: nth_Cons' less_Suc_eq_0_disj)
qed simp

text \<open>\<^verbatim>\<open>Vec::insert\<close> and \<^verbatim>\<open>Vec::remove\<close> at an in-range index.\<close>

definition insert_at :: "nat \<Rightarrow> 'a \<Rightarrow> 'a list \<Rightarrow> 'a list" where
  "insert_at i x xs = take i xs @ x # drop i xs"

definition remove_at :: "nat \<Rightarrow> 'a list \<Rightarrow> 'a list" where
  "remove_at i xs = take i xs @ drop (Suc i) xs"

lemma length_insert_at [simp]: "i \<le> length xs \<Longrightarrow> length (insert_at i x xs) = Suc (length xs)"
  by (simp add: insert_at_def)

lemma length_remove_at [simp]: "i < length xs \<Longrightarrow> length (remove_at i xs) = length xs - 1"
  by (simp add: remove_at_def)

lemma set_insert_at [simp]: "set (insert_at i x xs) = insert x (set xs)"
  unfolding insert_at_def by (metis Un_insert_right append_take_drop_id list.simps(15) set_append)

lemma set_remove_at_subset: "set (remove_at i xs) \<subseteq> set xs"
  unfolding remove_at_def by (auto dest: in_set_takeD in_set_dropD)

end
