(* ===== verification/Io.thy ===== *)
theory Io
  imports Prelude
begin

text \<open>
  The standard library's byte streams, as far as the sources rely on them.

  A \<open>reader\<close> is the sequence of outcomes that successive \<^verbatim>\<open>Read::read\<close> calls can draw on: a chunk of
  bytes (delivered over as many calls as the caller's buffers need), an \<^verbatim>\<open>ErrorKind::Interrupted\<close>,
  or a failure. An exhausted reader, and an empty chunk, are end of file. Every fragmentation of
  the same bytes is a different reader, so a statement over all readers covers every short read.

  The locale \<open>exact_reader\<close> is the contract of \<^verbatim>\<open>Read::read_exact\<close>; code that is generic in
  \<^verbatim>\<open>R: Read\<close> is modelled as a function that takes the operation as an argument, and its lemmas
  are proved once in the locale.
\<close>

datatype io_kind = InvalidData | InvalidInput | UnexpectedEof | Interrupted | WriteZero | OtherKind

datatype io_error = Io_Error (err_kind: io_kind) (err_msg: string)

datatype read_event = Chunk bytes | Intr | Fail io_error

type_synonym reader = "read_event list"

section \<open>One read call and the read-exact loop\<close>

fun read_call :: "nat \<Rightarrow> reader \<Rightarrow> (io_error + bytes) \<times> reader" where
  "read_call n [] = (Inr [], [])"
| "read_call n (Chunk bs # r) =
     (Inr (take n bs), if n < length bs then Chunk (drop n bs) # r else r)"
| "read_call n (Intr # r) = (Inl (Io_Error Interrupted ''interrupted''), r)"
| "read_call n (Fail e # r) = (Inl e, r)"

fun event_weight :: "read_event \<Rightarrow> nat" where
  "event_weight (Chunk bs) = Suc (length bs)"
| "event_weight Intr = 1"
| "event_weight (Fail e) = 1"

definition reader_weight :: "reader \<Rightarrow> nat" where
  "reader_weight r = sum_list (map event_weight r)"

lemma reader_weight_simps [simp]:
  "reader_weight [] = 0"
  "reader_weight (ev # r) = event_weight ev + reader_weight r"
  by (simp_all add: reader_weight_def)

lemma read_call_weight:
  "0 < n \<Longrightarrow> r \<noteq> [] \<Longrightarrow> reader_weight (snd (read_call n r)) < reader_weight r"
  by (cases "(n, r)" rule: read_call.cases) auto

text \<open>
  The default \<^verbatim>\<open>read_exact\<close>: loop until the buffer is full, retry on \<^verbatim>\<open>Interrupted\<close>, fail with
  \<^verbatim>\<open>UnexpectedEof\<close> when a call returns no bytes. The accumulator holds the bytes read so far.
\<close>

definition eof_error :: io_error where
  "eof_error = Io_Error UnexpectedEof ''failed to fill whole buffer''"

function read_exact_loop :: "nat \<Rightarrow> bytes \<Rightarrow> reader \<Rightarrow> (io_error + bytes) \<times> reader" where
  "read_exact_loop n acc r =
     (if n = 0 then (Inr acc, r)
      else case read_call n r of
        (Inr bs, r') \<Rightarrow>
          if bs = [] then (Inl eof_error, r')
          else read_exact_loop (n - length bs) (acc @ bs) r'
      | (Inl e, r') \<Rightarrow>
          if err_kind e = Interrupted then read_exact_loop n acc r'
          else (Inl e, r'))"
  by pat_completeness auto
termination
proof (relation "measure (\<lambda>(n, acc, r). reader_weight r)", goal_cases)
  case (2 n acc r x r' bs)
  then have "reader_weight (snd (read_call n r)) < reader_weight r"
    by (intro read_call_weight) (auto split: prod.splits)
  then show ?case
    using 2 by (simp flip: 2(2))
next
  case (3 n acc r x r' e)
  then have "reader_weight (snd (read_call n r)) < reader_weight r"
    by (intro read_call_weight) (auto split: prod.splits)
  then show ?case
    using 3 by (simp flip: 3(2))
qed simp

declare read_exact_loop.simps [simp del]

definition std_read_exact :: "nat \<Rightarrow> reader \<Rightarrow> (io_error + bytes) \<times> reader" where
  "std_read_exact n r = read_exact_loop n [] r"

section \<open>The bytes a reader still holds\<close>

text \<open>The bytes that arrive before the end of file, and the readers that deliver them all.\<close>

fun content :: "reader \<Rightarrow> bytes" where
  "content [] = []"
| "content (Chunk bs # r) = (if bs = [] then [] else bs @ content r)"
| "content (Intr # r) = content r"
| "content (Fail e # r) = []"

fun clean :: "reader \<Rightarrow> bool" where
  "clean [] = True"
| "clean (Chunk bs # r) = (bs \<noteq> [] \<and> clean r)"
| "clean (Intr # r) = clean r"
| "clean (Fail e # r) = False"

lemma read_exact_loop_0 [simp]: "read_exact_loop 0 acc r = (Inr acc, r)"
  by (simp add: read_exact_loop.simps)

lemma read_exact_loop_Nil: "0 < n \<Longrightarrow> read_exact_loop n acc [] = (Inl eof_error, [])"
  by (simp add: read_exact_loop.simps)

lemma read_exact_loop_Intr: "0 < n \<Longrightarrow> read_exact_loop n acc (Intr # r) = read_exact_loop n acc r"
  by (subst read_exact_loop.simps) simp

lemma read_exact_loop_Chunk:
  "0 < n \<Longrightarrow> bs \<noteq> [] \<Longrightarrow>
   read_exact_loop n acc (Chunk bs # r) =
     (if n < length bs then (Inr (acc @ take n bs), Chunk (drop n bs) # r)
      else read_exact_loop (n - length bs) (acc @ bs) r)"
  by (subst read_exact_loop.simps) (auto simp: min_def)

lemmas read_exact_loop_steps = read_exact_loop_Nil read_exact_loop_Intr read_exact_loop_Chunk

lemma read_exact_loop_clean:
  assumes "clean r" "n \<le> length (content r)"
  shows "\<exists>r'. read_exact_loop n acc r = (Inr (acc @ take n (content r)), r')
     \<and> content r' = drop n (content r) \<and> clean r'"
  using assms
proof (induction r arbitrary: n acc rule: clean.induct)
  case (2 bs r)
  then show ?case
    using "2.IH" [of "n - length bs" "acc @ bs"]
    by (cases "n = 0"; cases "n < length bs") (auto simp: read_exact_loop_Chunk)
next
  case (3 r)
  then show ?case
    by (cases "n = 0") (auto simp: read_exact_loop_Intr)
qed simp_all

lemma read_exact_loop_short:
  assumes "clean r" "length (content r) < n"
  shows "\<exists>r'. read_exact_loop n acc r = (Inl eof_error, r')"
  using assms
proof (induction r arbitrary: n acc rule: clean.induct)
  case (2 bs r)
  then show ?case
    by (cases "n < length bs") (auto simp: read_exact_loop_Chunk)
next
  case (3 r)
  then show ?case
    by (auto simp: read_exact_loop_Intr)
qed (simp_all add: read_exact_loop_Nil)

section \<open>The contract of an exact read\<close>

text \<open>
  What a caller generic in \<^verbatim>\<open>R: Read\<close> relies on: with enough bytes pending the call returns
  exactly the next \<open>n\<close> of them and leaves the rest, however they are fragmented; with fewer it
  fails.
\<close>

locale exact_reader =
  fixes pull :: "nat \<Rightarrow> 'r \<Rightarrow> ('e + bytes) \<times> 'r"
    and pending :: "'r \<Rightarrow> bytes"
    and sound :: "'r \<Rightarrow> bool"
  assumes pull_enough:
      "sound r \<Longrightarrow> n \<le> length (pending r) \<Longrightarrow>
        \<exists>r'. pull n r = (Inr (take n (pending r)), r') \<and> pending r' = drop n (pending r) \<and> sound r'"
    and pull_short:
      "sound r \<Longrightarrow> length (pending r) < n \<Longrightarrow> \<exists>e r'. pull n r = (Inl e, r')"
begin

lemma pull_InrD:
  assumes "sound r" "pull n r = (Inr bs, r')"
  shows "pending r = bs @ pending r'" "length bs = n" "sound r'"
proof -
  have "n \<le> length (pending r)"
    using assms pull_short [of r n] by (cases "n \<le> length (pending r)") auto
  with assms pull_enough [of r n] have "bs = take n (pending r)" "pending r' = drop n (pending r)"
    "sound r'" "n \<le> length (pending r)" by auto
  then show "pending r = bs @ pending r'" "length bs = n" "sound r'"
    by simp_all
qed

lemma pull_append:
  assumes "sound r" "pending r = bs @ rest" "length bs = n"
  shows "\<exists>r'. pull n r = (Inr bs, r') \<and> pending r' = rest \<and> sound r'"
  using pull_enough [of r n] assms by simp

lemma pull_InlD:
  assumes "sound r" "pull n r = (Inl e, r')"
  shows "length (pending r) < n"
  using assms pull_enough [of r n] by (cases "n \<le> length (pending r)") auto

end

interpretation std_io: exact_reader std_read_exact content clean
proof unfold_locales
  fix r n
  assume "clean r" "n \<le> length (content r)"
  then show "\<exists>r'. std_read_exact n r = (Inr (take n (content r)), r')
      \<and> content r' = drop n (content r) \<and> clean r'"
    using read_exact_loop_clean [of r n "[]"] by (simp add: std_read_exact_def)
next
  fix r n
  assume "clean r" "length (content r) < n"
  then show "\<exists>e r'. std_read_exact n r = (Inl e, r')"
    using read_exact_loop_short [of r n "[]"] by (auto simp: std_read_exact_def)
qed

end
