(* ===== verification/Proxy_Protocol.thy ===== *)
theory Proxy_Protocol
  imports Io
begin

text \<open>
  PROXY protocol v2: \<^verbatim>\<open>vgi-rpc/src/proxy_protocol.rs\<close>, with the two producers of such preambles in
  the repository, the Iroh bridge (\<^verbatim>\<open>vgi-iroh-bridge/src/lib.rs\<close>, \<^verbatim>\<open>encode_iroh_proxy_v2\<close>) and the
  qualification relay (\<^verbatim>\<open>tailnet-integration/src/main.rs\<close>, \<^verbatim>\<open>proxy_v2_header\<close>).

  The parser is shown to accept exactly the preambles of an explicit grammar, to recover what
  either producer wrote, and the reading variant to consume exactly one preamble from the stream.
\<close>

unbundle bit_operations_syntax

section \<open>Data\<close>

definition SIGNATURE :: bytes where
  "SIGNATURE = [0x0d, 0x0a, 0x0d, 0x0a, 0x00, 0x0d, 0x0a, 0x51, 0x55, 0x49, 0x54, 0x0a]"

definition FIXED_BYTES :: nat where "FIXED_BYTES = 16"
definition DEFAULT_MAX_PROXY_V2_BYTES :: nat where "DEFAULT_MAX_PROXY_V2_BYTES = 536"
definition VGI_IROH_ENDPOINT_TLV :: byte where "VGI_IROH_ENDPOINT_TLV = 0xe0"
definition VGI_IROH_ENDPOINT_VERSION :: byte where "VGI_IROH_ENDPOINT_VERSION = 1"
definition VGI_IROH_ENDPOINT_VALUE_BYTES :: nat where "VGI_IROH_ENDPOINT_VALUE_BYTES = 33"

datatype ip_addr = V4 bytes | V6 bytes

record socket_addr =
  sa_ip :: ip_addr
  sa_port :: nat

record proxy_address =
  pa_source :: socket_addr
  pa_destination :: socket_addr

record parse_options =
  allow_iroh_identity :: bool

record parsed_proxy =
  pp_address :: "proxy_address option"
  pp_iroh_endpoint_id :: "bytes option"

definition default_options :: parse_options where
  "default_options = \<lparr> allow_iroh_identity = False \<rparr>"

section \<open>The parser\<close>

definition invalid :: "string \<Rightarrow> io_error" where
  "invalid m = Io_Error InvalidData m"

definition maximum_bytes_or_default :: "nat \<Rightarrow> io_error + nat" where
  "maximum_bytes_or_default maximum_bytes =
     (let m = if maximum_bytes = 0 then DEFAULT_MAX_PROXY_V2_BYTES else maximum_bytes
      in if m < FIXED_BYTES then Inl (invalid ''maximum PROXY v2 bytes must be at least 16'')
         else Inr m)"

text \<open>\<^verbatim>\<open>Ipv6Addr::to_ipv4_mapped\<close>: \<^verbatim>\<open>::ffff:a.b.c.d\<close> is the IPv4 address \<^verbatim>\<open>a.b.c.d\<close>.\<close>

definition to_ipv4_mapped :: "bytes \<Rightarrow> bytes option" where
  "to_ipv4_mapped o6 =
     (if take 12 o6 = replicate 10 0 @ [0xff, 0xff] then Some (drop 12 o6) else None)"

fun normalize_ip :: "ip_addr \<Rightarrow> ip_addr" where
  "normalize_ip (V6 a) = (case to_ipv4_mapped a of None \<Rightarrow> V6 a | Some v \<Rightarrow> V4 v)"
| "normalize_ip (V4 a) = V4 a"

definition ipv4_block :: "bytes \<Rightarrow> proxy_address" where
  "ipv4_block body =
     \<lparr> pa_source = \<lparr> sa_ip = V4 (subslice 0 4 body), sa_port = of_be (subslice 8 10 body) \<rparr>,
       pa_destination = \<lparr> sa_ip = V4 (subslice 4 8 body), sa_port = of_be (subslice 10 12 body) \<rparr> \<rparr>"

definition ipv6_block :: "bytes \<Rightarrow> proxy_address" where
  "ipv6_block body =
     \<lparr> pa_source = \<lparr> sa_ip = normalize_ip (V6 (subslice 0 16 body)), sa_port = of_be (subslice 32 34 body) \<rparr>,
       pa_destination =
         \<lparr> sa_ip = normalize_ip (V6 (subslice 16 32 body)), sa_port = of_be (subslice 34 36 body) \<rparr> \<rparr>"

text \<open>The \<^verbatim>\<open>match preamble[13]\<close> on the address family: the address and the length of its block.\<close>

definition parse_address_block ::
  "parse_options \<Rightarrow> byte \<Rightarrow> bytes \<Rightarrow> io_error + (proxy_address option \<times> nat)" where
  "parse_address_block options family body =
     (if family = 0x00 \<and> allow_iroh_identity options then Inr (None, 0)
      else if family = 0x11 then
        (if length body < 12 then Inl (invalid ''truncated PROXY v2 TCP/IPv4 address block'')
         else Inr (Some (ipv4_block body), 12))
      else if family = 0x21 then
        (if length body < 36 then Inl (invalid ''truncated PROXY v2 TCP/IPv6 address block'')
         else Inr (Some (ipv6_block body), 36))
      else Inl (invalid ''PROXY v2 requires TCP over IPv4 or IPv6''))"

text \<open>The TLV loop; the list argument is \<^verbatim>\<open>body[offset..]\<close>.\<close>

function parse_tlvs :: "parse_options \<Rightarrow> bytes \<Rightarrow> bytes option \<Rightarrow> io_error + bytes option" where
  "parse_tlvs options rest ep =
     (if rest = [] then Inr ep
      else if length rest < 3 then Inl (invalid ''truncated PROXY v2 TLV header'')
      else
        let tlv_type = rest ! 0; len = of_be (subslice 1 3 rest); after = drop 3 rest in
        if length after < len then Inl (invalid ''truncated PROXY v2 TLV value'')
        else
          let value = take len after in
          if tlv_type = VGI_IROH_ENDPOINT_TLV \<and> allow_iroh_identity options then
            (if ep \<noteq> None then Inl (invalid ''duplicate VGI Iroh identity TLV'')
             else if length value \<noteq> VGI_IROH_ENDPOINT_VALUE_BYTES
                 \<or> hd value \<noteq> VGI_IROH_ENDPOINT_VERSION
               then Inl (invalid ''invalid VGI Iroh identity TLV'')
             else parse_tlvs options (drop len after) (Some (tl value)))
          else parse_tlvs options (drop len after) ep)"
  by pat_completeness auto
termination
  by (relation "measure (\<lambda>(options, rest, ep). length rest)") auto

declare parse_tlvs.simps [simp del]

definition parse_proxy_protocol_v2_with_options ::
  "bytes \<Rightarrow> nat \<Rightarrow> parse_options \<Rightarrow> io_error + parsed_proxy" where
  "parse_proxy_protocol_v2_with_options preamble maximum_bytes options =
     and_then (maximum_bytes_or_default maximum_bytes) (\<lambda>limit.
     and_then (ensure (FIXED_BYTES \<le> length preamble)
                 (invalid ''truncated PROXY v2 fixed preamble'')) (\<lambda>_.
     and_then (ensure (length preamble \<le> limit)
                 (invalid ''PROXY v2 preamble exceeds configured limit'')) (\<lambda>_.
     and_then (ensure (take 12 preamble = SIGNATURE) (invalid ''missing PROXY v2 signature'')) (\<lambda>_.
     and_then (ensure (drop_bit 4 (preamble ! 12) = 2)
                 (invalid ''unsupported PROXY protocol version'')) (\<lambda>_.
     and_then (ensure ((preamble ! 12) AND 0x0f = 1)
                 (invalid ''PROXY v2 LOCAL command is not accepted'')) (\<lambda>_.
     and_then (ensure (length preamble = FIXED_BYTES + of_be (subslice 14 16 preamble))
                 (invalid ''truncated or overlong PROXY v2 preamble'')) (\<lambda>_.
     let body = drop FIXED_BYTES preamble; family = preamble ! 13 in
     and_then (parse_address_block options family body) (\<lambda>(address, address_bytes).
     and_then (parse_tlvs options (drop address_bytes body) None) (\<lambda>ep.
     and_then (ensure (\<not> (family = 0x00 \<and> ep = None))
                 (invalid ''PROXY/UNSPEC requires one VGI Iroh identity TLV'')) (\<lambda>_.
     and_then (ensure (\<not> (ep \<noteq> None \<and> family \<noteq> 0x00))
                 (invalid ''VGI Iroh identity requires PROXY/UNSPEC'')) (\<lambda>_.
     Inr \<lparr> pp_address = address, pp_iroh_endpoint_id = ep \<rparr>)))))))))))"

definition parse_proxy_protocol_v2 :: "bytes \<Rightarrow> nat \<Rightarrow> io_error + proxy_address" where
  "parse_proxy_protocol_v2 preamble maximum_bytes =
     and_then (parse_proxy_protocol_v2_with_options preamble maximum_bytes default_options) (\<lambda>p.
     ok_or (invalid ''PROXY v2 requires TCP over IPv4 or IPv6'') (pp_address p))"

text \<open>
  The reading variants are generic in the reader: \<open>pull n r\<close> is \<^verbatim>\<open>reader.read_exact\<close> into a buffer
  of \<open>n\<close> bytes.
\<close>

definition wrap_io :: "string \<Rightarrow> io_error \<Rightarrow> io_error" where
  "wrap_io ctx e = Io_Error (err_kind e) (ctx @ err_msg e)"

definition read_proxy_protocol_v2_with_options ::
  "(nat \<Rightarrow> 'r \<Rightarrow> (io_error + bytes) \<times> 'r) \<Rightarrow> 'r \<Rightarrow> nat \<Rightarrow> parse_options
     \<Rightarrow> (io_error + parsed_proxy) \<times> 'r" where
  "read_proxy_protocol_v2_with_options pull r maximum_bytes options =
     (case maximum_bytes_or_default maximum_bytes of
        Inl e \<Rightarrow> (Inl e, r)
      | Inr limit \<Rightarrow>
          (case pull FIXED_BYTES r of
             (Inl e, r1) \<Rightarrow> (Inl (wrap_io ''truncated PROXY v2 fixed preamble: '' e), r1)
           | (Inr fixed, r1) \<Rightarrow>
               let total_len = FIXED_BYTES + of_be (subslice 14 16 fixed) in
               if limit < total_len then (Inl (invalid ''PROXY v2 preamble exceeds configured limit''), r1)
               else
                 (case pull (total_len - FIXED_BYTES) r1 of
                    (Inl e, r2) \<Rightarrow> (Inl (wrap_io ''truncated PROXY v2 body: '' e), r2)
                  | (Inr rest, r2) \<Rightarrow>
                      (parse_proxy_protocol_v2_with_options (fixed @ rest) limit options, r2))))"

definition read_proxy_protocol_v2 ::
  "(nat \<Rightarrow> 'r \<Rightarrow> (io_error + bytes) \<times> 'r) \<Rightarrow> 'r \<Rightarrow> nat \<Rightarrow> (io_error + proxy_address) \<times> 'r" where
  "read_proxy_protocol_v2 pull r maximum_bytes =
     (case read_proxy_protocol_v2_with_options pull r maximum_bytes default_options of
        (res, r') \<Rightarrow>
          (and_then res (\<lambda>p. ok_or (invalid ''PROXY v2 requires TCP over IPv4 or IPv6'')
             (pp_address p)), r'))"

section \<open>The producers\<close>

text \<open>\<^verbatim>\<open>encode_iroh_proxy_v2\<close> of the bridge: PROXY/UNSPEC with one identity TLV.\<close>

definition encode_iroh_proxy_v2 :: "bytes \<Rightarrow> bytes" where
  "encode_iroh_proxy_v2 endpoint_id =
     SIGNATURE @ [0x21, 0x00] @ be_bytes 2 36 @ [0xe0] @ be_bytes 2 33 @ [1] @ endpoint_id"

text \<open>\<^verbatim>\<open>proxy_v2_header\<close> of the relay.\<close>

fun proxy_v2_header :: "socket_addr \<Rightarrow> socket_addr \<Rightarrow> io_error + bytes" where
  "proxy_v2_header source destination =
     (let ports = be_bytes 2 (sa_port source) @ be_bytes 2 (sa_port destination) in
      case (sa_ip source, sa_ip destination) of
        (V4 s, V4 d) \<Rightarrow>
          (let addresses = s @ d @ ports in
           Inr (SIGNATURE @ [0x21] @ [0x11] @ be_bytes 2 (length addresses) @ addresses))
      | (V6 s, V6 d) \<Rightarrow>
          (let addresses = s @ d @ ports in
           Inr (SIGNATURE @ [0x21] @ [0x21] @ be_bytes 2 (length addresses) @ addresses))
      | _ \<Rightarrow> Inl (Io_Error InvalidInput
               ''PROXY v2 relay source and destination address families differ''))"

text \<open>The invariant of Rust's \<^verbatim>\<open>IpAddr\<close> and \<^verbatim>\<open>SocketAddr\<close>: octet counts and a 16-bit port.\<close>

fun ip_ok :: "ip_addr \<Rightarrow> bool" where
  "ip_ok (V4 a) = (length a = 4)"
| "ip_ok (V6 a) = (length a = 16)"

definition socket_ok :: "socket_addr \<Rightarrow> bool" where
  "socket_ok s = (ip_ok (sa_ip s) \<and> sa_port s \<le> u16_max)"

section \<open>The grammar of accepted preambles\<close>

type_synonym tlv = "byte \<times> bytes"

definition enc_tlv :: "tlv \<Rightarrow> bytes" where
  "enc_tlv t = fst t # be_bytes 2 (length (snd t)) @ snd t"

definition enc_tlvs :: "tlv list \<Rightarrow> bytes" where
  "enc_tlvs ts = concat (map enc_tlv ts)"

definition tlv_ok :: "tlv \<Rightarrow> bool" where
  "tlv_ok t = (length (snd t) \<le> u16_max)"

definition identity_values :: "parse_options \<Rightarrow> tlv list \<Rightarrow> bytes list" where
  "identity_values options ts =
     (if allow_iroh_identity options
      then map snd (filter (\<lambda>t. fst t = VGI_IROH_ENDPOINT_TLV) ts) else [])"

definition identity_value_ok :: "bytes \<Rightarrow> bool" where
  "identity_value_ok v = (length v = 33 \<and> hd v = 1)"

text \<open>What the identity TLVs of a preamble amount to: none, one well-formed one, or an error.\<close>

definition endpoint_of :: "bytes option \<Rightarrow> bytes list \<Rightarrow> bytes option \<Rightarrow> bool" where
  "endpoint_of ep vs ep' =
     (case vs of [] \<Rightarrow> ep' = ep
      | [v] \<Rightarrow> ep = None \<and> identity_value_ok v \<and> ep' = Some (tl v)
      | _ \<Rightarrow> False)"

definition proxy_frame :: "byte \<Rightarrow> bytes \<Rightarrow> bytes" where
  "proxy_frame family body = SIGNATURE @ [0x21, family] @ be_bytes 2 (length body) @ body"

definition address_block_ok ::
  "parse_options \<Rightarrow> byte \<Rightarrow> bytes \<Rightarrow> proxy_address option \<Rightarrow> bool" where
  "address_block_ok options family ab a =
     (family = 0x00 \<and> allow_iroh_identity options \<and> ab = [] \<and> a = None
      \<or> family = 0x11 \<and> length ab = 12 \<and> a = Some (ipv4_block ab)
      \<or> family = 0x21 \<and> length ab = 36 \<and> a = Some (ipv6_block ab))"

definition accepted_preamble ::
  "parse_options \<Rightarrow> bytes \<Rightarrow> parsed_proxy \<Rightarrow> bool" where
  "accepted_preamble options pre p =
     (\<exists>family ab ts.
        pre = proxy_frame family (ab @ enc_tlvs ts)
        \<and> length (ab @ enc_tlvs ts) \<le> u16_max
        \<and> list_all tlv_ok ts
        \<and> address_block_ok options family ab (pp_address p)
        \<and> endpoint_of None (identity_values options ts) (pp_iroh_endpoint_id p)
        \<and> (family = 0x00 \<longleftrightarrow> pp_iroh_endpoint_id p \<noteq> None))"

section \<open>Lemmas\<close>

lemma length_SIGNATURE [simp]: "length SIGNATURE = 12"
  by (simp add: SIGNATURE_def)

lemma version_command_byte: "drop_bit 4 b = 2 \<and> b AND 0x0f = 1 \<longleftrightarrow> b = (0x21 :: byte)"
proof
  assume *: "drop_bit 4 b = 2 \<and> b AND 0x0f = 1"
  have "unat (drop_bit 4 b) = unat b div 16"
    using unat_drop_bit_eq [of 4 b] drop_bit_eq_div [of 4 "unat b"] by simp
  moreover have "b AND 0x0f = take_bit 4 b"
    by (simp add: take_bit_eq_mask mask_eq_exp_minus_1)
  then have "unat (b AND 0x0f) = unat (take_bit 4 b)"
    by (rule arg_cong)
  then have "unat (b AND 0x0f) = unat b mod 2 ^ 4"
    by (simp only: unsigned_take_bit_eq take_bit_eq_mod [of 4 "unat b"])
  ultimately have "unat b div 16 = 2" "unat b mod 16 = 1"
    using * by simp_all
  then have "unat b = 33"
    using div_mult_mod_eq [of "unat b" 16] by simp
  then have "word_of_nat (unat b) = (0x21 :: byte)"
    by simp
  then show "b = 0x21"
    by simp
qed simp

lemma parse_tlvs_Nil [simp]: "parse_tlvs options [] ep = Inr ep"
  by (simp add: parse_tlvs.simps)

lemma enc_tlvs_simps [simp]:
  "enc_tlvs [] = []"
  "enc_tlvs (t # ts) = enc_tlv t @ enc_tlvs ts"
  by (simp_all add: enc_tlvs_def)

lemma enc_tlv_neq_Nil [simp]: "enc_tlv t \<noteq> []"
  by (simp add: enc_tlv_def)

text \<open>A TLV at the front: the header fields the loop reads.\<close>

lemma parse_tlvs_enc:
  assumes "tlv_ok (t, v)"
  shows "parse_tlvs options (enc_tlv (t, v) @ rest) ep =
    (if t = VGI_IROH_ENDPOINT_TLV \<and> allow_iroh_identity options then
       (if ep \<noteq> None then Inl (invalid ''duplicate VGI Iroh identity TLV'')
        else if \<not> identity_value_ok v then Inl (invalid ''invalid VGI Iroh identity TLV'')
        else parse_tlvs options rest (Some (tl v)))
     else parse_tlvs options rest ep)"
proof -
  have len: "of_be (be_bytes 2 (length v)) = length v"
    using assms by (intro of_be_be_bytes) (simp add: tlv_ok_def u16_max_def)
  have sl: "subslice 1 3 (enc_tlv (t, v) @ rest) = be_bytes 2 (length v)"
    by (simp add: subslice_def enc_tlv_def)
  show ?thesis
    unfolding parse_tlvs.simps [of options "enc_tlv (t, v) @ rest"] Let_def sl len
    by (simp add: enc_tlv_def identity_value_ok_def
         VGI_IROH_ENDPOINT_VALUE_BYTES_def VGI_IROH_ENDPOINT_VERSION_def)
qed

text \<open>Conversely, bytes on which the loop does not stop at the header or length start with a TLV.\<close>

lemma tlv_split:
  assumes "3 \<le> length rest" "of_be (subslice 1 3 rest) \<le> length (drop 3 rest)"
  shows "\<exists>t v rest'. rest = enc_tlv (t, v) @ rest' \<and> tlv_ok (t, v)"
proof -
  let ?n = "of_be (subslice 1 3 rest)"
  have b: "?n < 256 ^ 2"
    using of_be_bound [of "subslice 1 3 rest"] assms by simp
  have "be_bytes 2 ?n = subslice 1 3 rest"
    using assms by (intro be_bytes_of_be) simp
  moreover have "rest = rest ! 0 # subslice 1 3 rest @ drop 3 rest"
    using assms(1) by (auto simp: subslice_def numeral_3_eq_3 Suc_le_length_iff)
  ultimately have "rest = enc_tlv (rest ! 0, take ?n (drop 3 rest)) @ drop ?n (drop 3 rest)"
    using assms(2) by (simp add: enc_tlv_def min_absorb2 del: drop_drop)
  then show ?thesis
    using b by (intro exI) (auto simp: tlv_ok_def u16_max_def)
qed


lemma endpoint_of_simps [simp]:
  "endpoint_of ep [] ep' \<longleftrightarrow> ep' = ep"
  "endpoint_of ep (v # vs) ep' \<longleftrightarrow>
     ep = None \<and> identity_value_ok v \<and> endpoint_of (Some (tl v)) vs ep'"
  by (auto simp: endpoint_of_def split: list.splits)

lemma identity_values_simps [simp]:
  "identity_values options [] = []"
  "identity_values options ((t, v) # ts) =
     (if t = VGI_IROH_ENDPOINT_TLV \<and> allow_iroh_identity options
      then v # identity_values options ts else identity_values options ts)"
  by (simp_all add: identity_values_def)

lemma parse_tlvs_complete:
  "list_all tlv_ok ts \<Longrightarrow> endpoint_of ep (identity_values options ts) ep' \<Longrightarrow>
   parse_tlvs options (enc_tlvs ts) ep = Inr ep'"
  by (induction ts arbitrary: ep) (auto simp: parse_tlvs_enc split: if_splits)

lemma parse_tlvs_sound:
  "parse_tlvs options rest ep = Inr ep' \<Longrightarrow>
   \<exists>ts. rest = enc_tlvs ts \<and> list_all tlv_ok ts \<and> endpoint_of ep (identity_values options ts) ep'"
proof (induction "length rest" arbitrary: rest ep rule: less_induct)
  case less
  show ?case
  proof (cases "rest = []")
    case True
    with less.prems show ?thesis
      by (intro exI [of _ "[]"]) simp
  next
    case False
    with less.prems have "3 \<le> length rest" "of_be (subslice 1 3 rest) \<le> length (drop 3 rest)"
      by (subst (asm) parse_tlvs.simps, simp add: Let_def split: if_splits)+
    then obtain t v rest' where r: "rest = enc_tlv (t, v) @ rest'" and ok: "tlv_ok (t, v)"
      using tlv_split by blast
    have "length rest' < length rest"
      using r by (simp add: enc_tlv_def)
    moreover obtain ep1 where rec: "parse_tlvs options rest' ep1 = Inr ep'"
      and ep1: "if t = VGI_IROH_ENDPOINT_TLV \<and> allow_iroh_identity options
        then ep = None \<and> identity_value_ok v \<and> ep1 = Some (tl v) else ep1 = ep"
      using less.prems ok unfolding r by (simp add: parse_tlvs_enc split: if_splits)
    ultimately obtain ts where "rest' = enc_tlvs ts" "list_all tlv_ok ts"
      "endpoint_of ep1 (identity_values options ts) ep'"
      using less.hyps by blast
    then show ?thesis
      using r ok ep1 by (intro exI [of _ "(t, v) # ts"]) (auto split: if_splits)
  qed
qed

lemma address_block_take [simp]:
  "ipv4_block (take 12 body) = ipv4_block body"
  "ipv6_block (take 36 body) = ipv6_block body"
  by (simp_all add: ipv4_block_def ipv6_block_def subslice_take)

lemma parse_address_block_Inr:
  "parse_address_block options family body = Inr (a, n) \<longleftrightarrow>
   n \<le> length body \<and> address_block_ok options family (take n body) a"
  by (auto simp: parse_address_block_def address_block_ok_def split: if_splits)

text \<open>The fixed 16 bytes of a preamble, read back.\<close>

lemma proxy_frame_fields:
  assumes "length body \<le> u16_max"
  shows "length (proxy_frame family body) = 16 + length body"
    and "take 12 (proxy_frame family body) = SIGNATURE"
    and "proxy_frame family body ! 12 = 0x21"
    and "proxy_frame family body ! 13 = family"
    and "of_be (subslice 14 16 (proxy_frame family body)) = length body"
    and "drop 16 (proxy_frame family body) = body"
proof -
  show "of_be (subslice 14 16 (proxy_frame family body)) = length body"
    using of_be_be_bytes [of "length body" 2] assms
    by (simp add: proxy_frame_def subslice_def u16_max_def)
qed (simp_all add: proxy_frame_def nth_append)

lemma proxy_frame_of_fields:
  assumes "take 12 pre = SIGNATURE" "16 \<le> length pre" "pre ! 12 = 0x21"
    "length pre = 16 + of_be (subslice 14 16 pre)"
  shows "pre = proxy_frame (pre ! 13) (drop 16 pre)"
proof -
  have "be_bytes 2 (length (drop 16 pre)) = subslice 14 16 pre"
    using assms be_bytes_of_be [of "subslice 14 16 pre" 2] by simp
  moreover have "pre = take 12 pre @ pre ! 12 # pre ! 13 # subslice 14 16 pre @ drop 16 pre"
    using assms(2) id_take_nth_drop [of 12 pre] Cons_nth_drop_Suc [of 13 pre]
      append_take_drop_id [of 2 "drop 14 pre"]
    by (simp add: subslice_def)
  ultimately show ?thesis
    using assms by (simp add: proxy_frame_def)
qed

lemma maximum_bytes_or_default_Inr:
  "maximum_bytes_or_default m = Inr k \<longleftrightarrow>
   k = (if m = 0 then 536 else m) \<and> 16 \<le> k"
  by (auto simp: maximum_bytes_or_default_def FIXED_BYTES_def DEFAULT_MAX_PROXY_V2_BYTES_def Let_def)

lemma parse_with_options_Inr:
  "parse_proxy_protocol_v2_with_options pre m options = Inr p \<longleftrightarrow>
   maximum_bytes_or_default m = Inr (if m = 0 then 536 else m)
   \<and> length pre \<le> (if m = 0 then 536 else m) \<and> accepted_preamble options pre p"
  (is "?parse \<longleftrightarrow> ?bound \<and> ?len \<and> ?acc")
proof
  assume L: ?parse
  let ?body = "drop 16 pre"
  from L obtain a n ep where f: "?bound" "?len" "16 \<le> length pre" "take 12 pre = SIGNATURE"
      "drop_bit 4 (pre ! 12) = 2" "pre ! 12 AND 0x0f = 1"
      "length pre = 16 + of_be (subslice 14 16 pre)"
      "parse_address_block options (pre ! 13) ?body = Inr (a, n)"
      "parse_tlvs options (drop n ?body) None = Inr ep"
      "pre ! 13 = 0 \<longleftrightarrow> ep \<noteq> None" "p = \<lparr> pp_address = a, pp_iroh_endpoint_id = ep \<rparr>"
    unfolding parse_proxy_protocol_v2_with_options_def FIXED_BYTES_def
    by (auto simp: result_simps maximum_bytes_or_default_Inr Let_def split: if_splits)
  obtain ts where ts: "drop n ?body = enc_tlvs ts" "list_all tlv_ok ts"
    "endpoint_of None (identity_values options ts) ep"
    using parse_tlvs_sound [OF f(9)] by blast
  have ab: "n \<le> length ?body" "address_block_ok options (pre ! 13) (take n ?body) a"
    using f(8) by (simp_all add: parse_address_block_Inr)
  have body: "?body = take n ?body @ enc_tlvs ts"
    using ts(1) by (metis append_take_drop_id)
  have "pre = proxy_frame (pre ! 13) ?body"
    using f version_command_byte by (intro proxy_frame_of_fields) blast+
  moreover have "length ?body \<le> u16_max"
    using f(3,7) of_be_bound [of "subslice 14 16 pre"] by (simp add: u16_max_def)
  ultimately show "?bound \<and> ?len \<and> ?acc"
    unfolding accepted_preamble_def using f(1,2,10,11) ab(2) ts(2,3) body
    by (intro conjI exI [of _ "pre ! 13"] exI [of _ "take n ?body"] exI [of _ ts]) simp_all
next
  assume R: "?bound \<and> ?len \<and> ?acc"
  then obtain family ab ts where pre: "pre = proxy_frame family (ab @ enc_tlvs ts)"
    and w: "length (ab @ enc_tlvs ts) \<le> u16_max" "list_all tlv_ok ts"
      "address_block_ok options family ab (pp_address p)"
      "endpoint_of None (identity_values options ts) (pp_iroh_endpoint_id p)"
      "family = 0x00 \<longleftrightarrow> pp_iroh_endpoint_id p \<noteq> None"
    unfolding accepted_preamble_def by blast
  have "parse_address_block options family (ab @ enc_tlvs ts) = Inr (pp_address p, length ab)"
    using w(3) by (simp add: parse_address_block_Inr)
  then show ?parse
    using R w pre proxy_frame_fields [OF w(1)] parse_tlvs_complete [OF w(2,4)] version_command_byte
    unfolding parse_proxy_protocol_v2_with_options_def FIXED_BYTES_def by (auto simp: Let_def)
qed


lemma accepted_preamble_length:
  assumes "accepted_preamble options pre p"
  shows "length pre = 16 + of_be (subslice 14 16 pre)"
  using assms proxy_frame_fields unfolding accepted_preamble_def by fastforce

section \<open>Reading from a stream\<close>

text \<open>For any reader that keeps the contract of an exact read and reports I/O errors.\<close>

locale proxy_source = exact_reader pull pending sound
  for pull :: "nat \<Rightarrow> 'r \<Rightarrow> (io_error + bytes) \<times> 'r"
    and pending :: "'r \<Rightarrow> bytes"
    and sound :: "'r \<Rightarrow> bool"
begin

lemma read_preamble_sound:
  fixes r r' :: 'r and p :: parsed_proxy
  assumes "sound r" "read_proxy_protocol_v2_with_options pull r m options = (Inr p, r')"
  shows "\<exists>pre. pending r = pre @ pending r' \<and> sound r'
     \<and> parse_proxy_protocol_v2_with_options pre (if m = 0 then 536 else m) options = Inr p"
proof -
  from assms(2) obtain limit fixed r1 rest where
      lim: "maximum_bytes_or_default m = Inr limit"
      and p1: "pull FIXED_BYTES r = (Inr fixed, r1)"
      and p2: "pull (of_be (subslice 14 16 fixed)) r1 = (Inr rest, r')"
      and parse: "parse_proxy_protocol_v2_with_options (fixed @ rest) limit options = Inr p"
    unfolding read_proxy_protocol_v2_with_options_def
    by (auto simp: Let_def split: sum.splits prod.splits if_splits)
  have "limit = (if m = 0 then 536 else m)"
    using lim by (simp add: maximum_bytes_or_default_Inr)
  then show ?thesis
    using pull_InrD [OF assms(1) p1] pull_InrD [OF _ p2] parse
    by (intro exI [of _ "fixed @ rest"]) simp
qed

lemma read_preamble_complete:
  fixes r :: 'r and p :: parsed_proxy
  assumes r: "sound r" "pending r = pre @ rest"
    and lim: "maximum_bytes_or_default m = Inr limit" and len: "length pre \<le> limit"
    and acc: "accepted_preamble options pre p"
  shows "\<exists>r'. read_proxy_protocol_v2_with_options pull r m options = (Inr p, r')
     \<and> pending r' = rest \<and> sound r'"
proof -
  let ?fixed = "take 16 pre" and ?n = "of_be (subslice 14 16 pre)"
  have l: "length pre = 16 + ?n"
    using accepted_preamble_length [OF acc] .
  obtain r1 where 1: "pull 16 r = (Inr ?fixed, r1)" "pending r1 = drop 16 pre @ rest" "sound r1"
    using pull_append [OF r(1), of ?fixed "drop 16 pre @ rest" 16] r(2) l by auto
  obtain r2 where 2: "pull ?n r1 = (Inr (drop 16 pre), r2)" "pending r2 = rest" "sound r2"
    using pull_append [OF 1(3,2)] l by auto
  have "limit \<noteq> 0" "maximum_bytes_or_default limit = Inr limit"
    using lim by (auto simp: maximum_bytes_or_default_Inr)
  then have "parse_proxy_protocol_v2_with_options pre limit options = Inr p"
    using len acc by (simp add: parse_with_options_Inr)
  then show ?thesis
    unfolding read_proxy_protocol_v2_with_options_def FIXED_BYTES_def
    using lim 1 2 l len by (simp add: subslice_take)
qed

lemma read_preamble_iff:
  fixes r :: 'r
  assumes "sound r"
  shows "(\<exists>r'. read_proxy_protocol_v2_with_options pull r m options = (Inr p, r') \<and> pending r' = rest)
    \<longleftrightarrow> (\<exists>pre. pending r = pre @ rest \<and> length pre \<le> (if m = 0 then 536 else m)
          \<and> 16 \<le> (if m = 0 then 536 else m) \<and> accepted_preamble options pre p)"
  (is "?L \<longleftrightarrow> ?R")
proof
  assume ?L
  then obtain r' where r': "read_proxy_protocol_v2_with_options pull r m options = (Inr p, r')"
    "pending r' = rest" by blast
  obtain pre where "pending r = pre @ rest"
    and "parse_proxy_protocol_v2_with_options pre (if m = 0 then 536 else m) options = Inr p"
    using read_preamble_sound [OF assms r'(1)] r'(2) by blast
  then show ?R
    by (intro exI [of _ pre])
      (simp add: parse_with_options_Inr maximum_bytes_or_default_Inr split: if_splits)
next
  assume ?R
  then obtain pre where pre: "pending r = pre @ rest" "length pre \<le> (if m = 0 then 536 else m)"
    "16 \<le> (if m = 0 then 536 else m)" "accepted_preamble options pre p" by blast
  then have "maximum_bytes_or_default m = Inr (if m = 0 then 536 else m)"
    by (simp add: maximum_bytes_or_default_Inr)
  with pre show ?L
    using read_preamble_complete [OF assms] by blast
qed

end

interpretation std_source: proxy_source std_read_exact content clean
  by unfold_locales

section \<open>What the producers write is accepted\<close>

definition iroh_options :: parse_options where
  "iroh_options = \<lparr> allow_iroh_identity = True \<rparr>"

lemma encode_iroh_frame:
  "length ep = 32 \<Longrightarrow> encode_iroh_proxy_v2 ep = proxy_frame 0 (enc_tlvs [(0xe0, 1 # ep)])"
  by (simp add: encode_iroh_proxy_v2_def proxy_frame_def enc_tlv_def)

lemma encode_iroh_accepted:
  assumes "length ep = 32"
  shows "accepted_preamble iroh_options (encode_iroh_proxy_v2 ep)
     \<lparr> pp_address = None, pp_iroh_endpoint_id = Some ep \<rparr>"
  unfolding accepted_preamble_def encode_iroh_frame [OF assms]
  by (intro exI [of _ 0] exI [of _ "[]"] exI [of _ "[(0xe0, 1 # ep)]"])
    (simp add: assms iroh_options_def address_block_ok_def identity_value_ok_def
      VGI_IROH_ENDPOINT_TLV_def tlv_ok_def u16_max_def enc_tlv_def)

lemma length_encode_iroh: "length ep = 32 \<Longrightarrow> length (encode_iroh_proxy_v2 ep) = 52"
  by (simp add: encode_iroh_proxy_v2_def)

lemma encode_iroh_default_rejected:
  assumes "length ep = 32"
  shows "parse_proxy_protocol_v2_with_options (encode_iroh_proxy_v2 ep) 0 default_options =
     Inl (invalid ''PROXY v2 requires TCP over IPv4 or IPv6'')"
proof -
  let ?body = "enc_tlvs [(0xe0, 1 # ep)]"
  have len: "length ?body \<le> u16_max" "length ?body = 36"
    using assms by (simp_all add: u16_max_def enc_tlv_def)
  show ?thesis
    unfolding encode_iroh_frame [OF assms] parse_proxy_protocol_v2_with_options_def FIXED_BYTES_def
    using proxy_frame_fields [OF len(1), of 0] len(2) version_command_byte [of "0x21"]
    by (simp add: maximum_bytes_or_default_def DEFAULT_MAX_PROXY_V2_BYTES_def FIXED_BYTES_def
        parse_address_block_def default_options_def)
qed

lemma of_be_port: "n \<le> u16_max \<Longrightarrow> of_be (be_bytes 2 n) = n"
  by (intro of_be_be_bytes) (simp add: u16_max_def)

lemma address_blocks_read_back:
  assumes "p \<le> u16_max" "q \<le> u16_max"
  shows "length s = 4 \<Longrightarrow> length d = 4 \<Longrightarrow> ipv4_block (s @ d @ be_bytes 2 p @ be_bytes 2 q) =
      \<lparr> pa_source = \<lparr> sa_ip = V4 s, sa_port = p \<rparr>, pa_destination = \<lparr> sa_ip = V4 d, sa_port = q \<rparr> \<rparr>"
    and "length s = 16 \<Longrightarrow> length d = 16 \<Longrightarrow> ipv6_block (s @ d @ be_bytes 2 p @ be_bytes 2 q) =
      \<lparr> pa_source = \<lparr> sa_ip = normalize_ip (V6 s), sa_port = p \<rparr>,
        pa_destination = \<lparr> sa_ip = normalize_ip (V6 d), sa_port = q \<rparr> \<rparr>"
  by (simp_all add: ipv4_block_def ipv6_block_def subslice_def of_be_port assms del: normalize_ip.simps)

lemma relay_accepted:
  assumes ok: "socket_ok s" "socket_ok d" and h: "proxy_v2_header s d = Inr pre"
  shows "accepted_preamble default_options pre
     \<lparr> pp_address = Some \<lparr> pa_source = s\<lparr> sa_ip := normalize_ip (sa_ip s) \<rparr>,
                           pa_destination = d\<lparr> sa_ip := normalize_ip (sa_ip d) \<rparr> \<rparr>,
       pp_iroh_endpoint_id = None \<rparr>" (is "accepted_preamble _ _ ?p")
proof -
  let ?ports = "be_bytes 2 (sa_port s) @ be_bytes 2 (sa_port d)"
  have P: "sa_port s \<le> u16_max" "sa_port d \<le> u16_max"
    using ok by (simp_all add: socket_ok_def)
  consider (v4) a b where "sa_ip s = V4 a" "sa_ip d = V4 b"
    | (v6) a b where "sa_ip s = V6 a" "sa_ip d = V6 b"
    using h by (auto simp: Let_def split: ip_addr.splits)
  then show ?thesis
  proof cases
    case v4
    then have len: "length a = 4" "length b = 4"
      using ok by (simp_all add: socket_ok_def)
    have pre: "pre = proxy_frame 0x11 (a @ b @ ?ports)"
      using h v4 len by (simp add: Let_def proxy_frame_def)
    show ?thesis
      unfolding accepted_preamble_def
      by (intro exI [of _ "0x11"] exI [of _ "a @ b @ ?ports"] exI [of _ "[]"])
        (simp add: pre len v4 u16_max_def address_block_ok_def address_blocks_read_back [OF P])
  next
    case v6
    then have len: "length a = 16" "length b = 16"
      using ok by (simp_all add: socket_ok_def)
    have pre: "pre = proxy_frame 0x21 (a @ b @ ?ports)"
      using h v6 len by (simp add: Let_def proxy_frame_def)
    show ?thesis
      unfolding accepted_preamble_def
      by (intro exI [of _ "0x21"] exI [of _ "a @ b @ ?ports"] exI [of _ "[]"])
        (simp add: pre len v6 u16_max_def address_block_ok_def address_blocks_read_back [OF P]
          del: normalize_ip.simps)
  qed
qed

lemma relay_length:
  "socket_ok s \<Longrightarrow> socket_ok d \<Longrightarrow> proxy_v2_header s d = Inr pre \<Longrightarrow> length pre \<le> 52"
  by (auto simp: Let_def socket_ok_def split: ip_addr.splits)

section \<open>Properties\<close>

text \<open>C8. The parser accepts exactly the preambles of the grammar: signature, version 2 with the
  PROXY command, the declared length equal to the body, an IPv4 or IPv6 address block (or, with
  the identity extension enabled, no address), a sequence of complete TLVs, and the identity TLV
  present exactly once and well formed if and only if the family is UNSPEC; and only up to the
  configured limit.\<close>

theorem parse_accepts_exactly_the_grammar:
  "parse_proxy_protocol_v2_with_options pre m options = Inr p \<longleftrightarrow>
   16 \<le> (if m = 0 then 536 else m) \<and> length pre \<le> (if m = 0 then 536 else m)
   \<and> accepted_preamble options pre p"
  by (auto simp: parse_with_options_Inr maximum_bytes_or_default_Inr)

text \<open>C9. Reading a preamble from a connection, however its bytes are fragmented, succeeds exactly
  when the pending bytes start with an accepted preamble within the limit, and it consumes that
  preamble and nothing after it.\<close>

theorem read_consumes_exactly_one_preamble:
  assumes "clean r"
  shows "(\<exists>r'. read_proxy_protocol_v2_with_options std_read_exact r m options = (Inr p, r')
              \<and> content r' = rest)
    \<longleftrightarrow> (\<exists>pre. content r = pre @ rest \<and> length pre \<le> (if m = 0 then 536 else m)
          \<and> 16 \<le> (if m = 0 then 536 else m) \<and> accepted_preamble options pre p)"
  using assms by (rule std_source.read_preamble_iff)


theorem read_consumes_exactly_one_preamble_witness:
  "\<exists>r'. read_proxy_protocol_v2_with_options std_read_exact
       [Chunk (take 7 (encode_iroh_proxy_v2 (replicate 32 5))), Intr,
        Chunk (drop 7 (encode_iroh_proxy_v2 (replicate 32 5)) @ [1, 2, 3])] 0 iroh_options
     = (Inr \<lparr> pp_address = None, pp_iroh_endpoint_id = Some (replicate 32 5) \<rparr>, r')
     \<and> content r' = [1, 2, 3]"
proof -
  let ?pre = "encode_iroh_proxy_v2 (replicate 32 5)"
  let ?r = "[Chunk (take 7 ?pre), Intr, Chunk (drop 7 ?pre @ [1, 2, 3])]"
  have l: "length ?pre = 52"
    by (simp add: length_encode_iroh)
  then have "?pre \<noteq> []"
    by auto
  then have "clean ?r" "content ?r = ?pre @ [1, 2, 3]"
    by simp_all
  then show ?thesis
    by (subst read_consumes_exactly_one_preamble)
      (auto simp: l intro!: exI [of _ ?pre] encode_iroh_accepted)
qed

text \<open>C10. The worker's parser recovers the endpoint identity from what the Iroh bridge writes when
  the extension is enabled, and refuses the same bytes under the default options.\<close>

theorem bridge_identity_round_trip:
  assumes "length ep = 32"
  shows "parse_proxy_protocol_v2_with_options (encode_iroh_proxy_v2 ep) 0 iroh_options =
      Inr \<lparr> pp_address = None, pp_iroh_endpoint_id = Some ep \<rparr>
    \<and> parse_proxy_protocol_v2_with_options (encode_iroh_proxy_v2 ep) 0 default_options =
      Inl (invalid ''PROXY v2 requires TCP over IPv4 or IPv6'')"
  using assms encode_iroh_accepted [OF assms] encode_iroh_default_rejected [OF assms]
  by (simp add: parse_with_options_Inr maximum_bytes_or_default_Inr length_encode_iroh)

theorem bridge_identity_round_trip_witness:
  "parse_proxy_protocol_v2_with_options (encode_iroh_proxy_v2 (replicate 32 9)) 0 iroh_options =
      Inr \<lparr> pp_address = None, pp_iroh_endpoint_id = Some (replicate 32 9) \<rparr>"
  using bridge_identity_round_trip [of "replicate 32 9"] by simp

text \<open>The parser recovers the source and destination that the relay wrote, with IPv4-mapped IPv6
  addresses normalised to IPv4.\<close>

theorem relay_round_trip:
  assumes "socket_ok s" "socket_ok d" "proxy_v2_header s d = Inr pre"
  shows "parse_proxy_protocol_v2 pre 0 =
    Inr \<lparr> pa_source = s\<lparr> sa_ip := normalize_ip (sa_ip s) \<rparr>,
          pa_destination = d\<lparr> sa_ip := normalize_ip (sa_ip d) \<rparr> \<rparr>"
proof -
  have "length pre \<le> 536"
    using relay_length [OF assms] by simp
  then have "parse_proxy_protocol_v2_with_options pre 0 default_options =
     Inr \<lparr> pp_address = Some \<lparr> pa_source = s\<lparr> sa_ip := normalize_ip (sa_ip s) \<rparr>,
                           pa_destination = d\<lparr> sa_ip := normalize_ip (sa_ip d) \<rparr> \<rparr>,
       pp_iroh_endpoint_id = None \<rparr>"
    using relay_accepted [OF assms]
    by (simp add: parse_with_options_Inr maximum_bytes_or_default_Inr)
  then show ?thesis
    by (simp add: parse_proxy_protocol_v2_def)
qed

theorem relay_round_trip_witness:
  "\<exists>pre. proxy_v2_header \<lparr> sa_ip = V4 [10, 0, 0, 1], sa_port = 8080 \<rparr>
             \<lparr> sa_ip = V4 [10, 0, 0, 2], sa_port = 80 \<rparr> = Inr pre
     \<and> parse_proxy_protocol_v2 pre 0 =
         Inr \<lparr> pa_source = \<lparr> sa_ip = V4 [10, 0, 0, 1], sa_port = 8080 \<rparr>,
               pa_destination = \<lparr> sa_ip = V4 [10, 0, 0, 2], sa_port = 80 \<rparr> \<rparr>"
proof -
  let ?s = "\<lparr> sa_ip = V4 [10, 0, 0, 1], sa_port = 8080 \<rparr>"
  let ?d = "\<lparr> sa_ip = V4 [10, 0, 0, 2], sa_port = 80 \<rparr>"
  have ok: "socket_ok ?s" "socket_ok ?d"
    by (simp_all add: socket_ok_def u16_max_def)
  obtain pre where "proxy_v2_header ?s ?d = Inr pre"
    by (simp add: Let_def)
  with relay_round_trip [OF ok this] show ?thesis
    by (intro exI [of _ pre]) simp
qed

end
