(* ===== verification/Rust_Str.thy ===== *)
theory Rust_Str
  imports Prelude "HOL-Library.Char_ord"
begin

text \<open>
  Rust strings. A \<^verbatim>\<open>&str\<close> or \<^verbatim>\<open>String\<close> is the \<^typ>\<open>string\<close> of its UTF-8 bytes, one \<^typ>\<open>char\<close> per
  byte, so that \<^verbatim>\<open>len()\<close> is \<^const>\<open>length\<close> and byte offsets are list positions; \<open>str_ok\<close> is the
  invariant of the type, that the bytes are valid UTF-8.

  The theory has the standard-library operations the sources use: UTF-8 validation (strict and
  lossy), ASCII case folding, trimming, splitting, and decimal printing and parsing with its
  round trip.
\<close>

section \<open>Bytes of a string\<close>

definition byte_of :: "char \<Rightarrow> byte" where
  "byte_of c = word_of_nat (of_char c)"

definition char_of_byte :: "byte \<Rightarrow> char" where
  "char_of_byte b = char_of (unat b)"

definition as_bytes :: "string \<Rightarrow> bytes" where
  "as_bytes s = map byte_of s"

definition of_bytes :: "bytes \<Rightarrow> string" where
  "of_bytes bs = map char_of_byte bs"

lemma char_of_byte_of [simp]: "char_of_byte (byte_of c) = c"
proof -
  have "of_char c < (256 :: nat)"
    using nat_of_char_less_256 by simp
  then show ?thesis
    by (simp add: char_of_byte_def byte_of_def unat_byte_of_nat)
qed

lemma byte_of_char_of_byte [simp]: "byte_of (char_of_byte b) = b"
proof -
  have "(of_char (char_of (unat b) :: char) :: nat) = unat b"
    using unat_byte_less [of b] by (subst of_char_of) (simp add: unat_byte_less del: unat_byte_less)
  then show ?thesis
    by (simp add: byte_of_def char_of_byte_def)
qed

lemma of_bytes_as_bytes [simp]: "of_bytes (as_bytes s) = s"
  by (simp add: of_bytes_def as_bytes_def o_def)

lemma as_bytes_of_bytes [simp]: "as_bytes (of_bytes bs) = bs"
  by (simp add: of_bytes_def as_bytes_def o_def)

lemma as_bytes_simps [simp]:
  "as_bytes [] = []"
  "as_bytes (c # s) = byte_of c # as_bytes s"
  "as_bytes (s @ t) = as_bytes s @ as_bytes t"
  "length (as_bytes s) = length s"
  by (simp_all add: as_bytes_def)

lemma length_of_bytes [simp]: "length (of_bytes bs) = length bs"
  by (simp add: of_bytes_def)

lemma inj_as_bytes: "as_bytes s = as_bytes t \<longleftrightarrow> s = t"
  by (metis of_bytes_as_bytes)

section \<open>UTF-8\<close>

text \<open>
  One step of the standard decoder on a non-empty input: the number of bytes of the next scalar
  value, or the number of bytes of the maximal invalid prefix (what \<^verbatim>\<open>from_utf8_lossy\<close> replaces).
\<close>

datatype utf8_step = Scalar nat | Invalid nat

definition cont :: "byte \<Rightarrow> bool" where
  "cont b = (0x80 \<le> b \<and> b \<le> 0xBF)"

text \<open>The allowed range of the second byte after the lead byte (Unicode, table 3-7).\<close>

definition second_ok :: "byte \<Rightarrow> byte \<Rightarrow> bool" where
  "second_ok b c =
     (if b = 0xE0 then 0xA0 \<le> c \<and> c \<le> 0xBF
      else if b = 0xED then 0x80 \<le> c \<and> c \<le> 0x9F
      else if b = 0xF0 then 0x90 \<le> c \<and> c \<le> 0xBF
      else if b = 0xF4 then 0x80 \<le> c \<and> c \<le> 0x8F
      else cont c)"

definition seq_width :: "byte \<Rightarrow> nat" where
  "seq_width b =
     (if b < 0x80 then 1
      else if 0xC2 \<le> b \<and> b \<le> 0xDF then 2
      else if 0xE0 \<le> b \<and> b \<le> 0xEF then 3
      else if 0xF0 \<le> b \<and> b \<le> 0xF4 then 4
      else 0)"

definition utf8_next :: "bytes \<Rightarrow> utf8_step" where
  "utf8_next bs =
     (let b = hd bs; w = seq_width b in
      if w = 0 then Invalid 1
      else if w = 1 then Scalar 1
      else if length bs < 2 \<or> \<not> second_ok b (bs ! 1) then Invalid 1
      else if w = 2 then Scalar 2
      else if length bs < 3 \<or> \<not> cont (bs ! 2) then Invalid 2
      else if w = 3 then Scalar 3
      else if length bs < 4 \<or> \<not> cont (bs ! 3) then Invalid 3
      else Scalar 4)"

lemma utf8_next_pos:
  "utf8_next bs = Scalar n \<Longrightarrow> 0 < n"
  "utf8_next bs = Invalid n \<Longrightarrow> 0 < n"
  by (auto simp: utf8_next_def Let_def split: if_splits)

function utf8_valid :: "bytes \<Rightarrow> bool" where
  "utf8_valid bs =
     (if bs = [] then True
      else case utf8_next bs of Scalar n \<Rightarrow> utf8_valid (drop n bs) | Invalid n \<Rightarrow> False)"
  by pat_completeness auto
termination
  by (relation "measure length") (auto dest: utf8_next_pos)

declare utf8_valid.simps [simp del]

definition replacement :: bytes where
  "replacement = [0xEF, 0xBF, 0xBD]"

function utf8_lossy :: "bytes \<Rightarrow> bytes" where
  "utf8_lossy bs =
     (if bs = [] then []
      else case utf8_next bs of
        Scalar n \<Rightarrow> take n bs @ utf8_lossy (drop n bs)
      | Invalid n \<Rightarrow> replacement @ utf8_lossy (drop n bs))"
  by pat_completeness auto
termination
  by (relation "measure length") (auto dest: utf8_next_pos)

declare utf8_lossy.simps [simp del]

text \<open>\<^verbatim>\<open>String::from_utf8\<close>, \<^verbatim>\<open>String::from_utf8_lossy\<close> and the invariant of \<^verbatim>\<open>String\<close>.\<close>

definition from_utf8 :: "bytes \<Rightarrow> string option" where
  "from_utf8 bs = (if utf8_valid bs then Some (of_bytes bs) else None)"

definition from_utf8_lossy :: "bytes \<Rightarrow> string" where
  "from_utf8_lossy bs = of_bytes (utf8_lossy bs)"

definition str_ok :: "string \<Rightarrow> bool" where
  "str_ok s = utf8_valid (as_bytes s)"

lemma from_utf8_as_bytes [simp]: "str_ok s \<Longrightarrow> from_utf8 (as_bytes s) = Some s"
  by (simp add: from_utf8_def str_ok_def)

lemma from_utf8_SomeD: "from_utf8 bs = Some s \<Longrightarrow> bs = as_bytes s \<and> str_ok s"
  by (auto simp: from_utf8_def str_ok_def split: if_splits)

lemma utf8_lossy_valid: "utf8_valid bs \<Longrightarrow> utf8_lossy bs = bs"
proof (induction bs rule: utf8_valid.induct)
  case (1 bs)
  then show ?case
    by (subst utf8_lossy.simps) (auto simp: utf8_valid.simps [of bs] split: utf8_step.splits)
qed

lemma from_utf8_lossy_as_bytes [simp]: "str_ok s \<Longrightarrow> from_utf8_lossy (as_bytes s) = s"
  by (simp add: from_utf8_lossy_def str_ok_def utf8_lossy_valid)

lemma utf8_valid_ascii: "\<forall>b\<in>set bs. b < 0x80 \<Longrightarrow> utf8_valid bs"
proof (induction bs)
  case (Cons b bs)
  then show ?case
    by (subst utf8_valid.simps) (simp add: utf8_next_def seq_width_def Let_def)
qed (simp add: utf8_valid.simps)

definition is_ascii :: "string \<Rightarrow> bool" where
  "is_ascii s = list_all (\<lambda>c. of_char c < (128 :: nat)) s"

lemma byte_of_less: "of_char c < (128 :: nat) \<Longrightarrow> byte_of c < 0x80"
  by (simp add: byte_of_def word_less_nat_alt unat_of_nat)

lemma str_ok_ascii: "is_ascii s \<Longrightarrow> str_ok s"
  unfolding str_ok_def is_ascii_def as_bytes_def
  by (intro utf8_valid_ascii) (auto simp: list_all_iff byte_of_less)

section \<open>ASCII case, trimming and splitting\<close>

definition ascii_lower_char :: "char \<Rightarrow> char" where
  "ascii_lower_char c =
     (let n = of_char c :: nat in if 65 \<le> n \<and> n \<le> 90 then char_of (n + 32) else c)"

definition to_ascii_lowercase :: "string \<Rightarrow> string" where
  "to_ascii_lowercase s = map ascii_lower_char s"

definition eq_ignore_ascii_case :: "string \<Rightarrow> string \<Rightarrow> bool" where
  "eq_ignore_ascii_case s t = (to_ascii_lowercase s = to_ascii_lowercase t)"

text \<open>The UTF-8 encodings of the characters with the \<^verbatim>\<open>White_Space\<close> property, which \<^verbatim>\<open>trim\<close> removes.\<close>

definition white_space :: "string list" where
  "white_space = map of_bytes
     ([[9], [10], [11], [12], [13], [32], [0xC2, 0x85], [0xC2, 0xA0], [0xE1, 0x9A, 0x80]]
      @ map (\<lambda>b. [0xE2, 0x80, b])
          [0x80, 0x81, 0x82, 0x83, 0x84, 0x85, 0x86, 0x87, 0x88, 0x89, 0x8A, 0xA8, 0xA9, 0xAF]
      @ [[0xE2, 0x81, 0x9F], [0xE3, 0x80, 0x80]])"

function strip_prefixes :: "'a list list \<Rightarrow> 'a list \<Rightarrow> 'a list" where
  "strip_prefixes ws s =
     (case find (\<lambda>w. w \<noteq> [] \<and> prefix w s) ws of
        None \<Rightarrow> s
      | Some w \<Rightarrow> strip_prefixes ws (drop (length w) s))"
  by pat_completeness auto
termination
proof (relation "measure (\<lambda>(ws, s). length s)", goal_cases)
  case (2 ws s w)
  then have "w \<noteq> [] \<and> prefix w s"
    by (auto simp: find_Some_iff)
  then show ?case
    by (auto simp: prefix_def)
qed simp

declare strip_prefixes.simps [simp del]

definition trim_start :: "string \<Rightarrow> string" where
  "trim_start s = strip_prefixes white_space s"

definition trim_end :: "string \<Rightarrow> string" where
  "trim_end s = rev (strip_prefixes (map rev white_space) (rev s))"

definition trim :: "string \<Rightarrow> string" where
  "trim s = trim_end (trim_start s)"

definition graph_char :: "char \<Rightarrow> bool" where
  "graph_char c = (33 \<le> (of_char c :: nat) \<and> (of_char c :: nat) < 127)"

lemma white_space_ends:
  "\<forall>w\<in>set white_space. w \<noteq> [] \<and> \<not> graph_char (hd w) \<and> \<not> graph_char (last w)"
  by (simp add: white_space_def graph_char_def of_bytes_def char_of_byte_def)

lemma strip_prefixes_none: "(\<And>w. w \<in> set ws \<Longrightarrow> w \<noteq> [] \<Longrightarrow> \<not> prefix w s) \<Longrightarrow> strip_prefixes ws s = s"
  by (subst strip_prefixes.simps) (auto simp: find_None_iff split: option.split dest!: find_Some_iff [THEN iffD1])

lemma trim_graph:
  assumes "list_all graph_char s"
  shows "trim s = s"
proof -
  have graph: "graph_char c" if "c \<in> set s" for c
    using assms that by (simp add: list_all_iff)
  have hd_s: "\<not> prefix w s" if "w \<in> set white_space" for w
  proof
    assume "prefix w s"
    then have "hd w \<in> set s" if "w \<noteq> []"
      using that by (metis hd_in_set set_mono_prefix subsetD)
    then show False
      using bspec [OF white_space_ends that] graph by blast
  qed
  have last_s: "\<not> prefix w (rev s)" if w: "w \<in> set (map rev white_space)" for w
  proof
    assume "prefix w (rev s)"
    then have "last (rev w) \<in> set s" if "w \<noteq> []"
      using that by (metis last_rev hd_in_set set_mono_prefix set_rev subsetD)
    moreover obtain v where "v \<in> set white_space" "w = rev v"
      using w by auto
    ultimately show False
      using bspec [OF white_space_ends] graph by fastforce
  qed
  have "strip_prefixes white_space s = s" "strip_prefixes (map rev white_space) (rev s) = rev s"
    by (rule strip_prefixes_none, erule hd_s, rule strip_prefixes_none, erule last_s)
  then show ?thesis
    by (simp only: trim_def trim_start_def trim_end_def rev_rev_ident)
qed

text \<open>\<^verbatim>\<open>s.split(c)\<close>, which yields one piece more than there are separators, and \<^verbatim>\<open>split_once\<close>.\<close>

fun split_on :: "char \<Rightarrow> string \<Rightarrow> string list" where
  "split_on c [] = [[]]"
| "split_on c (x # xs) =
     (if x = c then [] # split_on c xs
      else case split_on c xs of [] \<Rightarrow> [[x]] | p # ps \<Rightarrow> (x # p) # ps)"

fun split_once :: "char \<Rightarrow> string \<Rightarrow> (string \<times> string) option" where
  "split_once c [] = None"
| "split_once c (x # xs) =
     (if x = c then Some ([], xs)
      else map_option (\<lambda>(p, q). (x # p, q)) (split_once c xs))"

lemma split_on_neq_Nil [simp]: "split_on c s \<noteq> []"
  by (induction s) (auto split: list.splits)

lemma split_once_Some: "split_once c s = Some (p, q) \<Longrightarrow> s = p @ c # q \<and> c \<notin> set p"
  by (induction s arbitrary: p) (auto split: if_splits)

lemma split_once_append: "c \<notin> set p \<Longrightarrow> split_once c (p @ c # q) = Some (p, q)"
  by (induction p) auto

lemma split_on_append:
  "c \<notin> set p \<Longrightarrow> split_on c (p @ c # q) = p # split_on c q"
  by (induction p) auto

lemma split_on_single: "c \<notin> set p \<Longrightarrow> split_on c p = [p]"
  by (induction p) auto

section \<open>Decimal numbers\<close>

definition digit_char :: "nat \<Rightarrow> char" where
  "digit_char d = char_of (48 + d)"

fun show_nat :: "nat \<Rightarrow> string" where
  "show_nat n = (if n < 10 then [digit_char n] else show_nat (n div 10) @ [digit_char (n mod 10)])"

declare show_nat.simps [simp del]

definition show_int :: "int \<Rightarrow> string" where
  "show_int x = (if x < 0 then ''-'' @ show_nat (nat (- x)) else show_nat (nat x))"

definition digit_val :: "char \<Rightarrow> nat option" where
  "digit_val c = (let n = of_char c in if 48 \<le> n \<and> n \<le> 57 then Some (n - 48) else None)"

text \<open>The digit loop of \<^verbatim>\<open>from_str\<close> for an unsigned type with the given maximum.\<close>

fun parse_digits :: "nat \<Rightarrow> nat \<Rightarrow> string \<Rightarrow> nat option" where
  "parse_digits m acc [] = Some acc"
| "parse_digits m acc (c # cs) =
     (case digit_val c of
        None \<Rightarrow> None
      | Some d \<Rightarrow> if acc * 10 + d \<le> m then parse_digits m (acc * 10 + d) cs else None)"

definition parse_unsigned :: "nat \<Rightarrow> string \<Rightarrow> nat option" where
  "parse_unsigned m s =
     (case s of
        [] \<Rightarrow> None
      | c # cs \<Rightarrow>
          if c = CHR ''+'' then (if cs = [] then None else parse_digits m 0 cs)
          else parse_digits m 0 s)"

abbreviation (input) parse_u64 :: "string \<Rightarrow> nat option" where
  "parse_u64 \<equiv> parse_unsigned u64_max"

lemma of_char_digit_char [simp]: "d < 10 \<Longrightarrow> of_char (digit_char d) = 48 + d"
  by (simp add: digit_char_def)

lemma digit_val_digit_char [simp]: "d < 10 \<Longrightarrow> digit_val (digit_char d) = Some d"
  by (simp add: digit_val_def)

lemma show_nat_neq_Nil [simp]: "show_nat n \<noteq> []"
  by (subst show_nat.simps) simp

lemma parse_digits_append:
  "parse_digits m acc (s @ t) =
     (case parse_digits m acc s of None \<Rightarrow> None | Some v \<Rightarrow> parse_digits m v t)"
  by (induction s arbitrary: acc) (auto split: option.splits)

lemma parse_digits_show_nat: "n \<le> m \<Longrightarrow> parse_digits m 0 (show_nat n) = Some n"
proof (induction n rule: show_nat.induct)
  case (1 n)
  show ?case
  proof (cases "n < 10")
    case True
    then show ?thesis
      using "1.prems" by (simp add: show_nat.simps [of n])
  next
    case False
    then have "parse_digits m 0 (show_nat (n div 10)) = Some (n div 10)"
      using 1 by (meson div_le_dividend le_trans)
    then show ?thesis
      using False "1.prems" by (simp add: show_nat.simps [of n] parse_digits_append)
  qed
qed

lemma show_nat_digits: "c \<in> set (show_nat n) \<Longrightarrow> digit_val c \<noteq> None"
proof (induction n rule: show_nat.induct)
  case (1 n)
  then show ?case
    by (cases "n < 10") (auto simp: show_nat.simps [of n])
qed

lemma parse_unsigned_show_nat [simp]: "n \<le> m \<Longrightarrow> parse_unsigned m (show_nat n) = Some n"
proof -
  assume n: "n \<le> m"
  obtain c cs where s: "show_nat n = c # cs"
    by (cases "show_nat n") auto
  then have "digit_val c \<noteq> None"
    using show_nat_digits [of c n] by simp
  then have "c \<noteq> CHR ''+''"
    by (auto simp: digit_val_def)
  then show ?thesis
    using parse_digits_show_nat [OF n] by (simp add: parse_unsigned_def s)
qed

lemma parse_digits_le: "acc \<le> m \<Longrightarrow> parse_digits m acc s = Some n \<Longrightarrow> n \<le> m"
  by (induction s arbitrary: acc) (auto split: option.splits if_splits)

lemma parse_unsigned_le: "parse_unsigned m s = Some n \<Longrightarrow> n \<le> m"
  unfolding parse_unsigned_def
  by (auto simp del: parse_digits.simps dest!: parse_digits_le [OF le0] split: list.splits if_splits)

lemma show_nat_inj: "show_nat a = show_nat b \<Longrightarrow> a = b"
  by (metis max.cobounded1 max.cobounded2 option.inject parse_unsigned_show_nat)

section \<open>Byte strings outside ASCII that occur in messages\<close>

definition em_dash :: string where
  "em_dash = of_bytes [0xE2, 0x80, 0x94]"

end
