(* ===== verification/Error_Model.thy ===== *)
theory Error_Model
  imports Rust_Str Complex_Main "HOL-Library.List_Lexorder"
begin

text \<open>
  The error model: \<^verbatim>\<open>vgi-rpc/src/error_model.rs\<close>, \<^verbatim>\<open>errors.rs\<close> and the reason codes of
  \<^verbatim>\<open>unauthorized.rs\<close>. Canonical codes with their wire names, the catalog of typed details with their
  JSON form, the rules a detail list must obey, and the \<open>rpc_error\<close> value every component returns.

  The JSON text codec is the crate \<^verbatim>\<open>serde_json\<close>: it enters as the parameters \<open>to_text\<close> and
  \<open>from_text\<close>, with the law that reading back a written value returns it (\<open>json_codec\<close>).
\<close>

section \<open>Canonical codes\<close>

datatype code =
    Cancelled | Unknown | InvalidArgument | DeadlineExceeded | NotFound | AlreadyExists
  | PermissionDenied | ResourceExhausted | FailedPrecondition | Aborted | OutOfRange
  | Unimplemented | Internal | Unavailable | DataLoss | Unauthenticated

definition code_ALL :: "code list" where
  "code_ALL =
     [Cancelled, Unknown, InvalidArgument, DeadlineExceeded, NotFound, AlreadyExists,
      PermissionDenied, ResourceExhausted, FailedPrecondition, Aborted, OutOfRange,
      Unimplemented, Internal, Unavailable, DataLoss, Unauthenticated]"

fun code_as_str :: "code \<Rightarrow> string" where
  "code_as_str Cancelled = ''CANCELLED''"
| "code_as_str Unknown = ''UNKNOWN''"
| "code_as_str InvalidArgument = ''INVALID_ARGUMENT''"
| "code_as_str DeadlineExceeded = ''DEADLINE_EXCEEDED''"
| "code_as_str NotFound = ''NOT_FOUND''"
| "code_as_str AlreadyExists = ''ALREADY_EXISTS''"
| "code_as_str PermissionDenied = ''PERMISSION_DENIED''"
| "code_as_str ResourceExhausted = ''RESOURCE_EXHAUSTED''"
| "code_as_str FailedPrecondition = ''FAILED_PRECONDITION''"
| "code_as_str Aborted = ''ABORTED''"
| "code_as_str OutOfRange = ''OUT_OF_RANGE''"
| "code_as_str Unimplemented = ''UNIMPLEMENTED''"
| "code_as_str Internal = ''INTERNAL''"
| "code_as_str Unavailable = ''UNAVAILABLE''"
| "code_as_str DataLoss = ''DATA_LOSS''"
| "code_as_str Unauthenticated = ''UNAUTHENTICATED''"

definition code_from_name :: "string \<Rightarrow> code option" where
  "code_from_name name = find (\<lambda>c. code_as_str c = name) code_ALL"

definition code_parse :: "string \<Rightarrow> code" where
  "code_parse name = (case code_from_name name of None \<Rightarrow> Unknown | Some c \<Rightarrow> c)"

datatype auth_reason =
    MissingCredential | InvalidCredential | ExpiredCredential | InsufficientScope
  | ProxyRequired | Unauthorized

fun auth_reason_as_str :: "auth_reason \<Rightarrow> string" where
  "auth_reason_as_str MissingCredential = ''missing_credential''"
| "auth_reason_as_str InvalidCredential = ''invalid_credential''"
| "auth_reason_as_str ExpiredCredential = ''expired_credential''"
| "auth_reason_as_str InsufficientScope = ''insufficient_scope''"
| "auth_reason_as_str ProxyRequired = ''proxy_required''"
| "auth_reason_as_str Unauthorized = ''unauthorized''"

section \<open>Floating point and JSON values\<close>

text \<open>An \<^verbatim>\<open>f64\<close> is a finite rational or one of the special values.\<close>

datatype f64 = Fin rat | Pos_Inf | Neg_Inf | NaN

text \<open>
  \<^verbatim>\<open>n as f64\<close> for an integer: exact up to 53 significant bits, round half to even above.
\<close>

fun excess_bits :: "nat \<Rightarrow> nat" where
  "excess_bits n = (if n < 2 ^ 53 then 0 else Suc (excess_bits (n div 2)))"

declare excess_bits.simps [simp del]

definition round_nat :: "nat \<Rightarrow> nat" where
  "round_nat n =
     (let e = excess_bits n; q = n div 2 ^ e; r = n mod 2 ^ e in
      if 2 * r < 2 ^ e \<or> (2 * r = 2 ^ e \<and> even q) then q * 2 ^ e else (q + 1) * 2 ^ e)"

definition f64_of_int :: "int \<Rightarrow> rat" where
  "f64_of_int x = (if x < 0 then - of_nat (round_nat (nat (- x))) else of_nat (round_nat (nat x)))"

datatype json =
    JNull | JBool bool | JInt int | JFloat rat | JStr string
  | JArr "json list" | JObj "(string \<times> json) list"

text \<open>
  \<^verbatim>\<open>serde_json::Map\<close> and \<^verbatim>\<open>BTreeMap\<close>: an association list in ascending key order. The invariant
  \<open>json_wf\<close> says that every object of a value is such a map.
\<close>

fun obj_insert :: "string \<Rightarrow> 'v \<Rightarrow> (string \<times> 'v) list \<Rightarrow> (string \<times> 'v) list" where
  "obj_insert k v [] = [(k, v)]"
| "obj_insert k v ((k', v') # m) =
     (if k < k' then (k, v) # (k', v') # m
      else if k = k' then (k, v) # m
      else (k', v') # obj_insert k v m)"

definition obj_of :: "(string \<times> 'v) list \<Rightarrow> (string \<times> 'v) list" where
  "obj_of kvs = foldl (\<lambda>m (k, v). obj_insert k v m) [] kvs"

definition obj_sorted :: "(string \<times> 'v) list \<Rightarrow> bool" where
  "obj_sorted m = sorted_wrt (<) (map fst m)"

fun json_wf :: "json \<Rightarrow> bool" where
  "json_wf (JArr xs) = (\<forall>x\<in>set xs. json_wf x)"
| "json_wf (JObj m) = (obj_sorted m \<and> (\<forall>x\<in>set m. json_wf (snd x)))"
| "json_wf _ = True"

abbreviation (input) obj_get :: "(string \<times> json) list \<Rightarrow> string \<Rightarrow> json option" where
  "obj_get obj k \<equiv> map_of obj k"

fun as_object :: "json \<Rightarrow> (string \<times> json) list option" where
  "as_object (JObj m) = Some m"
| "as_object _ = None"

fun as_str :: "json \<Rightarrow> string option" where
  "as_str (JStr s) = Some s"
| "as_str _ = None"

fun as_f64 :: "json \<Rightarrow> f64 option" where
  "as_f64 (JInt n) = Some (Fin (f64_of_int n))"
| "as_f64 (JFloat r) = Some (Fin r)"
| "as_f64 _ = None"

section \<open>The detail catalog\<close>

record field_violation =
  fv_field :: string
  fv_description :: string

record precondition_violation =
  pv_type :: string
  pv_subject :: string
  pv_description :: string

record quota_violation =
  qv_subject :: string
  qv_description :: string

record help_link =
  hl_description :: string
  hl_url :: string

datatype error_detail =
    ErrorInfo "(string \<times> string) list"
  | RetryInfo f64
  | BadRequest "field_violation list"
  | PreconditionFailure "precondition_violation list"
  | QuotaFailure "quota_violation list"
  | ResourceInfo string string string string
  | Help "help_link list"
  | LocalizedMessage string string

definition ERROR_INFO_TYPE :: string where "ERROR_INFO_TYPE = ''vgi_rpc.ErrorInfo''"
definition RETRY_INFO_TYPE :: string where "RETRY_INFO_TYPE = ''vgi_rpc.RetryInfo''"
definition BAD_REQUEST_TYPE :: string where "BAD_REQUEST_TYPE = ''vgi_rpc.BadRequest''"
definition PRECONDITION_FAILURE_TYPE :: string where
  "PRECONDITION_FAILURE_TYPE = ''vgi_rpc.PreconditionFailure''"
definition QUOTA_FAILURE_TYPE :: string where "QUOTA_FAILURE_TYPE = ''vgi_rpc.QuotaFailure''"
definition RESOURCE_INFO_TYPE :: string where "RESOURCE_INFO_TYPE = ''vgi_rpc.ResourceInfo''"
definition HELP_TYPE :: string where "HELP_TYPE = ''vgi_rpc.Help''"
definition LOCALIZED_MESSAGE_TYPE :: string where
  "LOCALIZED_MESSAGE_TYPE = ''vgi_rpc.LocalizedMessage''"

lemmas type_defs = ERROR_INFO_TYPE_def RETRY_INFO_TYPE_def BAD_REQUEST_TYPE_def
  PRECONDITION_FAILURE_TYPE_def QUOTA_FAILURE_TYPE_def RESOURCE_INFO_TYPE_def HELP_TYPE_def
  LOCALIZED_MESSAGE_TYPE_def

definition CATALOG_TYPES :: "string list" where
  "CATALOG_TYPES =
     [ERROR_INFO_TYPE, RETRY_INFO_TYPE, BAD_REQUEST_TYPE, PRECONDITION_FAILURE_TYPE,
      QUOTA_FAILURE_TYPE, RESOURCE_INFO_TYPE, HELP_TYPE, LOCALIZED_MESSAGE_TYPE]"

definition RESERVED_DETAIL_PREFIX :: string where "RESERVED_DETAIL_PREFIX = ''vgi_rpc.''"
definition MAX_ERROR_DETAILS_BYTES :: nat where "MAX_ERROR_DETAILS_BYTES = 4096"

fun delay_json :: "f64 \<Rightarrow> json" where
  "delay_json (Fin d) =
     (if d = of_int \<lfloor>d\<rfloor> \<and> \<bar>d\<bar> < 9000000000000000 then JInt \<lfloor>d\<rfloor> else JFloat d)"
| "delay_json _ = JNull"

fun type_name :: "error_detail \<Rightarrow> string" where
  "type_name (ErrorInfo _) = ERROR_INFO_TYPE"
| "type_name (RetryInfo _) = RETRY_INFO_TYPE"
| "type_name (BadRequest _) = BAD_REQUEST_TYPE"
| "type_name (PreconditionFailure _) = PRECONDITION_FAILURE_TYPE"
| "type_name (QuotaFailure _) = QUOTA_FAILURE_TYPE"
| "type_name (ResourceInfo _ _ _ _) = RESOURCE_INFO_TYPE"
| "type_name (Help _) = HELP_TYPE"
| "type_name (LocalizedMessage _ _) = LOCALIZED_MESSAGE_TYPE"

definition fv_json :: "field_violation \<Rightarrow> json" where
  "fv_json v = JObj (obj_of [(''field'', JStr (fv_field v)), (''description'', JStr (fv_description v))])"

definition pv_json :: "precondition_violation \<Rightarrow> json" where
  "pv_json v = JObj (obj_of [(''type'', JStr (pv_type v)), (''subject'', JStr (pv_subject v)),
                     (''description'', JStr (pv_description v))])"

definition qv_json :: "quota_violation \<Rightarrow> json" where
  "qv_json v = JObj (obj_of [(''subject'', JStr (qv_subject v)), (''description'', JStr (qv_description v))])"

definition hl_json :: "help_link \<Rightarrow> json" where
  "hl_json v = JObj (obj_of [(''description'', JStr (hl_description v)), (''url'', JStr (hl_url v))])"

fun detail_fields :: "error_detail \<Rightarrow> (string \<times> json) list" where
  "detail_fields (ErrorInfo md) = [(''metadata'', JObj (obj_of (map (\<lambda>(k, v). (k, JStr v)) md)))]"
| "detail_fields (RetryInfo d) = [(''retry_delay_seconds'', delay_json d)]"
| "detail_fields (BadRequest vs) = [(''field_violations'', JArr (map fv_json vs))]"
| "detail_fields (PreconditionFailure vs) = [(''violations'', JArr (map pv_json vs))]"
| "detail_fields (QuotaFailure vs) = [(''violations'', JArr (map qv_json vs))]"
| "detail_fields (ResourceInfo t n ow d) =
     [(''resource_type'', JStr t), (''resource_name'', JStr n), (''owner'', JStr ow),
      (''description'', JStr d)]"
| "detail_fields (Help ls) = [(''links'', JArr (map hl_json ls))]"
| "detail_fields (LocalizedMessage l m) = [(''locale'', JStr l), (''message'', JStr m)]"

definition to_json :: "error_detail \<Rightarrow> json" where
  "to_json d = JObj (obj_of ((''@type'', JStr (type_name d)) # detail_fields d))"

text \<open>A string field: absent reads as empty, a non-string is malformed. An array of objects alike.\<close>

definition string_field :: "(string \<times> json) list \<Rightarrow> string \<Rightarrow> string option" where
  "string_field obj key =
     (case obj_get obj key of None \<Rightarrow> Some [] | Some (JStr s) \<Rightarrow> Some s | Some _ \<Rightarrow> None)"

fun all_some :: "'a option list \<Rightarrow> 'a list option" where
  "all_some [] = Some []"
| "all_some (None # xs) = None"
| "all_some (Some x # xs) = map_option (\<lambda>ys. x # ys) (all_some xs)"

definition objects :: "(string \<times> json) list \<Rightarrow> string \<Rightarrow> (string \<times> json) list list option" where
  "objects obj key =
     (case obj_get obj key of
        None \<Rightarrow> Some []
      | Some (JArr items) \<Rightarrow> all_some (map as_object items)
      | Some _ \<Rightarrow> None)"

definition fv_of :: "(string \<times> json) list \<Rightarrow> field_violation option" where
  "fv_of v = Option.bind (string_field v ''field'') (\<lambda>f.
     Option.bind (string_field v ''description'') (\<lambda>d. Some \<lparr> fv_field = f, fv_description = d \<rparr>))"

definition pv_of :: "(string \<times> json) list \<Rightarrow> precondition_violation option" where
  "pv_of v = Option.bind (string_field v ''type'') (\<lambda>t.
     Option.bind (string_field v ''subject'') (\<lambda>s.
     Option.bind (string_field v ''description'') (\<lambda>d.
       Some \<lparr> pv_type = t, pv_subject = s, pv_description = d \<rparr>)))"

definition qv_of :: "(string \<times> json) list \<Rightarrow> quota_violation option" where
  "qv_of v = Option.bind (string_field v ''subject'') (\<lambda>s.
     Option.bind (string_field v ''description'') (\<lambda>d.
       Some \<lparr> qv_subject = s, qv_description = d \<rparr>))"

definition hl_of :: "(string \<times> json) list \<Rightarrow> help_link option" where
  "hl_of v = Option.bind (string_field v ''description'') (\<lambda>d.
     Option.bind (string_field v ''url'') (\<lambda>u. Some \<lparr> hl_description = d, hl_url = u \<rparr>))"

definition error_info_of :: "(string \<times> json) list \<Rightarrow> (string \<times> string) list option" where
  "error_info_of obj =
     (case obj_get obj ''metadata'' of
        None \<Rightarrow> Some []
      | Some (JObj m) \<Rightarrow> all_some (map (\<lambda>(k, v). map_option (\<lambda>s. (k, s)) (as_str v)) m)
      | Some _ \<Rightarrow> None)"

definition retry_info_of :: "(string \<times> json) list \<Rightarrow> f64 option" where
  "retry_info_of obj =
     Option.bind (obj_get obj ''retry_delay_seconds'') (\<lambda>delay.
     case as_f64 delay of
       Some (Fin d) \<Rightarrow> (if d < 0 then None else Some (Fin d))
     | _ \<Rightarrow> None)"

definition violations_of ::
  "((string \<times> json) list \<Rightarrow> 'v option) \<Rightarrow> (string \<times> json) list \<Rightarrow> string \<Rightarrow> 'v list option" where
  "violations_of f obj key = Option.bind (objects obj key) (\<lambda>vs. all_some (map f vs))"

definition from_json :: "json \<Rightarrow> error_detail option" where
  "from_json value =
     Option.bind (as_object value) (\<lambda>obj.
     Option.bind (obj_get obj ''@type'') (\<lambda>tyv.
     Option.bind (as_str tyv) (\<lambda>ty.
     if ty = ERROR_INFO_TYPE then map_option ErrorInfo (error_info_of obj)
     else if ty = RETRY_INFO_TYPE then map_option RetryInfo (retry_info_of obj)
     else if ty = BAD_REQUEST_TYPE then
       map_option BadRequest (violations_of fv_of obj ''field_violations'')
     else if ty = PRECONDITION_FAILURE_TYPE then
       map_option PreconditionFailure (violations_of pv_of obj ''violations'')
     else if ty = QUOTA_FAILURE_TYPE then
       map_option QuotaFailure (violations_of qv_of obj ''violations'')
     else if ty = RESOURCE_INFO_TYPE then
       Option.bind (string_field obj ''resource_type'') (\<lambda>t.
       Option.bind (string_field obj ''resource_name'') (\<lambda>n.
       Option.bind (string_field obj ''owner'') (\<lambda>ow.
       Option.bind (string_field obj ''description'') (\<lambda>d. Some (ResourceInfo t n ow d)))))
     else if ty = HELP_TYPE then map_option Help (violations_of hl_of obj ''links'')
     else if ty = LOCALIZED_MESSAGE_TYPE then
       Option.bind (string_field obj ''locale'') (\<lambda>l.
       Option.bind (string_field obj ''message'') (\<lambda>m. Some (LocalizedMessage l m)))
     else None)))"

text \<open>\<^verbatim>\<open>{:?}\<close> of a string, for characters that print as themselves outside the escapes.\<close>

definition debug_char :: "char \<Rightarrow> string" where
  "debug_char c =
     (if c = CHR 0x22 then [CHR 0x5C, CHR 0x22]
      else if c = CHR 0x5C then [CHR 0x5C, CHR 0x5C]
      else if c = CHR 0x0A then [CHR 0x5C, CHR ''n'']
      else if c = CHR 0x0D then [CHR 0x5C, CHR ''r'']
      else if c = CHR 0x09 then [CHR 0x5C, CHR ''t'']
      else if c = CHR 0x00 then [CHR 0x5C, CHR ''0'']
      else [c])"

definition debug_str :: "string \<Rightarrow> string" where
  "debug_str s = [CHR 0x22] @ concat (map debug_char s) @ [CHR 0x22]"

fun join :: "string \<Rightarrow> string list \<Rightarrow> string" where
  "join sep [] = []"
| "join sep [x] = x"
| "join sep (x # xs) = x @ sep @ join sep xs"

definition debug_list :: "string list \<Rightarrow> string" where
  "debug_list xs = ''['' @ join '', '' (map debug_str xs) @ '']''"

section \<open>Rules for a detail list\<close>

definition missing_type_message :: string where
  "missing_type_message =
     ''every error detail must name its type in '' @ [CHR 0x27] @ ''@type'' @ [CHR 0x27]"

fun validate_details_from :: "string list \<Rightarrow> json list \<Rightarrow> string + unit" where
  "validate_details_from seen [] = Inr ()"
| "validate_details_from seen (detail # rest) =
     (case as_object detail of
        None \<Rightarrow> Inl ''every error detail must be a JSON object''
      | Some obj \<Rightarrow>
          (case Option.bind (obj_get obj ''@type'') as_str of
             None \<Rightarrow> Inl missing_type_message
           | Some ty \<Rightarrow>
               if ty = [] then Inl missing_type_message
               else if ty \<in> set seen then
                 Inl (''error detail type '' @ debug_str ty @ '' appears more than once'')
               else if prefix RESERVED_DETAIL_PREFIX ty \<and> ty \<notin> set CATALOG_TYPES then
                 Inl (debug_str ty @ '' claims the reserved 'vgi_rpc.' prefix but is not in the catalog'')
               else if CHR ''.'' \<notin> set ty then
                 Inl (debug_str ty
                   @ '' is not qualified; protocol-defined types live under the protocol's name'')
               else validate_details_from (ty # seen) rest))"

definition validate_error_details :: "json list \<Rightarrow> string + unit" where
  "validate_error_details details = validate_details_from [] details"

definition encode_error_details :: "(json \<Rightarrow> string) \<Rightarrow> json list \<Rightarrow> string option" where
  "encode_error_details to_text details =
     (if details = [] \<or> is_err (validate_error_details details) then None
      else let text = to_text (JArr details) in
        if MAX_ERROR_DETAILS_BYTES < length text then None else Some text)"

definition decode_error_details :: "(string \<Rightarrow> json option) \<Rightarrow> string \<Rightarrow> json list" where
  "decode_error_details from_text raw =
     (case from_text raw of
        Some (JArr items) \<Rightarrow> filter (\<lambda>v. as_object v \<noteq> None) items
      | _ \<Rightarrow> [])"

definition is_retry_info :: "json \<Rightarrow> bool" where
  "is_retry_info d = (case from_json d of Some (RetryInfo _) \<Rightarrow> True | _ \<Rightarrow> False)"

definition is_retryable_code :: "string \<Rightarrow> json list \<Rightarrow> bool" where
  "is_retryable_code code details =
     (case code_from_name code of
        Some Unavailable \<Rightarrow> True
      | Some ResourceExhausted \<Rightarrow> list_ex is_retry_info details
      | _ \<Rightarrow> False)"

section \<open>The error value\<close>

record error_status =
  st_code :: string
  st_details :: "json list"

record rpc_error =
  e_type :: string
  e_message :: string
  e_traceback :: string
  e_request_id :: string
  e_auth_reason :: "auth_reason option"
  e_retry_after :: "nat option"
  e_kind :: "string option"
  e_status :: "error_status option"

type_synonym 'a rpc_result = "rpc_error + 'a"

definition rpc_error_new :: "string \<Rightarrow> string \<Rightarrow> rpc_error" where
  "rpc_error_new ty msg =
     \<lparr> e_type = ty, e_message = msg, e_traceback = [], e_request_id = [], e_auth_reason = None,
       e_retry_after = None, e_kind = None, e_status = None \<rparr>"

definition AUTH_UNAVAILABLE_ERROR_TYPE :: string where
  "AUTH_UNAVAILABLE_ERROR_TYPE = ''AuthUnavailableError''"

definition status_or_default :: "rpc_error \<Rightarrow> error_status" where
  "status_or_default e =
     (case e_status e of None \<Rightarrow> \<lparr> st_code = [], st_details = [] \<rparr> | Some s \<Rightarrow> s)"

definition with_code :: "code \<Rightarrow> rpc_error \<Rightarrow> rpc_error" where
  "with_code c e = e\<lparr> e_status := Some ((status_or_default e)\<lparr> st_code := code_as_str c \<rparr>) \<rparr>"

definition with_error_kind :: "string \<Rightarrow> rpc_error \<Rightarrow> rpc_error" where
  "with_error_kind k e = e\<lparr> e_kind := Some k \<rparr>"

definition with_status :: "code \<Rightarrow> string \<Rightarrow> rpc_error \<Rightarrow> rpc_error" where
  "with_status c k e = with_error_kind k (with_code c e)"

definition with_raw_details :: "json list \<Rightarrow> rpc_error \<Rightarrow> rpc_error" where
  "with_raw_details ds e =
     e\<lparr> e_status := Some ((status_or_default e)\<lparr> st_details := st_details (status_or_default e) @ ds \<rparr>) \<rparr>"

definition with_details :: "error_detail list \<Rightarrow> rpc_error \<Rightarrow> rpc_error" where
  "with_details ds e = with_raw_details (map to_json ds) e"

definition with_retry_after :: "nat \<Rightarrow> rpc_error \<Rightarrow> rpc_error" where
  "with_retry_after n e = e\<lparr> e_retry_after := Some n \<rparr>"

definition auth_unavailable :: "string \<Rightarrow> rpc_error" where
  "auth_unavailable detail =
     (with_code Unavailable (rpc_error_new AUTH_UNAVAILABLE_ERROR_TYPE detail))
       \<lparr> e_retry_after := Some 5 \<rparr>"

definition is_auth_unavailable :: "rpc_error \<Rightarrow> bool" where
  "is_auth_unavailable e = (e_type e = AUTH_UNAVAILABLE_ERROR_TYPE)"

definition auth_failure :: "auth_reason \<Rightarrow> string \<Rightarrow> rpc_error" where
  "auth_failure r detail = (rpc_error_new ''PermissionError'' detail)\<lparr> e_auth_reason := Some r \<rparr>"

definition value_error :: "string \<Rightarrow> rpc_error" where
  "value_error m = rpc_error_new ''ValueError'' m"

definition runtime_error :: "string \<Rightarrow> rpc_error" where
  "runtime_error m = rpc_error_new ''RuntimeError'' m"

definition type_error :: "string \<Rightarrow> rpc_error" where
  "type_error m = rpc_error_new ''TypeError'' m"

definition protocol_error :: "string \<Rightarrow> rpc_error" where
  "protocol_error m = rpc_error_new ''ProtocolError'' m"

definition version_error :: "string \<Rightarrow> rpc_error" where
  "version_error m = rpc_error_new ''VersionError'' m"

definition permission_error :: "string \<Rightarrow> rpc_error" where
  "permission_error m = rpc_error_new ''PermissionError'' m"

definition attribute_error :: "string \<Rightarrow> rpc_error" where
  "attribute_error m = rpc_error_new ''AttributeError'' m"

definition session_lost_error :: "string \<Rightarrow> rpc_error" where
  "session_lost_error m = with_status Aborted ''session_lost'' (rpc_error_new ''SessionLostError'' m)"

definition server_draining_error :: "string \<Rightarrow> rpc_error" where
  "server_draining_error m =
     with_details [RetryInfo (Fin 1)]
       (with_status Unavailable ''server_draining'' (rpc_error_new ''ServerDrainingError'' m))"

definition method_not_implemented :: "string \<Rightarrow> rpc_error" where
  "method_not_implemented m =
     with_status Unimplemented ''method_not_implemented'' (attribute_error m)"

definition protocol_version_mismatch :: "string \<Rightarrow> string \<Rightarrow> string \<Rightarrow> string \<Rightarrow> rpc_error" where
  "protocol_version_mismatch protocol client_version server_version direction =
     (let client = if client_version = [] then ''<not declared>'' else client_version in
      with_details
        [PreconditionFailure
           [\<lparr> pv_type = ''protocol_version'', pv_subject = protocol,
              pv_description = ''client declares '' @ client @ '', server requires ''
                @ server_version @ ''; major and minor must match'' \<rparr>]]
        (with_status FailedPrecondition ''protocol_version_mismatch''
          (version_error
            (''protocol_version mismatch for protocol '' @ debug_str protocol @ ''.''
             @ [CHR 0x0A] @ ''  Client: '' @ client @ [CHR 0x0A] @ ''  Server: '' @ server_version
             @ [CHR 0x0A] @ ''  Direction: '' @ direction))))"

definition set_wire_status :: "string \<Rightarrow> json list \<Rightarrow> rpc_error \<Rightarrow> rpc_error" where
  "set_wire_status c ds e =
     e\<lparr> e_status := (if c = [] \<and> ds = [] then None else Some \<lparr> st_code = c, st_details = ds \<rparr>) \<rparr>"

definition error_code :: "rpc_error \<Rightarrow> string" where
  "error_code e = (case e_status e of None \<Rightarrow> [] | Some s \<Rightarrow> st_code s)"

definition rpc_code :: "rpc_error \<Rightarrow> code" where
  "rpc_code e = code_parse (error_code e)"

definition error_kind_str :: "rpc_error \<Rightarrow> string" where
  "error_kind_str e = (case e_kind e of None \<Rightarrow> [] | Some k \<Rightarrow> k)"

definition error_details :: "rpc_error \<Rightarrow> json list" where
  "error_details e = (case e_status e of None \<Rightarrow> [] | Some s \<Rightarrow> st_details s)"

definition typed_details :: "rpc_error \<Rightarrow> error_detail list" where
  "typed_details e = List.map_filter from_json (error_details e)"

definition detail_of :: "rpc_error \<Rightarrow> string \<Rightarrow> error_detail option" where
  "detail_of e ty = find (\<lambda>d. type_name d = ty) (typed_details e)"

definition retry_info :: "rpc_error \<Rightarrow> f64 option" where
  "retry_info e = (case detail_of e RETRY_INFO_TYPE of Some (RetryInfo d) \<Rightarrow> Some d | _ \<Rightarrow> None)"

definition is_retryable :: "rpc_error \<Rightarrow> bool" where
  "is_retryable e = is_retryable_code (error_code e) (error_details e)"

definition wire_code :: "rpc_error \<Rightarrow> string" where
  "wire_code e = (if error_code e = [] then code_as_str Unknown else error_code e)"

definition names_retry_info :: "json \<Rightarrow> bool" where
  "names_retry_info d =
     (case as_object d of
        None \<Rightarrow> False
      | Some obj \<Rightarrow> Option.bind (obj_get obj ''@type'') as_str = Some RETRY_INFO_TYPE)"

definition wire_details :: "rpc_error \<Rightarrow> json list" where
  "wire_details e =
     (let details = error_details e in
      case e_retry_after e of
        None \<Rightarrow> details
      | Some seconds \<Rightarrow>
          if list_ex names_retry_info details then details
          else details @ [to_json (RetryInfo (Fin (of_nat seconds)))])"

section \<open>Lemmas\<close>

lemma code_from_name_as_str [simp]: "code_from_name (code_as_str c) = Some c"
  by (cases c) (simp_all add: code_from_name_def code_ALL_def)

lemma code_from_name_Some_iff: "code_from_name n = Some c \<longleftrightarrow> n = code_as_str c"
proof
  assume "code_from_name n = Some c"
  then show "n = code_as_str c"
    unfolding code_from_name_def by (auto simp: find_Some_iff)
qed simp

lemma code_as_str_neq_Nil [simp]: "code_as_str c \<noteq> []"
  by (cases c) simp_all

lemma round_nat_exact: "n < 2 ^ 53 \<Longrightarrow> round_nat n = n"
  by (simp add: round_nat_def excess_bits.simps)

lemma f64_of_int_exact:
  assumes "\<bar>x\<bar> < 2 ^ 53"
  shows "f64_of_int x = of_int x"
proof -
  have "nat x < 2 ^ 53" "nat (- x) < 2 ^ 53"
    using assms by (simp_all add: nat_less_iff)
  then show ?thesis
    by (auto simp: f64_of_int_def round_nat_exact)
qed

lemma map_of_obj_insert [simp]: "map_of (obj_insert k v m) = (map_of m)(k \<mapsto> v)"
  by (induction m) auto

lemma map_of_obj_of: "map_of (obj_of kvs) = map_of (rev kvs)"
proof -
  have "map_of (foldl (\<lambda>m (k, v). obj_insert k v m) m kvs) = map_of m ++ map_of (rev kvs)" for m
    by (induction kvs arbitrary: m) (auto simp: map_add_def fun_eq_iff split: option.splits)
  then show ?thesis
    by (simp add: obj_of_def)
qed

lemma set_obj_insert: "set (obj_insert k v m) \<subseteq> insert (k, v) (set m)"
  by (induction m) (auto split: if_splits)

lemma obj_sorted_insert: "obj_sorted m \<Longrightarrow> obj_sorted (obj_insert k v m)"
proof (induction m)
  case (Cons x m)
  have "k \<noteq> fst x \<Longrightarrow> \<not> k < fst x \<Longrightarrow> fst x < k"
    by simp
  with Cons show ?case
    using set_obj_insert [of k v m] by (cases x) (fastforce simp: obj_sorted_def)
qed (simp add: obj_sorted_def)

lemma obj_sorted_obj_of: "obj_sorted (obj_of kvs)"
proof -
  have "obj_sorted m \<Longrightarrow> obj_sorted (foldl (\<lambda>m (k, v). obj_insert k v m) m kvs)"
    for m :: "(string \<times> 'a) list"
    by (induction kvs arbitrary: m) (auto simp: obj_sorted_insert)
  then show ?thesis
    by (simp add: obj_of_def obj_sorted_def)
qed

lemma set_obj_of: "set (obj_of kvs) \<subseteq> set kvs"
proof -
  have "set (foldl (\<lambda>m (k, v). obj_insert k v m) m kvs) \<subseteq> set m \<union> set kvs" for m
    using set_obj_insert by (induction kvs arbitrary: m) fastforce+
  then show ?thesis
    by (metis empty_set obj_of_def sup_bot_left)
qed

lemma obj_insert_last:
  "\<forall>x\<in>set m. fst x < k \<Longrightarrow> obj_insert k v m = m @ [(k, v)]"
proof (induction m)
  case (Cons x m)
  then have "fst x < k"
    by simp
  then have "\<not> k < fst x" "k \<noteq> fst x"
    by (auto dest: less_asym)
  with Cons show ?case
    by (cases x) simp
qed simp

lemma obj_of_sorted: "obj_sorted kvs \<Longrightarrow> obj_of kvs = kvs"
proof (induction kvs rule: rev_induct)
  case (snoc x kvs)
  then have "obj_of kvs = kvs" and "\<And>y. y \<in> set kvs \<Longrightarrow> fst y < fst x"
    by (auto simp: obj_sorted_def sorted_wrt_append)
  then show ?case
    by (cases x) (auto simp: obj_of_def intro: obj_insert_last)
qed (simp add: obj_of_def)

lemma json_wf_obj_of: "(\<And>x. x \<in> set kvs \<Longrightarrow> json_wf (snd x)) \<Longrightarrow> json_wf (JObj (obj_of kvs))"
  using set_obj_of [of kvs] by (auto simp: obj_sorted_obj_of)

lemma all_some_map: "(\<And>x. x \<in> set xs \<Longrightarrow> f x = Some (g x)) \<Longrightarrow> all_some (map f xs) = Some (map g xs)"
  by (induction xs) auto

lemma all_some_map_map:
  "(\<And>x. x \<in> set xs \<Longrightarrow> f (g x) = Some x) \<Longrightarrow> all_some (map f (map g xs)) = Some xs"
  by (induction xs) auto

lemma violation_codecs [simp]:
  "Option.bind (as_object (fv_json v1)) fv_of = Some v1"
  "Option.bind (as_object (pv_json v2)) pv_of = Some v2"
  "Option.bind (as_object (qv_json v3)) qv_of = Some v3"
  "Option.bind (as_object (hl_json v4)) hl_of = Some v4"
  by (simp_all add: fv_json_def fv_of_def pv_json_def pv_of_def qv_json_def qv_of_def
      hl_json_def hl_of_def string_field_def map_of_obj_of)

lemma violations_of_map:
  assumes "obj_get obj key = Some (JArr (map g vs))"
    and "\<And>v. Option.bind (as_object (g v)) f = Some v"
  shows "violations_of f obj key = Some vs"
proof -
  have obj: "\<exists>m. as_object (g v) = Some m \<and> f m = Some v" for v
    using assms(2) [of v] by (cases "as_object (g v)") auto
  have "all_some (map as_object (map g vs)) = Some (map (the \<circ> as_object \<circ> g) vs)"
    using obj unfolding map_map by (intro all_some_map) (auto simp: o_def, metis option.sel)
  moreover have "all_some (map f (map (the \<circ> as_object \<circ> g) vs)) = Some vs"
    using obj by (intro all_some_map_map) (auto simp: o_def, metis option.sel)
  ultimately show ?thesis
    using assms(1) by (simp add: violations_of_def objects_def)
qed

text \<open>A delay that \<^verbatim>\<open>from_json\<close> accepts back, and the invariant of \<^verbatim>\<open>BTreeMap\<close>.\<close>

fun detail_ok :: "error_detail \<Rightarrow> bool" where
  "detail_ok (ErrorInfo md) = obj_sorted md"
| "detail_ok (RetryInfo (Fin d)) = (0 \<le> d)"
| "detail_ok (RetryInfo _) = False"
| "detail_ok _ = True"

lemma as_f64_delay_json: "as_f64 (delay_json (Fin d)) = Some (Fin d)"
proof (cases "d = of_int \<lfloor>d\<rfloor> \<and> \<bar>d\<bar> < 9000000000000000")
  case True
  then have "\<bar>of_int \<lfloor>d\<rfloor> :: rat\<bar> < 9000000000000000"
    by simp
  then have "of_int \<bar>\<lfloor>d\<rfloor>\<bar> < (of_int 9000000000000000 :: rat)"
    by simp
  then have "\<bar>\<lfloor>d\<rfloor>\<bar> < 2 ^ 53"
    unfolding of_int_less_iff by simp
  then have "f64_of_int \<lfloor>d\<rfloor> = of_int \<lfloor>d\<rfloor>"
    by (rule f64_of_int_exact)
  with True show ?thesis
    by simp
next
  case False
  then show ?thesis
    by (simp only: delay_json.simps if_False as_f64.simps)
qed

lemma json_wf_delay_json [simp]: "json_wf (delay_json d)"
  by (cases d) simp_all

lemma json_wf_to_json: "json_wf (to_json d)"
  unfolding to_json_def
  by (intro json_wf_obj_of)
    (cases d; auto simp: fv_json_def pv_json_def qv_json_def hl_json_def
       simp del: json_wf.simps(2) intro!: json_wf_obj_of)

lemma to_json_get:
  "obj_get (obj_of ((''@type'', JStr (type_name d)) # detail_fields d)) key =
     map_of (rev ((''@type'', JStr (type_name d)) # detail_fields d)) key"
  by (simp only: map_of_obj_of)

lemmas detail_codec = from_json_def to_json_def type_defs map_of_obj_of

lemma from_json_to_json: "detail_ok d \<Longrightarrow> from_json (to_json d) = Some d"
proof (induction d rule: type_name.induct)
  case (1 md)
  then have "obj_of (map (\<lambda>(k, v). (k, JStr v)) md) = map (\<lambda>(k, v). (k, JStr v)) md"
    by (intro obj_of_sorted) (simp add: obj_sorted_def o_def case_prod_beta')
  moreover have "all_some (map (\<lambda>(k, v). map_option (\<lambda>s. (k, s)) (as_str v))
      (map (\<lambda>(k, v). (k, JStr v)) md)) = Some md"
    by (rule all_some_map_map) auto
  ultimately show ?case
    by (simp add: from_json_def to_json_def error_info_of_def map_of_obj_of)
next
  case (2 d)
  then obtain r where "d = Fin r" "0 \<le> r"
    by (cases d) auto
  then show ?case
    using as_f64_delay_json [of r]
    by (simp add: detail_codec retry_info_of_def del: delay_json.simps)
next
  case (3 vs)
  then show ?case
    by (simp add: detail_codec violations_of_map [where g = fv_json])
next
  case (4 vs)
  then show ?case
    by (simp add: detail_codec violations_of_map [where g = pv_json])
next
  case (5 vs)
  then show ?case
    by (simp add: detail_codec violations_of_map [where g = qv_json])
next
  case (7 ls)
  then show ?case
    by (simp add: detail_codec violations_of_map [where g = hl_json])
qed (simp_all add: detail_codec string_field_def)

lemma error_code_simps [simp]:
  "error_code (rpc_error_new t m) = []"
  "error_code (with_code c e) = code_as_str c"
  "error_code (with_error_kind k e) = error_code e"
  "error_code (with_raw_details ds e) = error_code e"
  by (simp_all add: error_code_def rpc_error_new_def with_code_def with_error_kind_def
      with_raw_details_def status_or_default_def split: option.splits)

lemma error_kind_simps [simp]:
  "e_kind (rpc_error_new t m) = None"
  "e_kind (with_code c e) = e_kind e"
  "e_kind (with_error_kind k e) = Some k"
  "e_kind (with_raw_details ds e) = e_kind e"
  by (simp_all add: rpc_error_new_def with_code_def with_error_kind_def with_raw_details_def)

lemma error_details_simps [simp]:
  "error_details (rpc_error_new t m) = []"
  "error_details (with_code c e) = error_details e"
  "error_details (with_error_kind k e) = error_details e"
  "error_details (with_raw_details ds e) = error_details e @ ds"
  by (simp_all add: error_details_def rpc_error_new_def with_code_def with_error_kind_def
      with_raw_details_def status_or_default_def split: option.splits)

end
