(* ===== verification/Json_Text.thy ===== *)
theory Json_Text
  imports Error_Model
begin

text \<open>
  A self-delimiting text form of JSON values with its decoder. The framework leaves the text form
  to a library and relies only on the law \<open>json_codec\<close>; this pair of functions satisfies the law,
  so statements that assume it can be instantiated and evaluated.
\<close>

definition put_nat :: "nat \<Rightarrow> string" where
  "put_nat n = replicate n (CHR ''I'') @ ''.''"

definition take_nat :: "string \<Rightarrow> nat \<times> string" where
  "take_nat s = (length (takeWhile (\<lambda>c. c = CHR ''I'') s), drop 1 (dropWhile (\<lambda>c. c = CHR ''I'') s))"

definition put_str :: "string \<Rightarrow> string" where
  "put_str s = put_nat (length s) @ s"

definition take_str :: "string \<Rightarrow> string \<times> string" where
  "take_str s = (case take_nat s of (n, rest) \<Rightarrow> (take n rest, drop n rest))"

definition put_int :: "int \<Rightarrow> string" where
  "put_int x = (if x < 0 then ''-'' @ put_nat (nat (- x)) else ''+'' @ put_nat (nat x))"

definition take_int :: "string \<Rightarrow> int \<times> string" where
  "take_int s = (case take_nat (tl s) of
     (n, rest) \<Rightarrow> (if hd s = CHR ''-'' then - int n else int n, rest))"

fun put_json :: "json \<Rightarrow> string" where
  "put_json JNull = ''n''"
| "put_json (JBool b) = (if b then ''t'' else ''f'')"
| "put_json (JInt x) = ''i'' @ put_int x"
| "put_json (JFloat r) = ''d'' @ put_int (fst (quotient_of r)) @ put_int (snd (quotient_of r))"
| "put_json (JStr s) = ''s'' @ put_str s"
| "put_json (JArr xs) = ''a'' @ put_nat (length xs) @ concat (map put_json xs)"
| "put_json (JObj m) = ''o'' @ put_nat (length m) @ concat (map (\<lambda>x. put_str (fst x) @ put_json (snd x)) m)"

text \<open>The decoder recurses once per value, so the length of the text bounds it.\<close>

fun take_n :: "(string \<Rightarrow> ('a \<times> string) option) \<Rightarrow> nat \<Rightarrow> string \<Rightarrow> ('a list \<times> string) option" where
  "take_n f 0 s = Some ([], s)"
| "take_n f (Suc n) s =
     (case f s of
        None \<Rightarrow> None
      | Some (x, r) \<Rightarrow> (case take_n f n r of None \<Rightarrow> None | Some (xs, r') \<Rightarrow> Some (x # xs, r')))"

fun take_json :: "nat \<Rightarrow> string \<Rightarrow> (json \<times> string) option" where
  "take_json 0 s = None"
| "take_json (Suc fuel) [] = None"
| "take_json (Suc fuel) (c # s) =
     (if c = CHR ''n'' then Some (JNull, s)
      else if c = CHR ''t'' then Some (JBool True, s)
      else if c = CHR ''f'' then Some (JBool False, s)
      else if c = CHR ''i'' then (case take_int s of (x, r) \<Rightarrow> Some (JInt x, r))
      else if c = CHR ''d'' then
        (case take_int s of (p, r) \<Rightarrow> case take_int r of (q, r') \<Rightarrow> Some (JFloat (of_int p / of_int q), r'))
      else if c = CHR ''s'' then (case take_str s of (t, r) \<Rightarrow> Some (JStr t, r))
      else if c = CHR ''a'' then
        (case take_nat s of (n, r) \<Rightarrow> map_option (\<lambda>(xs, r'). (JArr xs, r')) (take_n (take_json fuel) n r))
      else if c = CHR ''o'' then
        (case take_nat s of (n, r) \<Rightarrow>
           map_option (\<lambda>(m, r'). (JObj m, r'))
             (take_n (\<lambda>u. case take_str u of (k, r1) \<Rightarrow>
                map_option (\<lambda>(v, r2). ((k, v), r2)) (take_json fuel r1)) n r))
      else None)"

definition get_json :: "string \<Rightarrow> json option" where
  "get_json s = map_option fst (take_json (Suc (length s)) s)"

lemma take_nat_put [simp]: "take_nat (put_nat n @ r) = (n, r)"
proof -
  have "takeWhile (\<lambda>c. c = CHR ''I'') (replicate n (CHR ''I'') @ ''.'' @ r) = replicate n (CHR ''I'')"
    by (induction n) simp_all
  moreover have "dropWhile (\<lambda>c. c = CHR ''I'') (replicate n (CHR ''I'') @ ''.'' @ r) = ''.'' @ r"
    by (induction n) simp_all
  ultimately show ?thesis
    by (simp add: take_nat_def put_nat_def)
qed

lemma take_str_put [simp]: "take_str (put_str s @ r) = (s, r)"
  by (simp add: take_str_def put_str_def)

lemma take_int_put [simp]: "take_int (put_int x @ r) = (x, r)"
  by (simp add: take_int_def put_int_def)

lemma take_n_concat:
  "(\<And>x r. x \<in> set xs \<Longrightarrow> f (g x @ r) = Some (x, r)) \<Longrightarrow>
   take_n f (length xs) (concat (map g xs) @ r) = Some (xs, r)"
  by (induction xs) auto

fun json_depth :: "json \<Rightarrow> nat" where
  "json_depth (JArr xs) = Suc (Max (insert 0 (json_depth ` set xs)))"
| "json_depth (JObj m) = Suc (Max (insert 0 ((\<lambda>x. json_depth (snd x)) ` set m)))"
| "json_depth _ = 1"

lemma json_depth_child:
  "x \<in> set xs \<Longrightarrow> Suc (json_depth x) \<le> json_depth (JArr xs)"
  "p \<in> set m \<Longrightarrow> Suc (json_depth (snd p)) \<le> json_depth (JObj m)"
  by simp_all

lemma take_json_put: "json_depth v \<le> fuel \<Longrightarrow> take_json fuel (put_json v @ r) = Some (v, r)"
proof (induction v arbitrary: fuel r rule: put_json.induct)
  case (4 q)
  then obtain k where "fuel = Suc k"
    by (cases fuel) auto
  then show ?case
    using quotient_of_div [of q] by (cases "quotient_of q") simp
next
  case (6 xs)
  then obtain k where k: "fuel = Suc k"
    by (cases fuel) auto
  have "take_n (take_json k) (length xs) (concat (map put_json xs) @ r) = Some (xs, r)"
    using json_depth_child(1) 6 k by (intro take_n_concat) fastforce
  then show ?case
    by (simp add: k)
next
  case (7 m)
  then obtain k where k: "fuel = Suc k"
    by (cases fuel) auto
  let ?f = "\<lambda>u. case take_str u of (k', r1) \<Rightarrow>
      map_option (\<lambda>(v, r2). ((k', v), r2)) (take_json k r1)"
  have "take_n ?f (length m) (concat (map (\<lambda>x. put_str (fst x) @ put_json (snd x)) m) @ r) = Some (m, r)"
  proof (rule take_n_concat)
    fix x r
    assume x: "x \<in> set m"
    then have "json_depth (snd x) \<le> k"
      using json_depth_child(2) [OF x] 7(2) k by simp
    then show "?f ((put_str (fst x) @ put_json (snd x)) @ r) = Some (x, r)"
      using 7(1) [OF x] by simp
  qed
  then show ?case
    by (simp add: k)
qed (case_tac fuel; simp)+

lemma json_depth_length: "json_depth v \<le> length (put_json v)"
proof (induction v rule: put_json.induct)
  case (6 xs)
  have "length (put_json x) \<le> length (concat (map put_json xs))" if "x \<in> set xs" for x
    using that by (induction xs) auto
  then have "Max (insert 0 (json_depth ` set xs)) \<le> length (concat (map put_json xs))"
    using 6 by (subst Max_le_iff) (auto intro: order_trans)
  then show ?case
    by (auto intro: trans_le_add2)
next
  case (7 m)
  let ?g = "\<lambda>x. put_str (fst x) @ put_json (snd x)"
  have "length (put_json (snd x)) \<le> length (concat (map ?g m))" if "x \<in> set m" for x
    using that by (induction m) auto
  then have "Max (insert 0 ((\<lambda>x. json_depth (snd x)) ` set m)) \<le> length (concat (map ?g m))"
    using 7 by (subst Max_le_iff) (fastforce intro: order_trans)+
  then show ?case
    by (auto intro: trans_le_add2)
qed simp_all

lemma get_json_put: "get_json (put_json v) = Some v"
  using take_json_put [of v "Suc (length (put_json v))" "[]"] json_depth_length [of v]
  by (simp add: get_json_def)

end
