(* ===== verification/Envelope.thy ===== *)
theory Envelope
  imports Json_Text
begin

text \<open>
  Batch metadata and the log/error envelope: the keys of \<^verbatim>\<open>vgi-rpc/src/metadata.rs\<close>, \<^verbatim>\<open>log.rs\<close>, the
  server's reused envelope builder (\<^verbatim>\<open>EnvelopeMeta\<close> in \<^verbatim>\<open>server.rs\<close>) and the client's classifier
  (\<^verbatim>\<open>vgi-rpc-client/src/envelope.rs\<close>).

  Shown here: an envelope object that is reused for a sequence of logs and errors produces for each
  of them the metadata a fresh one would, and the client reads back from an error's metadata the
  error the server put in.
\<close>

section \<open>Metadata\<close>

text \<open>A \<^verbatim>\<open>HashMap<String, String>\<close>: an association list read through \<^const>\<open>map_of\<close>.\<close>

type_synonym metadata = "(string \<times> string) list"

definition md_get :: "metadata \<Rightarrow> string \<Rightarrow> string option" where
  "md_get md key = map_of md key"

definition md_insert :: "string \<Rightarrow> string \<Rightarrow> metadata \<Rightarrow> metadata" where
  "md_insert k v md = AList.update k v md"

definition md_remove :: "string \<Rightarrow> metadata \<Rightarrow> metadata" where
  "md_remove k md = AList.delete k md"

definition md_contains :: "metadata \<Rightarrow> string \<Rightarrow> bool" where
  "md_contains md k = (md_get md k \<noteq> None)"

lemma md_get_Nil [simp]: "md_get [] k = None"
  by (simp add: md_get_def)

lemma md_get_insert [simp]: "md_get (md_insert k v md) k' = (if k' = k then Some v else md_get md k')"
  by (simp add: md_get_def md_insert_def update_conv)

lemma md_get_remove [simp]: "md_get (md_remove k md) k' = (if k' = k then None else md_get md k')"
  by (simp add: md_get_def md_remove_def delete_conv)

definition RPC_METHOD_KEY :: string where "RPC_METHOD_KEY = ''vgi_rpc.method''"
definition PROTOCOL_KEY :: string where "PROTOCOL_KEY = ''vgi_rpc.protocol''"
definition REQUEST_VERSION_KEY :: string where "REQUEST_VERSION_KEY = ''vgi_rpc.request_version''"
definition REQUEST_VERSION :: string where "REQUEST_VERSION = ''1''"
definition REQUEST_ID_KEY :: string where "REQUEST_ID_KEY = ''vgi_rpc.request_id''"
definition ERROR_KIND_KEY :: string where "ERROR_KIND_KEY = ''vgi_rpc.error_kind''"
definition ERROR_CODE_KEY :: string where "ERROR_CODE_KEY = ''vgi_rpc.error_code''"
definition ERROR_DETAILS_KEY :: string where "ERROR_DETAILS_KEY = ''vgi_rpc.error_details''"
definition LOG_LEVEL_KEY :: string where "LOG_LEVEL_KEY = ''vgi_rpc.log_level''"
definition LOG_MESSAGE_KEY :: string where "LOG_MESSAGE_KEY = ''vgi_rpc.log_message''"
definition LOG_EXTRA_KEY :: string where "LOG_EXTRA_KEY = ''vgi_rpc.log_extra''"
definition SERVER_ID_KEY :: string where "SERVER_ID_KEY = ''vgi_rpc.server_id''"
definition STATE_KEY :: string where "STATE_KEY = ''vgi_rpc.stream_state#b64''"
definition CALL_STATE_KEY :: string where "CALL_STATE_KEY = ''vgi_rpc.call_state#b64''"
definition CANCEL_KEY :: string where "CANCEL_KEY = ''vgi_rpc.cancel''"
definition LOCATION_KEY :: string where "LOCATION_KEY = ''vgi_rpc.location''"
definition LOCATION_SHA256_KEY :: string where "LOCATION_SHA256_KEY = ''vgi_rpc.location.sha256''"
definition PROTOCOL_VERSION_KEY :: string where "PROTOCOL_VERSION_KEY = ''vgi_rpc.protocol_version''"
definition SHM_OFFSET_KEY :: string where "SHM_OFFSET_KEY = ''vgi_rpc.shm_offset''"
definition SHM_LENGTH_KEY :: string where "SHM_LENGTH_KEY = ''vgi_rpc.shm_length''"
definition SHM_SOURCE_KEY :: string where "SHM_SOURCE_KEY = ''vgi_rpc.shm_source''"
definition SHM_SEGMENT_NAME_KEY :: string where "SHM_SEGMENT_NAME_KEY = ''vgi_rpc.shm_segment_name''"
definition SHM_SEGMENT_SIZE_KEY :: string where "SHM_SEGMENT_SIZE_KEY = ''vgi_rpc.shm_segment_size''"
definition TRANSPORT_SHM_KEY :: string where "TRANSPORT_SHM_KEY = ''vgi_rpc.transport.shm''"

lemmas key_defs = RPC_METHOD_KEY_def PROTOCOL_KEY_def REQUEST_VERSION_KEY_def REQUEST_ID_KEY_def
  ERROR_KIND_KEY_def ERROR_CODE_KEY_def ERROR_DETAILS_KEY_def LOG_LEVEL_KEY_def LOG_MESSAGE_KEY_def
  LOG_EXTRA_KEY_def SERVER_ID_KEY_def STATE_KEY_def CALL_STATE_KEY_def CANCEL_KEY_def
  LOCATION_KEY_def LOCATION_SHA256_KEY_def PROTOCOL_VERSION_KEY_def SHM_OFFSET_KEY_def
  SHM_LENGTH_KEY_def SHM_SOURCE_KEY_def SHM_SEGMENT_NAME_KEY_def SHM_SEGMENT_SIZE_KEY_def
  TRANSPORT_SHM_KEY_def

section \<open>Log messages\<close>

datatype log_level = Trace | Debug | Info | Warn | Error | Exception

fun log_level_as_str :: "log_level \<Rightarrow> string" where
  "log_level_as_str Trace = ''TRACE''"
| "log_level_as_str Debug = ''DEBUG''"
| "log_level_as_str Info = ''INFO''"
| "log_level_as_str Warn = ''WARN''"
| "log_level_as_str Error = ''ERROR''"
| "log_level_as_str Exception = ''EXCEPTION''"

record log_message =
  lm_level :: log_level
  lm_message :: string
  lm_extras :: "(string \<times> string) list"

definition extras_json :: "(json \<Rightarrow> string) \<Rightarrow> log_message \<Rightarrow> string" where
  "extras_json to_text m = to_text (JObj (obj_of (map (\<lambda>(k, v). (k, JStr v)) (lm_extras m))))"

section \<open>The envelope builder\<close>

record envelope_meta =
  em_server_id :: string
  em_request_id :: string
  em_tracebacks :: "string option"
  em_md :: "metadata option"

definition envelope_new :: "string \<Rightarrow> string \<Rightarrow> string option \<Rightarrow> envelope_meta" where
  "envelope_new server_id request_id tracebacks =
     \<lparr> em_server_id = server_id, em_request_id = request_id, em_tracebacks = tracebacks,
       em_md = None \<rparr>"

text \<open>\<^verbatim>\<open>map()\<close>: the metadata, with the stable id entries on first use.\<close>

definition id_entries :: "envelope_meta \<Rightarrow> metadata" where
  "id_entries e =
     (let md = if em_server_id e = [] then [] else md_insert SERVER_ID_KEY (em_server_id e) [] in
      if em_request_id e = [] then md else md_insert REQUEST_ID_KEY (em_request_id e) md)"

definition envelope_map :: "envelope_meta \<Rightarrow> metadata" where
  "envelope_map e = (case em_md e of None \<Rightarrow> id_entries e | Some md \<Rightarrow> md)"

definition envelope_set :: "string \<Rightarrow> string \<Rightarrow> envelope_meta \<Rightarrow> envelope_meta" where
  "envelope_set key val e = e\<lparr> em_md := Some (md_insert key val (envelope_map e)) \<rparr>"

definition envelope_clear :: "string \<Rightarrow> envelope_meta \<Rightarrow> envelope_meta" where
  "envelope_clear key e = e\<lparr> em_md := Some (md_remove key (envelope_map e)) \<rparr>"

definition envelope_log :: "(json \<Rightarrow> string) \<Rightarrow> log_message \<Rightarrow> envelope_meta \<Rightarrow> envelope_meta" where
  "envelope_log to_text msg e =
     (let e = envelope_set LOG_LEVEL_KEY (log_level_as_str (lm_level msg)) e;
          e = envelope_set LOG_MESSAGE_KEY (lm_message msg) e;
          e = (if lm_extras msg \<noteq> [] then envelope_set LOG_EXTRA_KEY (extras_json to_text msg) e
               else envelope_clear LOG_EXTRA_KEY e);
          e = envelope_clear ERROR_KIND_KEY e;
          e = envelope_clear ERROR_CODE_KEY e
      in envelope_clear ERROR_DETAILS_KEY e)"

text \<open>The traceback of an error: its own, or one synthesised from the error and its origin.\<close>

definition synthesized_traceback :: "rpc_error \<Rightarrow> string \<Rightarrow> string" where
  "synthesized_traceback err origin =
     (if e_traceback err \<noteq> [] then e_traceback err
      else if origin = [] then e_type err @ '': '' @ e_message err
      else e_type err @ '': '' @ e_message err @ [CHR 0x0A] @ ''  raised by '' @ origin)"

definition error_extra ::
  "(json \<Rightarrow> string) \<Rightarrow> string option \<Rightarrow> rpc_error \<Rightarrow> (string \<times> json) list" where
  "error_extra to_text tracebacks err =
     obj_of
       ([(''exception_type'', JStr (e_type err)), (''exception_message'', JStr (e_message err)),
         (''error_code'', JStr (wire_code err))]
        @ (case e_kind err of None \<Rightarrow> [] | Some k \<Rightarrow> [(''error_kind'', JStr k)])
        @ (if encode_error_details to_text (wire_details err) \<noteq> None
           then [(''error_details'', JArr (wire_details err))] else [])
        @ (case tracebacks of
             None \<Rightarrow> []
           | Some origin \<Rightarrow> [(''traceback'', JStr (synthesized_traceback err origin))]))"

definition envelope_error :: "(json \<Rightarrow> string) \<Rightarrow> rpc_error \<Rightarrow> envelope_meta \<Rightarrow> envelope_meta" where
  "envelope_error to_text err e =
     (let extra = error_extra to_text (em_tracebacks e) err;
          e = envelope_set LOG_LEVEL_KEY ''EXCEPTION'' e;
          e = envelope_set LOG_MESSAGE_KEY (e_message err) e;
          e = envelope_set LOG_EXTRA_KEY (to_text (JObj extra)) e;
          e = envelope_set ERROR_CODE_KEY (wire_code err) e;
          e = (case e_kind err of
                 Some kind \<Rightarrow> envelope_set ERROR_KIND_KEY kind e
               | None \<Rightarrow> envelope_clear ERROR_KIND_KEY e)
      in case encode_error_details to_text (wire_details err) of
           Some text \<Rightarrow> envelope_set ERROR_DETAILS_KEY text e
         | None \<Rightarrow> envelope_clear ERROR_DETAILS_KEY e)"

definition build_log_metadata :: "(json \<Rightarrow> string) \<Rightarrow> log_message \<Rightarrow> string \<Rightarrow> string \<Rightarrow> metadata" where
  "build_log_metadata to_text msg server_id request_id =
     the (em_md (envelope_log to_text msg (envelope_new server_id request_id None)))"

definition build_envelope_metadata :: "string \<Rightarrow> string \<Rightarrow> metadata" where
  "build_envelope_metadata server_id request_id =
     (case em_md (envelope_new server_id request_id None) of None \<Rightarrow> [] | Some md \<Rightarrow> md)"

definition build_error_metadata ::
  "(json \<Rightarrow> string) \<Rightarrow> rpc_error \<Rightarrow> string \<Rightarrow> string \<Rightarrow> string option \<Rightarrow> metadata" where
  "build_error_metadata to_text err server_id request_id tracebacks =
     the (em_md (envelope_error to_text err (envelope_new server_id request_id tracebacks)))"

text \<open>The envelopes a call writes, in order.\<close>

datatype envelope_op = Op_Log log_message | Op_Error rpc_error

fun envelope_step :: "(json \<Rightarrow> string) \<Rightarrow> envelope_op \<Rightarrow> envelope_meta \<Rightarrow> envelope_meta" where
  "envelope_step to_text (Op_Log m) e = envelope_log to_text m e"
| "envelope_step to_text (Op_Error err) e = envelope_error to_text err e"

section \<open>The client's classifier\<close>

datatype batch_kind = Data | Pointer | Log log_message | Exc rpc_error

definition parse_level :: "string \<Rightarrow> log_level" where
  "parse_level s =
     (if s = ''TRACE'' then Trace else if s = ''DEBUG'' then Debug else if s = ''INFO'' then Info
      else if s = ''WARN'' then Warn else if s = ''ERROR'' then Error
      else if s = ''EXCEPTION'' then Exception else Info)"

definition extra_object ::
  "(string \<Rightarrow> json option) \<Rightarrow> string option \<Rightarrow> (string \<times> json) list option" where
  "extra_object from_text extra_json =
     Option.bind extra_json (\<lambda>j. Option.bind (from_text j) as_object)"

definition parse_exception_extra ::
  "(string \<Rightarrow> json option) \<Rightarrow> string option \<Rightarrow> string \<times> string" where
  "parse_exception_extra from_text extra_json =
     (case extra_object from_text extra_json of
        None \<Rightarrow> (''Exception'', [])
      | Some m \<Rightarrow>
          (case obj_get m ''exception_type'' of Some (JStr t) \<Rightarrow> t | _ \<Rightarrow> ''Exception'',
           case obj_get m ''traceback'' of Some (JStr tb) \<Rightarrow> tb | _ \<Rightarrow> []))"

definition mirror_str :: "(string \<times> json) list option \<Rightarrow> string \<Rightarrow> string" where
  "mirror_str extra key =
     (case Option.bind (Option.bind extra (\<lambda>m. obj_get m key)) as_str of None \<Rightarrow> [] | Some s \<Rightarrow> s)"

definition decode_exception ::
  "(string \<Rightarrow> json option) \<Rightarrow> metadata \<Rightarrow> string \<Rightarrow> string \<Rightarrow> string option \<Rightarrow> rpc_error" where
  "decode_exception from_text md msg req_id extra_json =
     (let (etype, tb) = parse_exception_extra from_text extra_json;
          extra = extra_object from_text extra_json;
          code = (case md_get md ERROR_CODE_KEY of
                    Some c \<Rightarrow> c | None \<Rightarrow> mirror_str extra ''error_code'');
          kind = (case md_get md ERROR_KIND_KEY of
                    Some k \<Rightarrow> k | None \<Rightarrow> mirror_str extra ''error_kind'');
          details = (case md_get md ERROR_DETAILS_KEY of
                       Some raw \<Rightarrow> decode_error_details from_text raw
                     | None \<Rightarrow>
                         (case Option.bind extra (\<lambda>m. obj_get m ''error_details'') of
                            Some (JArr items) \<Rightarrow> filter (\<lambda>v. as_object v \<noteq> None) items
                          | _ \<Rightarrow> []));
          err = (rpc_error_new etype msg)\<lparr> e_traceback := tb, e_request_id := req_id \<rparr>;
          err = (if kind = [] then err else with_error_kind kind err)
      in set_wire_status code details err)"

text \<open>\<^verbatim>\<open>with_extra\<close> for each entry; a non-string value is rendered as its JSON text.\<close>

definition log_extras ::
  "(json \<Rightarrow> string) \<Rightarrow> (string \<times> json) list \<Rightarrow> (string \<times> string) list" where
  "log_extras to_text m =
     map (\<lambda>(k, v). (k, case v of JStr s \<Rightarrow> s | other \<Rightarrow> to_text other)) m"

definition classify ::
  "(json \<Rightarrow> string) \<Rightarrow> (string \<Rightarrow> json option) \<Rightarrow> nat \<Rightarrow> metadata \<Rightarrow> batch_kind" where
  "classify to_text from_text num_rows md =
     (if md_get md LOCATION_KEY \<noteq> None then Pointer
      else if num_rows \<noteq> 0 then Data
      else case md_get md LOG_LEVEL_KEY of
        None \<Rightarrow> Data
      | Some level_str \<Rightarrow>
          let msg = (case md_get md LOG_MESSAGE_KEY of None \<Rightarrow> [] | Some s \<Rightarrow> s);
              req_id = (case md_get md REQUEST_ID_KEY of None \<Rightarrow> [] | Some s \<Rightarrow> s);
              extra_json = md_get md LOG_EXTRA_KEY
          in if level_str = ''EXCEPTION'' then Exc (decode_exception from_text md msg req_id extra_json)
             else Log \<lparr> lm_level = parse_level level_str, lm_message = msg,
                        lm_extras = (case extra_object from_text extra_json of
                                       None \<Rightarrow> [] | Some m \<Rightarrow> log_extras to_text m) \<rparr>)"

section \<open>Reuse of one envelope\<close>

text \<open>
  The keys a log or an error may touch. Every operation decides each of them, which is why nothing
  of an earlier envelope survives.
\<close>

definition transient_keys :: "string set" where
  "transient_keys = {LOG_LEVEL_KEY, LOG_MESSAGE_KEY, LOG_EXTRA_KEY, ERROR_KIND_KEY, ERROR_CODE_KEY,
     ERROR_DETAILS_KEY}"

definition envelope_inv :: "envelope_meta \<Rightarrow> bool" where
  "envelope_inv e = (\<forall>k. k \<notin> transient_keys \<longrightarrow> md_get (envelope_map e) k = md_get (id_entries e) k)"

lemma envelope_map_simps [simp]:
  "envelope_map (envelope_set k v e) = md_insert k v (envelope_map e)"
  "envelope_map (envelope_clear k e) = md_remove k (envelope_map e)"
  "id_entries (envelope_set k v e) = id_entries e"
  "id_entries (envelope_clear k e) = id_entries e"
  "em_tracebacks (envelope_set k v e) = em_tracebacks e"
  "em_tracebacks (envelope_clear k e) = em_tracebacks e"
  "em_md (envelope_set k v e) = Some (md_insert k v (envelope_map e))"
  "em_md (envelope_clear k e) = Some (md_remove k (envelope_map e))"
  by (simp_all add: envelope_set_def envelope_clear_def envelope_map_def id_entries_def)

lemma envelope_ids_simps [simp]:
  "id_entries (envelope_log t m e) = id_entries e"
  "id_entries (envelope_error t err e) = id_entries e"
  "em_tracebacks (envelope_log t m e) = em_tracebacks e"
  "em_tracebacks (envelope_error t err e) = em_tracebacks e"
  by (simp_all add: envelope_log_def envelope_error_def Let_def split: option.splits)

lemma envelope_log_get:
  "md_get (envelope_map (envelope_log t m e)) k =
     (if k = LOG_LEVEL_KEY then Some (log_level_as_str (lm_level m))
      else if k = LOG_MESSAGE_KEY then Some (lm_message m)
      else if k = LOG_EXTRA_KEY then (if lm_extras m = [] then None else Some (extras_json t m))
      else if k \<in> {ERROR_KIND_KEY, ERROR_CODE_KEY, ERROR_DETAILS_KEY} then None
      else md_get (envelope_map e) k)"
  by (auto simp: envelope_log_def Let_def key_defs)

lemma envelope_error_get:
  "md_get (envelope_map (envelope_error t err e)) k =
     (if k = LOG_LEVEL_KEY then Some ''EXCEPTION''
      else if k = LOG_MESSAGE_KEY then Some (e_message err)
      else if k = LOG_EXTRA_KEY then Some (t (JObj (error_extra t (em_tracebacks e) err)))
      else if k = ERROR_CODE_KEY then Some (wire_code err)
      else if k = ERROR_KIND_KEY then e_kind err
      else if k = ERROR_DETAILS_KEY then encode_error_details t (wire_details err)
      else md_get (envelope_map e) k)"
  by (auto simp: envelope_error_def Let_def key_defs split: option.splits)

lemma envelope_inv_new [simp]: "envelope_inv (envelope_new s r t)"
  by (simp add: envelope_inv_def envelope_new_def envelope_map_def)

lemma envelope_inv_step: "envelope_inv e \<Longrightarrow> envelope_inv (envelope_step t op e)"
  by (cases op)
    (auto simp: envelope_inv_def envelope_log_get envelope_error_get transient_keys_def)

lemma envelope_step_ids [simp]:
  "id_entries (envelope_step t op e) = id_entries e"
  "em_tracebacks (envelope_step t op e) = em_tracebacks e"
  by (cases op; simp)+

lemma envelope_run:
  "envelope_inv e \<Longrightarrow>
   envelope_inv (fold (envelope_step t) ops e)
   \<and> id_entries (fold (envelope_step t) ops e) = id_entries e
   \<and> em_tracebacks (fold (envelope_step t) ops e) = em_tracebacks e"
  by (induction ops arbitrary: e) (simp_all add: envelope_inv_step)

lemma envelope_step_get_eq:
  assumes "envelope_inv e" "envelope_inv e'" "id_entries e = id_entries e'"
    "em_tracebacks e = em_tracebacks e'"
  shows "md_get (envelope_map (envelope_step t op e)) k = md_get (envelope_map (envelope_step t op e')) k"
  using assms by (cases op) (auto simp: envelope_log_get envelope_error_get envelope_inv_def transient_keys_def)

section \<open>Reading an error back\<close>

definition json_codec :: "(json \<Rightarrow> string) \<Rightarrow> (string \<Rightarrow> json option) \<Rightarrow> bool" where
  "json_codec to_text from_text = (\<forall>v. json_wf v \<longrightarrow> from_text (to_text v) = Some v)"

lemma json_codecD: "json_codec t f \<Longrightarrow> json_wf v \<Longrightarrow> f (t v) = Some v"
  by (simp add: json_codec_def)

lemma validate_objects:
  "validate_details_from seen ds = Inr () \<Longrightarrow> filter (\<lambda>v. as_object v \<noteq> None) ds = ds"
  by (induction ds arbitrary: seen) (auto split: option.splits if_splits)

lemma json_wf_wire_details:
  "\<forall>d\<in>set (error_details e). json_wf d \<Longrightarrow> \<forall>d\<in>set (wire_details e). json_wf d"
  by (auto simp: wire_details_def Let_def json_wf_to_json split: option.splits if_splits)

lemma json_wf_error_extra:
  "\<forall>d\<in>set (error_details err). json_wf d \<Longrightarrow> json_wf (JObj (error_extra t tb err))"
  unfolding error_extra_def using json_wf_wire_details [of err]
  by (intro json_wf_obj_of) (auto split: option.splits if_splits)

lemma error_extra_get:
  "obj_get (error_extra t tb err) ''exception_type'' = Some (JStr (e_type err))"
  "obj_get (error_extra t tb err) ''traceback'' =
     map_option (\<lambda>origin. JStr (synthesized_traceback err origin)) tb"
  "obj_get (error_extra t tb err) ''error_kind'' = map_option JStr (e_kind err)"
  "encode_error_details t (wire_details err) = None \<Longrightarrow>
     obj_get (error_extra t tb err) ''error_details'' = None"
  by (auto simp: error_extra_def map_of_obj_of split: option.splits)

lemma build_error_get:
  "md_get (build_error_metadata t err s r tb) k =
     md_get (envelope_map (envelope_error t err (envelope_new s r tb))) k"
  by (simp add: build_error_metadata_def envelope_error_def Let_def split: option.splits)

lemma id_entries_get:
  "md_get (envelope_map (envelope_new s r tb)) REQUEST_ID_KEY = (if r = [] then None else Some r)"
  "md_get (envelope_map (envelope_new s r tb)) LOCATION_KEY = None"
  by (auto simp: envelope_map_def envelope_new_def id_entries_def Let_def key_defs)

lemma details_round_trip:
  assumes "json_codec t f" "\<forall>d\<in>set ds. json_wf d" "encode_error_details t ds = Some text"
  shows "decode_error_details f text = ds"
proof -
  have "text = t (JArr ds)" "validate_error_details ds = Inr ()"
    using assms(3)
    by (auto simp: encode_error_details_def Let_def is_err_def split: if_splits sum.splits)
  then show ?thesis
    using json_codecD [OF assms(1), of "JArr ds"] assms(2) validate_objects
    by (simp add: decode_error_details_def validate_error_details_def)
qed


lemma decode_built_error:
  assumes codec: "json_codec t f" and wf: "\<forall>d\<in>set (error_details err). json_wf d"
    and md: "md = build_error_metadata t err s r tb"
  shows "decode_exception f md (e_message err) r (md_get md LOG_EXTRA_KEY) =
     (let e = (rpc_error_new (e_type err) (e_message err))
                \<lparr> e_traceback := (case tb of None \<Rightarrow> [] | Some u \<Rightarrow> synthesized_traceback err u),
                  e_request_id := r \<rparr>;
          e = (if error_kind_str err = [] then e else with_error_kind (error_kind_str err) e)
      in set_wire_status (wire_code err)
           (if encode_error_details t (wire_details err) = None then [] else wire_details err) e)"
proof -
  let ?x = "error_extra t tb err"
  have get: "md_get md k = md_get (envelope_map (envelope_error t err (envelope_new s r tb))) k" for k
    by (simp add: md build_error_get)
  have tb: "em_tracebacks (envelope_new s r tb) = tb"
    by (simp add: envelope_new_def)
  have extra: "extra_object f (md_get md LOG_EXTRA_KEY) = Some ?x"
    using json_codecD [OF codec json_wf_error_extra [OF wf]]
    by (simp add: get envelope_error_get tb extra_object_def key_defs)
  have keys: "md_get md ERROR_CODE_KEY = Some (wire_code err)"
    "md_get md ERROR_KIND_KEY = e_kind err"
    "md_get md ERROR_DETAILS_KEY = encode_error_details t (wire_details err)"
    by (simp_all add: get envelope_error_get key_defs)
  have "(case md_get md ERROR_DETAILS_KEY of Some raw \<Rightarrow> decode_error_details f raw
      | None \<Rightarrow> (case Option.bind (Some ?x) (\<lambda>m. obj_get m ''error_details'') of
          Some (JArr items) \<Rightarrow> filter (\<lambda>v. as_object v \<noteq> None) items | _ \<Rightarrow> []))
    = (if encode_error_details t (wire_details err) = None then [] else wire_details err)"
    using details_round_trip [OF codec json_wf_wire_details [OF wf]]
    by (simp add: keys error_extra_get split: option.splits)
  then show ?thesis
    unfolding decode_exception_def parse_exception_extra_def extra
    by (simp add: keys error_extra_get Let_def mirror_str_def error_kind_str_def split: option.splits)
qed

lemma classify_built_error:
  assumes md: "md = build_error_metadata t err s r tb"
  shows "classify t f 0 md = Exc (decode_exception f md (e_message err) r (md_get md LOG_EXTRA_KEY))"
proof -
  have get: "md_get md k = md_get (envelope_map (envelope_error t err (envelope_new s r tb))) k" for k
    by (simp add: md build_error_get)
  have "md_get md LOCATION_KEY = None" "md_get md LOG_LEVEL_KEY = Some ''EXCEPTION''"
    "md_get md LOG_MESSAGE_KEY = Some (e_message err)"
    "md_get md REQUEST_ID_KEY = (if r = [] then None else Some r)"
    unfolding get envelope_error_get by (simp_all add: id_entries_get) (simp_all add: key_defs)
  then show ?thesis
    by (simp add: classify_def)
qed

lemma set_wire_status_simps [simp]:
  "error_code (set_wire_status c ds e) = c"
  "error_details (set_wire_status c ds e) = ds"
  "e_type (set_wire_status c ds e) = e_type e"
  "e_message (set_wire_status c ds e) = e_message e"
  "e_request_id (set_wire_status c ds e) = e_request_id e"
  "e_traceback (set_wire_status c ds e) = e_traceback e"
  "error_kind_str (set_wire_status c ds e) = error_kind_str e"
  by (simp_all add: error_code_def error_details_def error_kind_str_def set_wire_status_def)

lemma with_error_kind_simps [simp]:
  "e_type (with_error_kind k e) = e_type e"
  "e_message (with_error_kind k e) = e_message e"
  "e_request_id (with_error_kind k e) = e_request_id e"
  "e_traceback (with_error_kind k e) = e_traceback e"
  "error_kind_str (with_error_kind k e) = k"
  by (simp_all add: with_error_kind_def error_kind_str_def)

section \<open>Properties\<close>

text \<open>C20. One envelope object serves all the log and error messages of a call: whatever was
  written before, the metadata it produces for the next message is the metadata a fresh envelope
  would produce, so nothing of an earlier message leaks into a later one.\<close>

theorem envelope_reuse_is_fresh:
  "md_get (envelope_map (envelope_step t op (fold (envelope_step t) ops (envelope_new s r tb)))) k =
   md_get (envelope_map (envelope_step t op (envelope_new s r tb))) k"
  by (rule envelope_step_get_eq) (use envelope_run [of "envelope_new s r tb" t ops] in simp_all)


lemma put_json_codec: "json_codec put_json get_json"
  by (simp add: json_codec_def get_json_put)


text \<open>The envelope metadata attached to reflection responses is empty: the builder never
  allocates the map that would hold the server id and the echoed request id.\<close>

theorem build_envelope_metadata_empty:
  "build_envelope_metadata server_id request_id = []"
  by (simp add: build_envelope_metadata_def envelope_new_def)

end
