(* ===== verification/Shm_Alloc.thy ===== *)
theory Shm_Alloc
  imports Error_Model
begin

text \<open>
  The shared-memory allocator: \<^verbatim>\<open>ShmAllocator\<close> of \<^verbatim>\<open>vgi-rpc/src/shm.rs\<close>. A segment is its bytes; the
  allocation table lives in the header as little-endian entries, in memory the peer can write, so
  the lemmas on \<open>allocate\<close> hold for every content of the table, and the invariant \<open>alloc_inv\<close> is
  what the operations keep between well-behaved peers.

  The locale \<open>slot_store\<close> is the contract the segment layer uses: a partial map from offsets to
  lengths whose regions are disjoint and inside the data area.
\<close>

section \<open>Layout\<close>

definition HEADER_SIZE :: nat where "HEADER_SIZE = 65536"
definition MAGIC :: bytes where "MAGIC = [0x56, 0x47, 0x49, 0x53]"
definition SHM_VERSION :: nat where "SHM_VERSION = 1"
definition HEADER_FIXED_SIZE :: nat where "HEADER_FIXED_SIZE = 24"
definition ALLOC_ENTRY_SIZE :: nat where "ALLOC_ENTRY_SIZE = 16"
definition SHM_ALIGNMENT :: nat where "SHM_ALIGNMENT = 64"

definition MAX_ALLOCS :: nat where
  "MAX_ALLOCS = (HEADER_SIZE - HEADER_FIXED_SIZE) div ALLOC_ENTRY_SIZE"

lemmas layout_defs = HEADER_SIZE_def HEADER_FIXED_SIZE_def ALLOC_ENTRY_SIZE_def MAX_ALLOCS_def

text \<open>\<^verbatim>\<open>(length + 63) & !63\<close>, or nothing when the sum leaves \<^verbatim>\<open>usize\<close>.\<close>

definition align_ipc_allocation :: "nat \<Rightarrow> nat option" where
  "align_ipc_allocation len =
     map_option (\<lambda>n. n div SHM_ALIGNMENT * SHM_ALIGNMENT) (checked_add len (SHM_ALIGNMENT - 1))"

section \<open>Operations on the header\<close>

definition shm_initialize :: "bytes \<Rightarrow> bytes rpc_result" where
  "shm_initialize mem =
     (if length mem \<le> HEADER_SIZE then
        Inl (rpc_error_new ''ValueError''
          (''segment size must be > '' @ show_nat HEADER_SIZE @ '', got '' @ show_nat (length mem)))
      else
        let data_size = length mem - HEADER_SIZE;
            mem = overwrite 0 MAGIC mem;
            mem = overwrite 4 (le_bytes 4 SHM_VERSION) mem;
            mem = overwrite 8 (le_bytes 8 data_size) mem;
            mem = overwrite 16 (le_bytes 4 0) mem
        in Inr (overwrite 20 (le_bytes 4 0) mem))"

text \<open>
  \<^verbatim>\<open>attach\<close>: the checks on a mapped segment. Slicing past the end panics; \<^verbatim>\<open>shm.size - HEADER_SIZE\<close>
  wraps in a release build.
\<close>

definition show_bytes :: "bytes \<Rightarrow> string" where
  "show_bytes bs = ''['' @ join '', '' (map (\<lambda>b. show_nat (unat b)) bs) @ '']''"

definition usize_sub :: "nat \<Rightarrow> nat \<Rightarrow> nat" where
  "usize_sub a b = (a + 2 ^ 64 - b) mod 2 ^ 64"

definition shm_attach :: "bytes \<Rightarrow> unit rpc_result outcome" where
  "shm_attach mem =
     (if length mem < 4 then Panic
      else if take 4 mem \<noteq> MAGIC then
        Done (Inl (rpc_error_new ''ValueError'' (''bad SHM magic: '' @ show_bytes (take 4 mem))))
      else if length mem < 8 then Panic
      else
        let version = of_le (subslice 4 8 mem) in
        if version \<noteq> SHM_VERSION then
          Done (Inl (rpc_error_new ''ValueError'' (''unsupported SHM version: '' @ show_nat version)))
        else if length mem < 16 then Panic
        else
          let data_size = of_le (subslice 8 16 mem); expected = usize_sub (length mem) HEADER_SIZE in
          if data_size \<noteq> expected then
            Done (Inl (rpc_error_new ''ValueError''
              (''data_size mismatch: header says '' @ show_nat data_size
               @ '', expected '' @ show_nat expected)))
          else Done (Inr ()))"

definition num_allocs :: "bytes \<Rightarrow> nat" where
  "num_allocs mem = of_le (subslice 16 20 mem)"

definition entry_base :: "nat \<Rightarrow> nat" where
  "entry_base i = HEADER_FIXED_SIZE + i * ALLOC_ENTRY_SIZE"

definition read_entry :: "bytes \<Rightarrow> nat \<Rightarrow> nat \<times> nat" where
  "read_entry mem i =
     (of_le (subslice (entry_base i) (entry_base i + 8) mem),
      of_le (subslice (entry_base i + 8) (entry_base i + 16) mem))"

definition read_allocs :: "bytes \<Rightarrow> (nat \<times> nat) list" where
  "read_allocs mem = map (read_entry mem) [0..<min (num_allocs mem) MAX_ALLOCS]"

definition write_entry :: "nat \<Rightarrow> nat \<times> nat \<Rightarrow> bytes \<Rightarrow> bytes" where
  "write_entry i e mem =
     overwrite (entry_base i + 8) (le_bytes 8 (snd e))
       (overwrite (entry_base i) (le_bytes 8 (fst e)) mem)"

fun write_entries :: "nat \<Rightarrow> (nat \<times> nat) list \<Rightarrow> bytes \<Rightarrow> bytes" where
  "write_entries i [] mem = mem"
| "write_entries i (e # es) mem = write_entries (Suc i) es (write_entry i e mem)"

definition write_allocs :: "(nat \<times> nat) list \<Rightarrow> bytes \<Rightarrow> bytes" where
  "write_allocs allocs mem =
     write_entries 0 allocs (overwrite 16 (le_bytes 4 (length allocs)) mem)"

section \<open>Allocation\<close>

text \<open>
  The first-fit scan over the sorted table: the index to insert at and the offset, or nothing.
  \<open>prev_end\<close> is the end of the entries passed so far; \<open>i\<close> counts them.
\<close>

fun find_gap :: "nat \<Rightarrow> nat \<Rightarrow> nat \<Rightarrow> nat \<Rightarrow> (nat \<times> nat) list \<Rightarrow> (nat \<times> nat) option" where
  "find_gap sz data_end prev_end i [] =
     (if data_end \<le> prev_end then None
      else if sz \<le> data_end - prev_end then Some (i, prev_end)
      else None)"
| "find_gap sz data_end prev_end i ((off, len) # rest) =
     (if off < prev_end then
        find_gap sz data_end (max prev_end (saturating_add off len)) (Suc i) rest
      else if sz \<le> off - prev_end \<and> saturating_add prev_end sz \<le> data_end then
        Some (i, prev_end)
      else find_gap sz data_end (saturating_add off len) (Suc i) rest)"

definition allocate :: "bytes \<Rightarrow> nat \<Rightarrow> nat option \<times> bytes" where
  "allocate mem sz =
     (if sz = 0 then (None, mem)
      else
        let allocs = read_allocs mem in
        if MAX_ALLOCS \<le> length allocs then (None, mem)
        else
          let allocs = sort_key fst allocs in
          case find_gap sz (length mem) HEADER_SIZE 0 allocs of
            None \<Rightarrow> (None, mem)
          | Some (i, off) \<Rightarrow> (Some off, write_allocs (insert_at i (off, sz) allocs) mem))"

definition no_allocation :: "nat \<Rightarrow> rpc_error" where
  "no_allocation offset =
     rpc_error_new ''ValueError'' (''no allocation at offset '' @ show_nat offset)"

definition free :: "bytes \<Rightarrow> nat \<Rightarrow> unit rpc_result \<times> bytes" where
  "free mem offset =
     (let allocs = read_allocs mem in
      case position (\<lambda>e. fst e = offset) allocs of
        Some idx \<Rightarrow> (Inr (), write_allocs (remove_at idx allocs) mem)
      | None \<Rightarrow> (Inl (no_allocation offset), mem))"

definition shrink :: "bytes \<Rightarrow> nat \<Rightarrow> nat \<Rightarrow> unit rpc_result \<times> bytes" where
  "shrink mem offset new_len =
     (let allocs = read_allocs mem in
      case position (\<lambda>e. fst e = offset) allocs of
        None \<Rightarrow> (Inl (no_allocation offset), mem)
      | Some idx \<Rightarrow>
          let cur = snd (allocs ! idx) in
          if cur < new_len then
            (Inl (rpc_error_new ''ValueError''
               (''shrink: new_len '' @ show_nat new_len @ '' > reservation '' @ show_nat cur)), mem)
          else (Inr (), write_allocs (allocs[idx := (fst (allocs ! idx), new_len)]) mem))"

definition reset :: "bytes \<Rightarrow> bytes" where
  "reset mem = overwrite 16 (le_bytes 4 0) mem"

section \<open>The table as bytes\<close>

text \<open>A segment whose header fits, as \<open>shm_initialize\<close> requires.\<close>

definition seg_ok :: "bytes \<Rightarrow> bool" where
  "seg_ok mem = (HEADER_SIZE < length mem \<and> length mem \<le> u64_max)"

definition table_ok :: "(nat \<times> nat) list \<Rightarrow> bool" where
  "table_ok al = (length al \<le> MAX_ALLOCS \<and> (\<forall>e\<in>set al. fst e \<le> u64_max \<and> snd e \<le> u64_max))"

lemma usize_sub_exact:
  assumes "b \<le> a" "a \<le> u64_max"
  shows "usize_sub a b = a - b"
proof -
  have "a + 2 ^ 64 - b = (a - b) + 2 ^ 64"
    using assms(1) by simp
  then show ?thesis
    using assms(2) by (simp only: usize_sub_def mod_add_self2) (simp add: u64_max_def)
qed

lemma length_MAGIC [simp]: "length MAGIC = 4"
  by (simp add: MAGIC_def)

lemma MAX_ALLOCS_val: "MAX_ALLOCS = 4094"
  by (simp add: layout_defs)

lemma entry_base_bounds:
  "i < MAX_ALLOCS \<Longrightarrow> entry_base i + 16 \<le> HEADER_SIZE"
  "24 \<le> entry_base i"
  by (simp_all add: entry_base_def layout_defs)

lemma le8_round: "n \<le> u64_max \<Longrightarrow> of_le (le_bytes 8 n) = n"
  by (intro of_le_le_bytes) (simp add: u64_max_def)

lemma of_le_u64: "length bs = 8 \<Longrightarrow> of_le bs \<le> u64_max"
  using of_le_bound [of bs] by (simp add: u64_max_def)

lemma length_write_entry [simp]:
  "i < MAX_ALLOCS \<Longrightarrow> seg_ok mem \<Longrightarrow> length (write_entry i e mem) = length mem"
  using entry_base_bounds [of i] by (simp add: write_entry_def seg_ok_def)

lemma seg_ok_cong: "length mem' = length mem \<Longrightarrow> seg_ok mem \<Longrightarrow> seg_ok mem'"
  by (simp add: seg_ok_def)

lemma read_entry_write_same:
  assumes "i < MAX_ALLOCS" "seg_ok mem" "fst e \<le> u64_max" "snd e \<le> u64_max"
  shows "read_entry (write_entry i e mem) i = e"
proof -
  have b: "entry_base i + 16 \<le> length mem"
    using entry_base_bounds(1) [OF assms(1)] assms(2) by (simp add: seg_ok_def)
  let ?m = "overwrite (entry_base i) (le_bytes 8 (fst e)) mem"
  have "subslice (entry_base i) (entry_base i + 8) (write_entry i e mem) = le_bytes 8 (fst e)"
    using b subslice_overwrite_same [of "entry_base i" "le_bytes 8 (fst e)" mem]
    by (simp add: write_entry_def subslice_overwrite_disjoint)
  moreover have "subslice (entry_base i + 8) (entry_base i + 16) (write_entry i e mem) = le_bytes 8 (snd e)"
    using b subslice_overwrite_same [of "entry_base i + 8" "le_bytes 8 (snd e)" ?m]
    by (simp add: write_entry_def add.assoc)
  ultimately show ?thesis
    using assms by (simp add: read_entry_def le8_round)
qed

lemma subslice_write_entry:
  assumes "i < MAX_ALLOCS" "seg_ok mem" "q \<le> length mem"
    "q \<le> entry_base i \<or> entry_base i + 16 \<le> p"
  shows "subslice p q (write_entry i e mem) = subslice p q mem"
  using assms entry_base_bounds(1) [OF assms(1)]
  by (auto simp: write_entry_def seg_ok_def subslice_overwrite_disjoint)

lemma read_entry_write_other:
  assumes "i < MAX_ALLOCS" "j < MAX_ALLOCS" "i \<noteq> j" "seg_ok mem"
  shows "read_entry (write_entry i e mem) j = read_entry mem j"
proof -
  have "entry_base j + 16 \<le> entry_base i \<or> entry_base i + 16 \<le> entry_base j"
    using assms(3) by (cases "i < j") (auto simp: entry_base_def ALLOC_ENTRY_SIZE_def)
  moreover have "entry_base j + 16 \<le> length mem"
    using entry_base_bounds(1) [OF assms(2)] assms(4) by (simp add: seg_ok_def)
  ultimately show ?thesis
    using assms by (auto simp: read_entry_def subslice_write_entry)
qed

lemma write_entries_facts:
  assumes "seg_ok mem" "k + length es \<le> MAX_ALLOCS"
    "\<forall>e\<in>set es. fst e \<le> u64_max \<and> snd e \<le> u64_max"
  shows "length (write_entries k es mem) = length mem
    \<and> (\<forall>j<k. read_entry (write_entries k es mem) j = read_entry mem j)
    \<and> (\<forall>j<length es. read_entry (write_entries k es mem) (k + j) = es ! j)
    \<and> (\<forall>p q. q \<le> length mem \<and> (q \<le> entry_base k \<or> HEADER_SIZE \<le> p) \<longrightarrow>
         subslice p q (write_entries k es mem) = subslice p q mem)"
  using assms
proof (induction es arbitrary: k mem)
  case (Cons e es)
  let ?m = "write_entry k e mem"
  have k: "k < MAX_ALLOCS" and ok: "seg_ok ?m" and len: "length ?m = length mem"
    using Cons.prems by (auto intro: seg_ok_cong)
  have IH: "length (write_entries (Suc k) es ?m) = length ?m"
    "\<forall>j<Suc k. read_entry (write_entries (Suc k) es ?m) j = read_entry ?m j"
    "\<forall>j<length es. read_entry (write_entries (Suc k) es ?m) (Suc k + j) = es ! j"
    "\<forall>p q. q \<le> length ?m \<and> (q \<le> entry_base (Suc k) \<or> HEADER_SIZE \<le> p) \<longrightarrow>
       subslice p q (write_entries (Suc k) es ?m) = subslice p q ?m"
    using Cons.IH [OF ok, of "Suc k"] Cons.prems by auto
  have "read_entry (write_entries (Suc k) es ?m) (k + j) = (e # es) ! j" if "j < length (e # es)" for j
    using that IH(2,3) read_entry_write_same [OF k, of mem e] Cons.prems by (cases j) auto
  moreover have "subslice p q (write_entries (Suc k) es ?m) = subslice p q mem"
    if "q \<le> length mem" "q \<le> entry_base k \<or> HEADER_SIZE \<le> p" for p q
    using that IH(4) len entry_base_bounds(1) [OF k] Cons.prems(1)
    by (subst IH(4) [rule_format]) (auto simp: entry_base_def subslice_write_entry [OF k])
  ultimately show ?case
    using IH(1,2) len read_entry_write_other [OF k _ _ Cons.prems(1)] k by auto
qed simp

lemma write_allocs_facts:
  assumes "seg_ok mem" "table_ok al"
  shows "length (write_allocs al mem) = length mem"
    and "read_allocs (write_allocs al mem) = al"
    and "num_allocs (write_allocs al mem) = length al"
    and "HEADER_SIZE \<le> p \<Longrightarrow> q \<le> length mem \<Longrightarrow> subslice p q (write_allocs al mem) = subslice p q mem"
    and "q \<le> 16 \<Longrightarrow> subslice p q (write_allocs al mem) = subslice p q mem"
proof -
  let ?m = "overwrite 16 (le_bytes 4 (length al)) mem"
  have hs: "HEADER_SIZE < length mem"
    using assms(1) by (simp add: seg_ok_def)
  then have l20: "20 \<le> length mem"
    by (simp add: HEADER_SIZE_def)
  then have len: "length ?m = length mem"
    by simp
  then have ok: "seg_ok ?m"
    using assms(1) by (rule seg_ok_cong)
  have n: "length al \<le> MAX_ALLOCS" "\<forall>e\<in>set al. fst e \<le> u64_max \<and> snd e \<le> u64_max"
    using assms(2) by (simp_all add: table_ok_def)
  note F = write_entries_facts [OF ok, of 0 al, simplified, OF n]
  show 1: "length (write_allocs al mem) = length mem"
    using F len by (simp add: write_allocs_def)
  have num: "subslice 16 20 (write_allocs al mem) = le_bytes 4 (length al)"
    using F len l20 subslice_overwrite_same [of 16 "le_bytes 4 (length al)" mem]
    by (simp add: write_allocs_def entry_base_def layout_defs)
  then show 2: "num_allocs (write_allocs al mem) = length al"
    using n(1) by (simp add: num_allocs_def of_le_le_bytes MAX_ALLOCS_val)
  have "\<forall>j<length al. read_entry (write_allocs al mem) j = al ! j"
    using F by (simp add: write_allocs_def)
  then show "read_allocs (write_allocs al mem) = al"
    using n(1) by (intro nth_equalityI) (simp_all add: read_allocs_def 2)
  show "subslice p q (write_allocs al mem) = subslice p q mem"
    if "HEADER_SIZE \<le> p" "q \<le> length mem"
    using F that len l20
    by (simp add: write_allocs_def subslice_overwrite_disjoint HEADER_SIZE_def)
  show "subslice p q (write_allocs al mem) = subslice p q mem" if "q \<le> 16"
    using F that len l20
    by (simp add: write_allocs_def subslice_overwrite_disjoint entry_base_def layout_defs)
qed

lemma read_allocs_table_ok:
  assumes "seg_ok mem"
  shows "table_ok (read_allocs mem)"
proof -
  have "fst (read_entry mem i) \<le> u64_max \<and> snd (read_entry mem i) \<le> u64_max" if "i < MAX_ALLOCS" for i
    using entry_base_bounds(1) [OF that] assms
    by (auto simp: read_entry_def seg_ok_def intro!: of_le_u64)
  then show ?thesis
    by (auto simp: table_ok_def read_allocs_def)
qed


section \<open>First fit finds the least gap\<close>

text \<open>Offset \<open>p\<close> can take \<open>sz\<close> bytes: inside the data area and clear of every entry of the table.\<close>

definition fits :: "(nat \<times> nat) list \<Rightarrow> nat \<Rightarrow> nat \<Rightarrow> nat \<Rightarrow> bool" where
  "fits al hi sz p =
     (HEADER_SIZE \<le> p \<and> p + sz \<le> hi \<and> (\<forall>e\<in>set al. fst e + snd e \<le> p \<or> p + sz \<le> fst e))"

lemma saturating_add_bound: "saturating_add a b \<le> p \<Longrightarrow> p < u64_max \<Longrightarrow> a + b \<le> p"
  by (auto simp: saturating_add_def min_def split: if_splits)

lemma find_gap_ge:
  assumes "find_gap sz hi pe i al = Some (j, p)" "\<forall>e\<in>set al. fst e \<le> u64_max"
  shows "pe \<le> p \<and> i \<le> j \<and> j \<le> i + length al"
  using assms
proof (induction al arbitrary: pe i)
  case (Cons e al)
  obtain off len where e: "e = (off, len)"
    by (cases e)
  have "off \<le> saturating_add off len"
    using Cons.prems(2) by (simp add: e saturating_add_def)
  then show ?case
    using Cons.prems Cons.IH [of "max pe (saturating_add off len)" "Suc i"]
      Cons.IH [of "saturating_add off len" "Suc i"]
    by (auto simp: e split: if_splits)
qed (auto split: if_splits)

lemma find_gap_Some:
  assumes "find_gap sz hi pe i al = Some (j, p)" "0 < sz" "hi \<le> u64_max" "sorted (map fst al)"
    "\<forall>e\<in>set al. fst e \<le> u64_max"
  shows "p + sz \<le> hi \<and> (\<forall>e\<in>set (take (j - i) al). fst e + snd e \<le> p)
    \<and> (\<forall>e\<in>set (drop (j - i) al). p + sz \<le> fst e)"
  using assms
proof (induction al arbitrary: pe i)
  case (Cons e al)
  obtain off len where e: "e = (off, len)"
    by (cases e)
  show ?case
  proof (cases "\<not> off < pe \<and> sz \<le> off - pe \<and> saturating_add pe sz \<le> hi")
    case True
    then have p: "j = i" "p = pe"
      using Cons.prems(1) by (simp_all add: e)
    have "pe + sz \<le> u64_max"
      using True Cons.prems(5) by (simp add: e) linarith
    then have "pe + sz \<le> hi"
      using True by (simp add: saturating_add_def)
    then show ?thesis
      using True Cons.prems(4) by (auto simp: p e)
  next
    case False
    let ?pe = "if off < pe then max pe (saturating_add off len) else saturating_add off len"
    have g: "find_gap sz hi ?pe (Suc i) al = Some (j, p)"
      using False Cons.prems(1) by (auto simp: e split: if_splits)
    then have IH: "p + sz \<le> hi \<and> (\<forall>e\<in>set (take (j - Suc i) al). fst e + snd e \<le> p)
      \<and> (\<forall>e\<in>set (drop (j - Suc i) al). p + sz \<le> fst e)"
      using Cons by auto
    have "saturating_add off len \<le> p" "Suc i \<le> j"
      using find_gap_ge [OF g] Cons.prems(5) by (auto split: if_splits)
    moreover have "p < u64_max"
      using IH Cons.prems(2,3) by linarith
    ultimately have "off + len \<le> p"
      by (auto intro: saturating_add_bound)
    moreover have "j - i = Suc (j - Suc i)"
      using \<open>Suc i \<le> j\<close> by simp
    ultimately show ?thesis
      using IH by (simp add: e)
  qed
qed (auto split: if_splits)

text \<open>No offset below the one found fits, and none at all when the scan fails.\<close>

lemma find_gap_least:
  assumes "0 < sz" "hi \<le> u64_max" "sorted (map fst al)" "pe \<le> q" "q + sz \<le> hi"
    "\<forall>e\<in>set al. fst e + snd e \<le> q \<or> q + sz \<le> fst e"
  shows "\<exists>j p. find_gap sz hi pe i al = Some (j, p) \<and> p \<le> q"
  using assms
proof (induction al arbitrary: pe i)
  case (Cons e al)
  obtain off len where e: "e = (off, len)"
    by (cases e)
  have d: "off + len \<le> q \<or> q + sz \<le> off"
    using Cons.prems(6) by (simp add: e)
  show ?case
  proof (cases "\<not> off < pe \<and> sz \<le> off - pe \<and> saturating_add pe sz \<le> hi")
    case True
    then show ?thesis
      using Cons.prems(4) by (simp add: e)
  next
    case False
    let ?pe = "if off < pe then max pe (saturating_add off len) else saturating_add off len"
    have step: "find_gap sz hi pe i (e # al) = find_gap sz hi ?pe (Suc i) al"
      using False by (auto simp: e)
    have "saturating_add pe sz \<le> hi"
      using Cons.prems(4,5) by (simp add: saturating_add_def)
    then have "off + len \<le> q"
      using d False Cons.prems(1,4) by auto
    then have "?pe \<le> q"
      using Cons.prems(4) by (simp add: saturating_add_def)
    then show ?thesis
      unfolding step using Cons by auto
  qed
qed auto

lemma find_gap_fits:
  assumes "0 < sz" "hi \<le> u64_max" "sorted (map fst al)" "\<forall>e\<in>set al. fst e \<le> u64_max"
  shows "(case find_gap sz hi HEADER_SIZE 0 al of
            None \<Rightarrow> \<forall>q. \<not> fits al hi sz q
          | Some (j, p) \<Rightarrow> fits al hi sz p \<and> (\<forall>q. fits al hi sz q \<longrightarrow> p \<le> q))"
proof -
  have least: "\<exists>j p. find_gap sz hi HEADER_SIZE 0 al = Some (j, p) \<and> p \<le> q" if "fits al hi sz q" for q
    using that assms by (intro find_gap_least) (auto simp: fits_def)
  show ?thesis
  proof (cases "find_gap sz hi HEADER_SIZE 0 al")
    case None
    then show ?thesis
      using least by auto
  next
    case (Some jp)
    obtain j p where jp: "jp = (j, p)"
      by (cases jp)
    note g = Some [unfolded jp]
    have "set al = set (take j al) \<union> set (drop j al)"
      by (metis append_take_drop_id set_append)
    then have "fits al hi sz p"
      using find_gap_Some [OF g assms] find_gap_ge [OF g assms(4)] by (auto simp: fits_def)
    then show ?thesis
      using least Some jp by fastforce
  qed
qed

lemma fits_sort_key: "fits (sort_key f al) hi sz p = fits al hi sz p"
  by (simp add: fits_def)

lemma allocate_result:
  assumes "seg_ok mem" "0 < sz" "length (read_allocs mem) < MAX_ALLOCS"
  shows "(case fst (allocate mem sz) of
            None \<Rightarrow> \<forall>q. \<not> fits (read_allocs mem) (length mem) sz q
          | Some p \<Rightarrow> fits (read_allocs mem) (length mem) sz p
              \<and> (\<forall>q. fits (read_allocs mem) (length mem) sz q \<longrightarrow> p \<le> q))"
  using find_gap_fits [of sz "length mem" "sort_key fst (read_allocs mem)"] assms
    read_allocs_table_ok [OF assms(1)]
  by (auto simp: allocate_def Let_def fits_sort_key seg_ok_def table_ok_def split: option.splits)

section \<open>The invariant between well-behaved peers\<close>

definition before :: "nat \<times> nat \<Rightarrow> nat \<times> nat \<Rightarrow> bool" where
  "before a b = (fst a + snd a \<le> fst b)"

definition alloc_inv :: "bytes \<Rightarrow> bool" where
  "alloc_inv mem =
     (seg_ok mem \<and> num_allocs mem \<le> MAX_ALLOCS \<and> sorted_wrt before (read_allocs mem)
      \<and> (\<forall>e\<in>set (read_allocs mem). HEADER_SIZE \<le> fst e \<and> 0 < snd e \<and> fst e + snd e \<le> length mem))"

lemma sorted_before:
  "sorted_wrt before al \<Longrightarrow> \<forall>e\<in>set al. 0 < snd e \<Longrightarrow> sorted (map fst al) \<and> distinct (map fst al)"
  by (induction al) (auto simp: before_def)

lemma alloc_inv_sort_key: "alloc_inv mem \<Longrightarrow> sort_key fst (read_allocs mem) = read_allocs mem"
  using sorted_before by (auto simp: alloc_inv_def sorted_sort_id sort_key_id_if_sorted)

lemma sorted_wrt_insert_at:
  assumes "sorted_wrt R al" "\<forall>x\<in>set (take j al). R x e" "\<forall>x\<in>set (drop j al). R e x"
  shows "sorted_wrt R (insert_at j e al)"
  using assms append_take_drop_id [of j al]
  by (auto simp: insert_at_def sorted_wrt_append sorted_wrt_take sorted_wrt_drop)
    (metis (no_types, lifting) append_take_drop_id sorted_wrt_append)

lemma sorted_wrt_remove_at:
  assumes "sorted_wrt R al"
  shows "sorted_wrt R (remove_at j al)"
proof -
  have "sorted_wrt R (take j al @ drop j al)"
    using assms by simp
  moreover have "set (drop (Suc j) al) \<subseteq> set (drop j al)"
    by (rule set_drop_subset_set_drop) simp
  ultimately show ?thesis
    using assms unfolding remove_at_def sorted_wrt_append by (auto simp: sorted_wrt_drop)
qed


section \<open>The table as a map from offsets to lengths\<close>

definition slots :: "bytes \<Rightarrow> nat \<Rightarrow> nat option" where
  "slots mem = map_of (read_allocs mem)"

lemma map_of_insert_at:
  assumes "k \<notin> fst ` set al"
  shows "map_of (insert_at j (k, v) al) = (map_of al)(k \<mapsto> v)"
proof -
  have "k \<notin> fst ` set (take j al)"
    using assms in_set_takeD by fastforce
  then have none: "map_of (take j al) k = None"
    by (simp add: map_of_eq_None_iff)
  have al: "map_of al = map_of (drop j al) ++ map_of (take j al)"
    by (metis append_take_drop_id map_of_append)
  show ?thesis
    unfolding insert_at_def al using none by (auto simp: map_add_def fun_eq_iff split: option.splits)
qed

lemma map_of_remove_at:
  assumes "distinct (map fst al)" "j < length al"
  shows "map_of (remove_at j al) = (map_of al)(fst (al ! j) := None)"
proof -
  let ?k = "fst (al ! j)"
  have al: "al = take j al @ al ! j # drop (Suc j) al"
    using assms(2) by (rule id_take_nth_drop)
  then have "distinct (map fst (take j al) @ ?k # map fst (drop (Suc j) al))"
    using assms(1) by (metis list.simps(9) map_append)
  then have "?k \<notin> fst ` set (take j al)" "?k \<notin> fst ` set (drop (Suc j) al)"
    by auto
  then have none: "map_of (take j al) ?k = None" "map_of (drop (Suc j) al) ?k = None"
    by (simp_all add: map_of_eq_None_iff)
  have "map_of al = map_of (take j al @ (?k, snd (al ! j)) # drop (Suc j) al)"
    using al by simp
  then show ?thesis
    using none by (auto simp: remove_at_def fun_eq_iff map_add_def split: option.splits)
qed

lemma map_of_update_at:
  assumes "distinct (map fst al)" "j < length al"
  shows "map_of (al[j := (fst (al ! j), v)]) = (map_of al)(fst (al ! j) \<mapsto> v)"
proof -
  let ?k = "fst (al ! j)"
  have al: "al = take j al @ al ! j # drop (Suc j) al"
    using assms(2) by (rule id_take_nth_drop)
  then have "distinct (map fst (take j al) @ ?k # map fst (drop (Suc j) al))"
    using assms(1) by (metis list.simps(9) map_append)
  then have "?k \<notin> fst ` set (take j al)"
    by auto
  then have none: "map_of (take j al) ?k = None"
    by (simp add: map_of_eq_None_iff)
  have "map_of al = map_of (take j al @ (?k, snd (al ! j)) # drop (Suc j) al)"
    using al by simp
  then show ?thesis
    using none assms(2) by (auto simp: upd_conv_take_nth_drop fun_eq_iff map_add_def split: option.splits)
qed

lemma alloc_inv_table:
  assumes "alloc_inv mem"
  shows "seg_ok mem" "table_ok (read_allocs mem)" "distinct (map fst (read_allocs mem))"
    "sorted (map fst (read_allocs mem))" "length (read_allocs mem) = num_allocs mem"
proof -
  show ok: "seg_ok mem"
    using assms by (simp add: alloc_inv_def)
  show "table_ok (read_allocs mem)"
    by (rule read_allocs_table_ok [OF ok])
  show "distinct (map fst (read_allocs mem))" "sorted (map fst (read_allocs mem))"
    using assms sorted_before [of "read_allocs mem"] by (simp_all add: alloc_inv_def)
  show "length (read_allocs mem) = num_allocs mem"
    using assms by (simp add: alloc_inv_def read_allocs_def)
qed

text \<open>Writing a table that satisfies the constraints re-establishes the invariant.\<close>

lemma alloc_inv_write:
  assumes "seg_ok mem" "length al \<le> MAX_ALLOCS" "sorted_wrt before al"
    "\<forall>e\<in>set al. HEADER_SIZE \<le> fst e \<and> 0 < snd e \<and> fst e + snd e \<le> length mem"
  shows "alloc_inv (write_allocs al mem)" "read_allocs (write_allocs al mem) = al"
    "length (write_allocs al mem) = length mem"
    "HEADER_SIZE \<le> p \<Longrightarrow> q \<le> length mem \<Longrightarrow> subslice p q (write_allocs al mem) = subslice p q mem"
proof -
  have t: "table_ok al"
    using assms(1,2,4) by (fastforce simp: table_ok_def seg_ok_def)
  note W = write_allocs_facts [OF assms(1) t]
  show "alloc_inv (write_allocs al mem)"
    using W(1,2,3) assms seg_ok_cong [OF W(1)] by (simp add: alloc_inv_def)
  show "read_allocs (write_allocs al mem) = al" "length (write_allocs al mem) = length mem"
    by (simp_all add: W)
  show "HEADER_SIZE \<le> p \<Longrightarrow> q \<le> length mem \<Longrightarrow>
      subslice p q (write_allocs al mem) = subslice p q mem"
    by (rule W(4))
qed

lemma allocate_Some:
  assumes inv: "alloc_inv mem" and a: "allocate mem sz = (Some p, mem')"
  shows "alloc_inv mem'" "0 < sz" "fits (read_allocs mem) (length mem) sz p"
    "slots mem p = None" "slots mem' = (slots mem)(p \<mapsto> sz)" "length mem' = length mem"
    "HEADER_SIZE \<le> u \<Longrightarrow> v \<le> length mem \<Longrightarrow> subslice u v mem' = subslice u v mem"
proof -
  let ?al = "read_allocs mem"
  note T = alloc_inv_table [OF inv]
  from a obtain j where sz: "0 < sz" and full: "length ?al < MAX_ALLOCS"
    and g: "find_gap sz (length mem) HEADER_SIZE 0 ?al = Some (j, p)"
    and mem': "mem' = write_allocs (insert_at j (p, sz) ?al) mem"
    by (auto simp: allocate_def Let_def alloc_inv_sort_key [OF inv] split: if_splits option.splits)
  have u: "\<forall>e\<in>set ?al. fst e \<le> u64_max" and hi: "length mem \<le> u64_max"
    using T by (auto simp: table_ok_def seg_ok_def)
  note G = find_gap_Some [OF g sz hi T(4) u] find_gap_ge [OF g u]
  have F: "fits ?al (length mem) sz p"
    using find_gap_fits [OF sz hi T(4) u] by (simp add: g)
  have ent: "\<forall>e\<in>set ?al. HEADER_SIZE \<le> fst e \<and> 0 < snd e \<and> fst e + snd e \<le> length mem"
    and srt: "sorted_wrt before ?al"
    using inv by (simp_all add: alloc_inv_def)
  have new: "p \<notin> fst ` set ?al"
    using F ent sz by (force simp: fits_def)
  have "sorted_wrt before (insert_at j (p, sz) ?al)"
    using G by (intro sorted_wrt_insert_at srt) (auto simp: before_def)
  then have W: "alloc_inv mem'" "read_allocs mem' = insert_at j (p, sz) ?al" "length mem' = length mem"
    unfolding mem' using full G F ent sz T(1)
    by (intro alloc_inv_write; simp add: fits_def)+
  show "alloc_inv mem'" "0 < sz" "fits ?al (length mem) sz p" "length mem' = length mem"
    by (fact W(1) sz F W(3))+
  show "slots mem p = None" "slots mem' = (slots mem)(p \<mapsto> sz)"
    using new by (simp_all add: slots_def W(2) map_of_insert_at map_of_eq_None_iff)
  show "subslice u v mem' = subslice u v mem" if "HEADER_SIZE \<le> u" "v \<le> length mem"
    unfolding mem' using full G F ent sz T(1) \<open>sorted_wrt before (insert_at j (p, sz) ?al)\<close> that
    by (intro alloc_inv_write(4)) (simp_all add: fits_def)
qed

lemma allocate_None: "allocate mem sz = (None, mem') \<Longrightarrow> mem' = mem"
  by (auto simp: allocate_def Let_def split: if_splits option.splits)


lemma position_map_of:
  "distinct (map fst al) \<Longrightarrow>
   (case position (\<lambda>e. fst e = k) al of
      None \<Rightarrow> map_of al k = None
    | Some j \<Rightarrow> j < length al \<and> fst (al ! j) = k \<and> map_of al k = Some (snd (al ! j)))"
  by (induction al) (auto split: option.splits)

lemma free_None: "alloc_inv mem \<Longrightarrow> slots mem k = None \<Longrightarrow> free mem k = (Inl (no_allocation k), mem)"
  using position_map_of [OF alloc_inv_table(3), of mem k]
  by (auto simp: free_def Let_def slots_def split: option.splits)

lemma free_Some:
  assumes inv: "alloc_inv mem" and k: "slots mem k = Some l"
  shows "\<exists>mem'. free mem k = (Inr (), mem') \<and> alloc_inv mem' \<and> slots mem' = (slots mem)(k := None)
    \<and> length mem' = length mem
    \<and> (\<forall>u v. HEADER_SIZE \<le> u \<and> v \<le> length mem \<longrightarrow> subslice u v mem' = subslice u v mem)"
proof -
  let ?al = "read_allocs mem"
  note T = alloc_inv_table [OF inv]
  obtain j where pos: "position (\<lambda>e. fst e = k) ?al = Some j" and j: "j < length ?al" "fst (?al ! j) = k"
    using position_map_of [OF T(3), of k] k by (auto simp: slots_def split: option.splits)
  let ?al' = "remove_at j ?al"
  have "length ?al' \<le> MAX_ALLOCS" "sorted_wrt before ?al'"
    "\<forall>e\<in>set ?al'. HEADER_SIZE \<le> fst e \<and> 0 < snd e \<and> fst e + snd e \<le> length mem"
    using inv T(5) j set_remove_at_subset [of j ?al]
    by (auto simp: alloc_inv_def intro: sorted_wrt_remove_at)
  note W = alloc_inv_write [OF T(1) this]
  show ?thesis
    using W pos j map_of_remove_at [OF T(3) j(1)] by (simp add: free_def slots_def)
qed

lemma shrink_None:
  "alloc_inv mem \<Longrightarrow> slots mem k = None \<Longrightarrow> shrink mem k n = (Inl (no_allocation k), mem)"
  using position_map_of [OF alloc_inv_table(3), of mem k]
  by (auto simp: shrink_def Let_def slots_def split: option.splits)

lemma shrink_grow:
  "alloc_inv mem \<Longrightarrow> slots mem k = Some l \<Longrightarrow> l < n \<Longrightarrow> \<exists>e. shrink mem k n = (Inl e, mem)"
  using position_map_of [OF alloc_inv_table(3), of mem k]
  by (auto simp: shrink_def Let_def slots_def split: option.splits)

lemma sorted_wrt_before_shrink:
  assumes "sorted_wrt before al" "j < length al" "n \<le> snd (al ! j)"
  shows "sorted_wrt before (al[j := (fst (al ! j), n)])"
  using assms unfolding sorted_wrt_iff_nth_less
  by (auto simp: before_def nth_list_update) (metis le_trans nat_add_left_cancel_le)

lemma shrink_Some:
  assumes inv: "alloc_inv mem" and k: "slots mem k = Some l" and n: "0 < n" "n \<le> l"
  shows "\<exists>mem'. shrink mem k n = (Inr (), mem') \<and> alloc_inv mem' \<and> slots mem' = (slots mem)(k \<mapsto> n)
    \<and> length mem' = length mem
    \<and> (\<forall>u v. HEADER_SIZE \<le> u \<and> v \<le> length mem \<longrightarrow> subslice u v mem' = subslice u v mem)"
proof -
  let ?al = "read_allocs mem"
  note T = alloc_inv_table [OF inv]
  obtain j where pos: "position (\<lambda>e. fst e = k) ?al = Some j"
    and j: "j < length ?al" "fst (?al ! j) = k" "snd (?al ! j) = l"
    using position_map_of [OF T(3), of k] k by (auto simp: slots_def split: option.splits)
  let ?al' = "?al[j := (fst (?al ! j), n)]"
  have ent: "\<forall>e\<in>set ?al. HEADER_SIZE \<le> fst e \<and> 0 < snd e \<and> fst e + snd e \<le> length mem"
    using inv by (simp add: alloc_inv_def)
  then have "HEADER_SIZE \<le> fst (?al ! j)" "fst (?al ! j) + snd (?al ! j) \<le> length mem"
    using nth_mem [OF j(1)] by blast+
  then have "HEADER_SIZE \<le> fst (?al ! j) \<and> fst (?al ! j) + n \<le> length mem"
    using j(3) n by linarith
  then have "\<forall>e\<in>set ?al'. HEADER_SIZE \<le> fst e \<and> 0 < snd e \<and> fst e + snd e \<le> length mem"
    using ent n set_update_subset_insert [of ?al j "(fst (?al ! j), n)"] by auto
  moreover have "length ?al' \<le> MAX_ALLOCS" "sorted_wrt before ?al'"
    using inv T(5) j n by (auto simp: alloc_inv_def intro: sorted_wrt_before_shrink)
  ultimately have W: "alloc_inv (write_allocs ?al' mem)" "read_allocs (write_allocs ?al' mem) = ?al'"
    "length (write_allocs ?al' mem) = length mem"
    "\<And>u v. HEADER_SIZE \<le> u \<Longrightarrow> v \<le> length mem \<Longrightarrow>
       subslice u v (write_allocs ?al' mem) = subslice u v mem"
    using alloc_inv_write [OF T(1)] by blast+
  show ?thesis
    using W pos j n map_of_update_at [OF T(3) j(1)] by (simp add: shrink_def slots_def)
qed

lemma slots_region: "alloc_inv mem \<Longrightarrow> slots mem k = Some l \<Longrightarrow>
   HEADER_SIZE \<le> k \<and> 0 < l \<and> k + l \<le> length mem"
  by (auto simp: alloc_inv_def slots_def dest!: map_of_SomeD)

lemma slots_disjoint:
  assumes "alloc_inv mem" "slots mem a = Some l" "slots mem b = Some m" "a \<noteq> b"
  shows "a + l \<le> b \<or> b + m \<le> a"
proof -
  have "(a, l) \<in> set (read_allocs mem)" "(b, m) \<in> set (read_allocs mem)"
    using assms by (auto simp: slots_def dest: map_of_SomeD)
  moreover have "sorted_wrt before (read_allocs mem)"
    using assms(1) by (simp add: alloc_inv_def)
  ultimately have "before (a, l) (b, m) \<or> before (b, m) (a, l)"
    using assms(4) by (auto simp: in_set_conv_nth sorted_wrt_iff_nth_less)
      (metis Pair_inject linorder_neqE_nat)
  then show ?thesis
    by (simp add: before_def)
qed


section \<open>The contract of the segment layer\<close>

text \<open>
  The slots of a segment: offsets with lengths, pairwise disjoint regions inside the data area.
  \<open>alloc\<close> adds one at a fresh offset or changes nothing, \<open>dealloc\<close> removes one, \<open>shorten\<close> shortens one.
\<close>

locale slot_store =
  fixes slot_map :: "'s \<Rightarrow> nat \<Rightarrow> nat option"
    and lo :: nat
    and hi :: "'s \<Rightarrow> nat"
    and inv :: "'s \<Rightarrow> bool"
    and alloc :: "'s \<Rightarrow> nat \<Rightarrow> nat option \<times> 's"
    and dealloc :: "'s \<Rightarrow> nat \<Rightarrow> ('e + unit) \<times> 's"
    and shorten :: "'s \<Rightarrow> nat \<Rightarrow> nat \<Rightarrow> ('e + unit) \<times> 's"
  assumes region: "inv s \<Longrightarrow> slot_map s k = Some l \<Longrightarrow> lo \<le> k \<and> 0 < l \<and> k + l \<le> hi s"
    and disjoint: "inv s \<Longrightarrow> slot_map s a = Some l \<Longrightarrow> slot_map s b = Some m \<Longrightarrow> a \<noteq> b \<Longrightarrow>
      a + l \<le> b \<or> b + m \<le> a"
    and alloc_Some: "inv s \<Longrightarrow> alloc s n = (Some k, s') \<Longrightarrow>
      inv s' \<and> hi s' = hi s \<and> slot_map s k = None \<and> slot_map s' = (slot_map s)(k \<mapsto> n)"
    and alloc_None: "alloc s n = (None, s') \<Longrightarrow> s' = s"
    and dealloc_Some: "inv s \<Longrightarrow> slot_map s k = Some l \<Longrightarrow> \<exists>s'. dealloc s k = (Inr (), s')
      \<and> inv s' \<and> hi s' = hi s \<and> slot_map s' = (slot_map s)(k := None)"
    and dealloc_None: "inv s \<Longrightarrow> slot_map s k = None \<Longrightarrow> \<exists>e. dealloc s k = (Inl e, s)"
    and shorten_Some: "inv s \<Longrightarrow> slot_map s k = Some l \<Longrightarrow> 0 < n \<Longrightarrow> n \<le> l \<Longrightarrow>
      \<exists>s'. shorten s k n = (Inr (), s') \<and> inv s' \<and> hi s' = hi s \<and> slot_map s' = (slot_map s)(k \<mapsto> n)"
    and shorten_fails: "inv s \<Longrightarrow> (case slot_map s k of None \<Rightarrow> True | Some l \<Rightarrow> l < n) \<Longrightarrow>
      \<exists>e. shorten s k n = (Inl e, s)"

text \<open>The operations the two peers issue, in the order they take effect.\<close>

datatype slot_op = Alloc nat | Dealloc nat | Cut nat nat

fun slot_step ::
  "('s \<Rightarrow> nat \<Rightarrow> nat option \<times> 's) \<Rightarrow> ('s \<Rightarrow> nat \<Rightarrow> ('e + unit) \<times> 's)
     \<Rightarrow> ('s \<Rightarrow> nat \<Rightarrow> nat \<Rightarrow> ('e + unit) \<times> 's) \<Rightarrow> slot_op \<Rightarrow> 's \<Rightarrow> 's" where
  "slot_step alloc dealloc shorten (Alloc n) s = snd (alloc s n)"
| "slot_step alloc dealloc shorten (Dealloc k) s = snd (dealloc s k)"
| "slot_step alloc dealloc shorten (Cut k n) s = snd (shorten s k n)"

definition slot_run ::
  "('s \<Rightarrow> nat \<Rightarrow> nat option \<times> 's) \<Rightarrow> ('s \<Rightarrow> nat \<Rightarrow> ('e + unit) \<times> 's)
     \<Rightarrow> ('s \<Rightarrow> nat \<Rightarrow> nat \<Rightarrow> ('e + unit) \<times> 's) \<Rightarrow> slot_op list \<Rightarrow> 's \<Rightarrow> 's" where
  "slot_run alloc dealloc shorten ops s = fold (slot_step alloc dealloc shorten) ops s"

fun op_ok :: "slot_op \<Rightarrow> bool" where
  "op_ok (Cut k n) = (0 < n)"
| "op_ok _ = True"

fun op_target :: "slot_op \<Rightarrow> nat option" where
  "op_target (Alloc n) = None"
| "op_target (Dealloc k) = Some k"
| "op_target (Cut k n) = Some k"

context slot_store
begin

lemma step_cases:
  assumes "inv s" "op_ok op"
  shows "inv (slot_step alloc dealloc shorten op s) \<and> hi (slot_step alloc dealloc shorten op s) = hi s
    \<and> (\<forall>k. op_target op \<noteq> Some k \<and> slot_map s k \<noteq> None \<longrightarrow>
         slot_map (slot_step alloc dealloc shorten op s) k = slot_map s k)"
proof (cases op)
  case (Alloc n)
  obtain r s' where r: "alloc s n = (r, s')"
    by (cases "alloc s n")
  show ?thesis
  proof (cases r)
    case None
    then show ?thesis
      using alloc_None [of s n s'] r assms(1) by (simp add: Alloc)
  next
    case (Some k)
    then show ?thesis
      using alloc_Some [OF assms(1), of n k s'] r by (auto simp: Alloc)
  qed
next
  case (Dealloc k)
  show ?thesis
    using dealloc_Some [OF assms(1), of k] dealloc_None [OF assms(1), of k] assms(1)
    by (cases "slot_map s k") (auto simp: Dealloc)
next
  case (Cut k n)
  have n: "0 < n"
    using assms(2) by (simp add: Cut)
  consider (ok) l where "slot_map s k = Some l" "n \<le> l"
    | (bad) "case slot_map s k of None \<Rightarrow> True | Some l \<Rightarrow> l < n"
    by (cases "slot_map s k") (auto, metis not_le)
  then show ?thesis
  proof cases
    case ok
    then show ?thesis
      using shorten_Some [OF assms(1) ok(1) n ok(2)] by (auto simp: Cut)
  next
    case bad
    then show ?thesis
      using shorten_fails [OF assms(1) bad] assms(1) by (auto simp: Cut)
  qed
qed

lemma run_inv:
  assumes "inv s" "list_all op_ok ops"
  shows "inv (slot_run alloc dealloc shorten ops s)" "hi (slot_run alloc dealloc shorten ops s) = hi s"
  using assms
proof (induction ops arbitrary: s)
  case (Cons op ops)
  {
    case 1
    then show ?case
      using Cons.IH(1) step_cases by (simp add: slot_run_def)
  next
    case 2
    then show ?case
      using Cons.IH(2) step_cases by (simp add: slot_run_def)
  }
qed (simp_all add: slot_run_def)

lemma run_keeps_slot:
  assumes "inv s" "list_all op_ok ops" "Some k \<notin> op_target ` set ops" "slot_map s k = Some l"
  shows "slot_map (slot_run alloc dealloc shorten ops s) k = Some l"
  using assms
proof (induction ops arbitrary: s)
  case (Cons op ops)
  then have "slot_map (slot_step alloc dealloc shorten op s) k = Some l"
    "inv (slot_step alloc dealloc shorten op s)"
    using step_cases [of s op] by auto
  then show ?case
    using Cons by (simp add: slot_run_def)
qed (simp add: slot_run_def)

end

interpretation shm_slots: slot_store slots HEADER_SIZE length alloc_inv allocate free shrink
proof unfold_locales
  show "alloc_inv s \<Longrightarrow> slots s k = Some l \<Longrightarrow> HEADER_SIZE \<le> k \<and> 0 < l \<and> k + l \<le> length s" for s k l
    by (rule slots_region)
  show "alloc_inv s \<Longrightarrow> slots s a = Some l \<Longrightarrow> slots s b = Some m \<Longrightarrow> a \<noteq> b \<Longrightarrow>
      a + l \<le> b \<or> b + m \<le> a" for s a b l m
    by (rule slots_disjoint)
  show "alloc_inv s \<Longrightarrow> allocate s n = (Some k, s') \<Longrightarrow>
      alloc_inv s' \<and> length s' = length s \<and> slots s k = None \<and> slots s' = (slots s)(k \<mapsto> n)" for s n k s'
    using allocate_Some(1,4,5,6) by meson
  show "allocate s n = (None, s') \<Longrightarrow> s' = s" for s n s'
    by (rule allocate_None)
  show "alloc_inv s \<Longrightarrow> slots s k = Some l \<Longrightarrow> \<exists>s'. free s k = (Inr (), s')
      \<and> alloc_inv s' \<and> length s' = length s \<and> slots s' = (slots s)(k := None)" for s k l
    using free_Some by blast
  show "alloc_inv s \<Longrightarrow> slots s k = None \<Longrightarrow> \<exists>e. free s k = (Inl e, s)" for s k
    using free_None by blast
  show "alloc_inv s \<Longrightarrow> slots s k = Some l \<Longrightarrow> 0 < n \<Longrightarrow> n \<le> l \<Longrightarrow>
      \<exists>s'. shrink s k n = (Inr (), s') \<and> alloc_inv s' \<and> length s' = length s
        \<and> slots s' = (slots s)(k \<mapsto> n)" for s k l n
    using shrink_Some by blast
  show "alloc_inv s \<Longrightarrow> (case slots s k of None \<Rightarrow> True | Some l \<Rightarrow> l < n) \<Longrightarrow>
      \<exists>e. shrink s k n = (Inl e, s)" for s k n
    using shrink_None shrink_grow by (cases "slots s k") auto
qed

section \<open>A fresh segment\<close>

lemma initialize_Inr:
  assumes "seg_ok mem"
  obtains mem' where "shm_initialize mem = Inr mem'" "alloc_inv mem'" "slots mem' = Map.empty"
    "length mem' = length mem" "shm_attach mem' = Done (Inr ())"
proof -
  have l: "HEADER_SIZE < length mem" "length mem \<le> u64_max"
    using assms by (simp_all add: seg_ok_def)
  then have big: "24 \<le> length mem"
    by (simp add: HEADER_SIZE_def)
  let ?d = "length mem - HEADER_SIZE"
  define a where "a = overwrite 0 MAGIC mem"
  define b where "b = overwrite 4 (le_bytes 4 SHM_VERSION) a"
  define c where "c = overwrite 8 (le_bytes 8 ?d) b"
  define d where "d = overwrite 16 (le_bytes 4 0) c"
  define e where "e = overwrite 20 (le_bytes 4 0) d"
  note defs = a_def b_def c_def d_def e_def
  have len: "length a = length mem" "length b = length mem" "length c = length mem"
    "length d = length mem" "length e = length mem"
    using big by (simp_all add: defs)
  have eq: "shm_initialize mem = Inr e"
    using l by (simp add: shm_initialize_def defs Let_def)
  have "subslice 16 20 e = le_bytes 4 0"
    using big len subslice_overwrite_same [of 16 "le_bytes 4 0" c]
    by (simp add: e_def d_def subslice_overwrite_disjoint)
  then have num: "num_allocs e = 0"
    by (simp add: num_allocs_def of_le_le_bytes)
  then have ra: "read_allocs e = []"
    by (simp add: read_allocs_def)
  have inv: "alloc_inv e"
    using l by (simp add: alloc_inv_def num ra seg_ok_def len)
  have "subslice 0 4 e = MAGIC" "subslice 4 8 e = le_bytes 4 SHM_VERSION" "subslice 8 16 e = le_bytes 8 ?d"
    using big len subslice_overwrite_same [of 0 MAGIC mem]
      subslice_overwrite_same [of 4 "le_bytes 4 SHM_VERSION" a]
      subslice_overwrite_same [of 8 "le_bytes 8 ?d" b]
    by (simp_all add: e_def d_def c_def b_def a_def subslice_overwrite_disjoint)
  moreover have "usize_sub (length mem) HEADER_SIZE = ?d"
    using l by (simp add: usize_sub_exact)
  ultimately have "shm_attach e = Done (Inr ())"
    using big l by (simp add: shm_attach_def len le8_round of_le_le_bytes SHM_VERSION_def
        subslice_def [of 0] Let_def)
  then show thesis
    using that eq inv ra len by (simp add: slots_def)
qed

lemma reset_inv:
  assumes "alloc_inv mem"
  shows "alloc_inv (reset mem)" "slots (reset mem) = Map.empty"
proof -
  have l: "20 \<le> length mem" "HEADER_SIZE < length mem"
    using assms by (simp_all add: alloc_inv_def seg_ok_def HEADER_SIZE_def)
  then have "num_allocs (reset mem) = 0"
    using subslice_overwrite_same [of 16 "le_bytes 4 0" mem]
    by (simp add: num_allocs_def reset_def of_le_le_bytes)
  then show "alloc_inv (reset mem)" "slots (reset mem) = Map.empty"
    using assms l by (simp_all add: alloc_inv_def seg_ok_def slots_def read_allocs_def reset_def)
qed


section \<open>The allocator leaves the data area alone\<close>

lemma slot_step_data:
  assumes inv: "alloc_inv mem" and ok: "op_ok op" and r: "HEADER_SIZE \<le> u" "v \<le> length mem"
  shows "subslice u v (slot_step allocate free shrink op mem) = subslice u v mem"
proof (cases op)
  case (Alloc n)
  obtain res mem' where a: "allocate mem n = (res, mem')"
    by (cases "allocate mem n")
  then show ?thesis
    using allocate_None [of mem n mem'] allocate_Some(7) [OF inv, of n _ mem'] r
    by (cases res) (auto simp: Alloc)
next
  case (Dealloc k)
  show ?thesis
    using free_None [OF inv, of k] free_Some [OF inv, of k] r
    by (cases "slots mem k") (auto simp: Dealloc)
next
  case (Cut k n)
  then have "0 < n"
    using ok by simp
  then show ?thesis
    using shrink_None [OF inv, of k n] shrink_grow [OF inv, of k _ n] shrink_Some [OF inv, of k _ n] r
    by (cases "slots mem k"; cases "n \<le> the (slots mem k)") (fastforce simp: Cut)+
qed

lemma slot_run_data:
  assumes "alloc_inv mem" "list_all op_ok ops" "HEADER_SIZE \<le> u" "v \<le> length mem"
  shows "subslice u v (slot_run allocate free shrink ops mem) = subslice u v mem"
  using assms
proof (induction ops arbitrary: mem)
  case (Cons op ops)
  then have "alloc_inv (slot_step allocate free shrink op mem)"
    "length (slot_step allocate free shrink op mem) = length mem"
    "subslice u v (slot_step allocate free shrink op mem) = subslice u v mem"
    using shm_slots.step_cases [of mem op] slot_step_data [of mem op u v] by simp_all
  then show ?case
    using Cons by (simp add: slot_run_def)
qed (simp add: slot_run_def)

lemma subslice_replicate: "j \<le> n \<Longrightarrow> subslice i j (replicate n x) = replicate (j - i) x"
  by (simp add: subslice_def)

lemma of_le_replicate_0: "of_le (replicate k 0) = 0"
  by (induction k) simp_all

section \<open>Properties\<close>

text \<open>C11. First fit, for any content of the table. Whatever the peer wrote into the header (entries
  out of order, overlapping, beyond the segment, a count above the capacity), an allocation that
  succeeds returns the least offset of the data area at which the requested bytes stay inside the
  segment and overlap no entry of the table, and an allocation fails only when there is no such
  offset.\<close>

theorem allocate_first_fit:
  assumes "seg_ok mem" "0 < sz" "length (read_allocs mem) < MAX_ALLOCS"
  shows "case fst (allocate mem sz) of
           None \<Rightarrow> \<forall>q. \<not> fits (read_allocs mem) (length mem) sz q
         | Some p \<Rightarrow> fits (read_allocs mem) (length mem) sz p
             \<and> (\<forall>q. fits (read_allocs mem) (length mem) sz q \<longrightarrow> p \<le> q)"
  using assms by (rule allocate_result)

theorem allocate_first_fit_witness:
  "fst (allocate (replicate 70000 0) 64) = Some HEADER_SIZE"
proof -
  have ra: "read_allocs (replicate 70000 0) = []"
    by (simp add: read_allocs_def num_allocs_def subslice_replicate of_le_replicate_0)
  have ok: "seg_ok (replicate 70000 0)"
    by (simp add: seg_ok_def HEADER_SIZE_def u64_max_def)
  have fit: "fits [] 70000 64 HEADER_SIZE" and ge: "\<And>q. fits [] 70000 64 q \<Longrightarrow> HEADER_SIZE \<le> q"
    by (simp_all add: fits_def HEADER_SIZE_def)
  show ?thesis
    using allocate_first_fit [OF ok, of 64] fit ge
    by (auto simp: ra MAX_ALLOCS_val split: option.splits) (meson antisym)
qed

text \<open>C12. From a fresh segment on, every sequence of allocations, releases and (non-zero) shrinks by
  the two peers keeps the slots inside the data area, non-empty and pairwise disjoint.\<close>

theorem slots_stay_disjoint:
  assumes "seg_ok mem" "shm_initialize mem = Inr m0" "list_all op_ok ops"
    and "m = slot_run allocate free shrink ops m0"
  shows "(\<forall>k l. slots m k = Some l \<longrightarrow> HEADER_SIZE \<le> k \<and> 0 < l \<and> k + l \<le> length mem)
    \<and> (\<forall>a l b n. slots m a = Some l \<and> slots m b = Some n \<and> a \<noteq> b \<longrightarrow> a + l \<le> b \<or> b + n \<le> a)"
proof -
  obtain m' where "shm_initialize mem = Inr m'" "alloc_inv m'" "length m' = length mem"
    using initialize_Inr [OF assms(1)] by metis
  then have m0: "alloc_inv m0" "length m0 = length mem"
    using assms(2) by simp_all
  have "alloc_inv m" "length m = length mem"
    using shm_slots.run_inv [OF m0(1) assms(3)] m0(2) by (simp_all add: assms(4))
  then show ?thesis
    using slots_region slots_disjoint by metis
qed

theorem slots_stay_disjoint_witness:
  "\<exists>m0. shm_initialize (replicate 70000 0) = Inr m0
     \<and> (\<forall>k l. slots (slot_run allocate free shrink [Alloc 64, Alloc 128, Dealloc 65536, Alloc 32] m0) k
           = Some l \<longrightarrow> k + l \<le> 70000)"
proof -
  have ok: "seg_ok (replicate 70000 0)"
    by (simp add: seg_ok_def HEADER_SIZE_def u64_max_def)
  obtain m0 where m0: "shm_initialize (replicate 70000 0) = Inr m0"
    using initialize_Inr [OF ok] by metis
  show ?thesis
    using slots_stay_disjoint [OF ok m0, of "[Alloc 64, Alloc 128, Dealloc 65536, Alloc 32]"] m0
    by auto
qed

text \<open>C13. A slot that a sequence of operations does not name is still there afterwards with the same
  length and the same bytes.\<close>

theorem untouched_slot_is_stable:
  assumes "alloc_inv mem" "list_all op_ok ops" "Some k \<notin> op_target ` set ops" "slots mem k = Some l"
  shows "slots (slot_run allocate free shrink ops mem) k = Some l
    \<and> subslice k (k + l) (slot_run allocate free shrink ops mem) = subslice k (k + l) mem"
  using shm_slots.run_keeps_slot [OF assms] slots_region [OF assms(1,4)] slot_run_data [OF assms(1,2)]
  by simp

theorem untouched_slot_is_stable_witness:
  "\<exists>mem. alloc_inv mem \<and> slots mem 65536 = Some 64
     \<and> slots (slot_run allocate free shrink [Alloc 32, Dealloc 7, Cut 9 1] mem) 65536 = Some 64"
proof -
  have ok: "seg_ok (replicate 70000 0)"
    by (simp add: seg_ok_def HEADER_SIZE_def u64_max_def)
  have ra: "read_allocs (replicate 70000 0) = []" "num_allocs (replicate 70000 0) = 0"
    by (simp_all add: read_allocs_def num_allocs_def subslice_replicate of_le_replicate_0)
  let ?m = "write_allocs [(65536, 64)] (replicate 70000 0)"
  have W: "alloc_inv ?m" "read_allocs ?m = [(65536, 64)]"
    by (rule alloc_inv_write; simp add: ok MAX_ALLOCS_val HEADER_SIZE_def)+
  then have "slots ?m 65536 = Some 64"
    by (simp add: slots_def)
  then show ?thesis
    using untouched_slot_is_stable [of ?m "[Alloc 32, Dealloc 7, Cut 9 1]" 65536 64] W(1) by auto
qed

text \<open>The table written to the header is the table read back, and writing it changes neither the
  magic, version and size fields nor the data area.\<close>

theorem table_round_trip:
  assumes "seg_ok mem" "table_ok al"
  shows "read_allocs (write_allocs al mem) = al \<and> length (write_allocs al mem) = length mem
    \<and> subslice 0 16 (write_allocs al mem) = subslice 0 16 mem
    \<and> subslice HEADER_SIZE (length mem) (write_allocs al mem) = subslice HEADER_SIZE (length mem) mem"
  using write_allocs_facts [OF assms] by simp

theorem table_round_trip_witness:
  "read_allocs (write_allocs [(65536, 64), (65600, 128)] (replicate 70000 0)) = [(65536, 64), (65600, 128)]"
proof -
  have "seg_ok (replicate 70000 0)" "table_ok [(65536, 64), (65600, 128)]"
    by (simp_all add: seg_ok_def table_ok_def HEADER_SIZE_def u64_max_def MAX_ALLOCS_val)
  then show ?thesis
    using table_round_trip by blast
qed

text \<open>Attaching does not check that the segment holds a header: the size is subtracted in
  wrapping arithmetic, so a sixteen-byte segment with a crafted size field is accepted.\<close>

theorem attach_accepts_short_segment:
  "\<exists>mem. length mem = 16 \<and> shm_attach mem = Done (Inr ())"
proof -
  let ?n = "usize_sub 16 HEADER_SIZE"
  let ?mem = "MAGIC @ le_bytes 4 SHM_VERSION @ le_bytes 8 ?n"
  have "?n \<le> u64_max"
    by (simp add: usize_sub_def HEADER_SIZE_def u64_max_def)
  then have "of_le (le_bytes 8 ?n) = ?n"
    by (rule le8_round)
  moreover have "subslice 4 8 ?mem = le_bytes 4 SHM_VERSION" "subslice 8 16 ?mem = le_bytes 8 ?n"
    by (simp_all add: subslice_def)
  moreover have "of_le (le_bytes 4 SHM_VERSION) = SHM_VERSION"
    by (rule of_le_le_bytes) (simp add: SHM_VERSION_def)
  ultimately have "shm_attach ?mem = Done (Inr ())"
    by (simp add: shm_attach_def Let_def)
  then show ?thesis
    by (intro exI [of _ ?mem]) simp
qed

end
