(* ===== verification/Wire_Read.thy ===== *)
theory Wire_Read
  imports Io Envelope
begin

text \<open>
  Reading Arrow IPC streams: the reader half of \<^verbatim>\<open>vgi-rpc/src/wire.rs\<close>.

  The Arrow libraries enter as the record \<open>arrow_api\<close> of functions: the flatbuffer parser
  \<^verbatim>\<open>root_as_message\<close> and the decoders for schemas, dictionaries and record batches. A decoder may
  panic (outcome \<^const>\<open>Panic\<close>), which \<^verbatim>\<open>decode_guard\<close> turns into an error. What the framework
  relies on is stated where it is used: \<open>utf8_contract\<close>, that a reported UTF-8 error range holds a
  byte that is not ASCII, and the encapsulated message format of the Arrow IPC specification
  (\<open>encapsulate\<close>).
\<close>

section \<open>The parsed view of a message\<close>

datatype fb_error = Utf8_Error nat nat string | Fb_Error string

fun fb_error_msg :: "fb_error \<Rightarrow> string" where
  "fb_error_msg (Utf8_Error a b m) = m"
| "fb_error_msg (Fb_Error m) = m"

datatype header_type = HT_None | HT_Schema | HT_Dictionary | HT_Record_Batch | HT_Other string

fun header_name :: "header_type \<Rightarrow> string" where
  "header_name HT_None = ''NONE''"
| "header_name HT_Schema = ''Schema''"
| "header_name HT_Dictionary = ''DictionaryBatch''"
| "header_name HT_Record_Batch = ''RecordBatch''"
| "header_name (HT_Other n) = n"

record fb_batch =
  rb_length :: int
  rb_nodes :: "(int \<times> int) list option"
  rb_buffers :: "(int \<times> int) list option"
  rb_variadic :: "int list option"

text \<open>
  A message: the schema header is present or not and has a fields vector or not, the dictionary
  header has its record batch or not.
\<close>

record fb_message =
  fb_version :: nat
  fb_header_type :: header_type
  fb_body_length :: int
  fb_custom_metadata :: "(string option \<times> string option) list option"
  fb_schema_fields :: "bool option"
  fb_dictionary :: "fb_batch option option"
  fb_record_batch :: "fb_batch option"

record ('s, 'b, 'd) arrow_api =
  root_as_message :: "bytes \<Rightarrow> fb_error + fb_message"
  fb_to_schema :: "fb_message \<Rightarrow> 's outcome"
  read_dictionary :: "bytes \<Rightarrow> fb_message \<Rightarrow> 's \<Rightarrow> 'd \<Rightarrow> (string + 'd) outcome"
  read_record_batch :: "bytes \<Rightarrow> fb_message \<Rightarrow> 's \<Rightarrow> 'd \<Rightarrow> (string + 'b) outcome"
  no_dictionaries :: 'd

section \<open>Constants\<close>

definition INVALID_UTF8_METADATA_KEY :: string where
  "INVALID_UTF8_METADATA_KEY = CHR 0x00 # ''vgi_rpc.invalid_utf8_metadata''"

definition MAX_IPC_SCHEMA_BYTES :: nat where "MAX_IPC_SCHEMA_BYTES = 16 * 1024 * 1024"
definition MAX_IPC_MESSAGE_BYTES :: nat where "MAX_IPC_MESSAGE_BYTES = u32_max"
definition CONTINUATION_MARKER :: bytes where "CONTINUATION_MARKER = [0xFF, 0xFF, 0xFF, 0xFF]"

definition rpc_of_io :: "io_error \<Rightarrow> rpc_error" where
  "rpc_of_io e = rpc_error_new ''IOError'' (err_msg e)"

definition rpc_of_arrow :: "string \<Rightarrow> rpc_error" where
  "rpc_of_arrow m = rpc_error_new ''ArrowError'' m"

definition ipc_error :: "string \<Rightarrow> rpc_error" where
  "ipc_error m = rpc_error_new ''IPC'' m"

definition io_error_new :: "string \<Rightarrow> rpc_error" where
  "io_error_new m = rpc_error_new ''IOError'' m"

section \<open>Reading bytes\<close>

text \<open>
  The module's own \<^verbatim>\<open>read_exact\<close>: nothing at all before the end of file is \<^const>\<open>None\<close>
  (\<^verbatim>\<open>Ok(false)\<close>), an end of file in the middle is an error.
\<close>

function wire_read_loop :: "nat \<Rightarrow> bytes \<Rightarrow> reader \<Rightarrow> bytes option rpc_result \<times> reader" where
  "wire_read_loop n acc r =
     (if n = 0 then (Inr (Some acc), r)
      else case read_call n r of
        (Inr bs, r') \<Rightarrow>
          if bs = [] then
            (if acc = [] then (Inr None, r')
             else (Inl (io_error_new ''unexpected EOF in IPC message''), r'))
          else wire_read_loop (n - length bs) (acc @ bs) r'
      | (Inl e, r') \<Rightarrow>
          if err_kind e = Interrupted then wire_read_loop n acc r' else (Inl (rpc_of_io e), r'))"
  by pat_completeness auto
termination
proof (relation "measure (\<lambda>(n, acc, r). reader_weight r)", goal_cases)
  case (2 n acc r x r' bs)
  then have "reader_weight (snd (read_call n r)) < reader_weight r"
    by (intro read_call_weight) (auto split: prod.splits)
  then show ?case
    using 2 by (simp flip: 2(2))
next
  case (3 n acc r x r' e)
  then have "reader_weight (snd (read_call n r)) < reader_weight r"
    by (intro read_call_weight) (auto split: prod.splits)
  then show ?case
    using 3 by (simp flip: 3(2))
qed simp

declare wire_read_loop.simps [simp del]

definition wire_read_exact :: "nat \<Rightarrow> reader \<Rightarrow> bytes option rpc_result \<times> reader" where
  "wire_read_exact n r = wire_read_loop n [] r"

text \<open>\<^verbatim>\<open>r.take(n).read_to_end(..)\<close>: up to \<open>n\<close> bytes, fewer at the end of file.\<close>

function read_up_to :: "nat \<Rightarrow> bytes \<Rightarrow> reader \<Rightarrow> (io_error + bytes) \<times> reader" where
  "read_up_to n acc r =
     (if n = 0 then (Inr acc, r)
      else case read_call n r of
        (Inr bs, r') \<Rightarrow> if bs = [] then (Inr acc, r') else read_up_to (n - length bs) (acc @ bs) r'
      | (Inl e, r') \<Rightarrow> if err_kind e = Interrupted then read_up_to n acc r' else (Inl e, r'))"
  by pat_completeness auto
termination
proof (relation "measure (\<lambda>(n, acc, r). reader_weight r)", goal_cases)
  case (2 n acc r x r' bs)
  then have "reader_weight (snd (read_call n r)) < reader_weight r"
    by (intro read_call_weight) (auto split: prod.splits)
  then show ?case
    using 2 by (simp flip: 2(2))
next
  case (3 n acc r x r' e)
  then have "reader_weight (snd (read_call n r)) < reader_weight r"
    by (intro read_call_weight) (auto split: prod.splits)
  then show ?case
    using 3 by (simp flip: 3(2))
qed simp

declare read_up_to.simps [simp del]

section \<open>One framed message\<close>

record raw_message =
  rm_message_bytes :: bytes
  rm_body :: bytes
  rm_had_invalid_utf8 :: bool

datatype frame = Message raw_message | Eos

text \<open>
  The loop that parses the header, replacing a reported range of invalid UTF-8 by question marks
  and trying again. It ends when the parser accepts or reports another error.
\<close>

partial_function (option) parse_repair ::
  "(bytes \<Rightarrow> fb_error + fb_message) \<Rightarrow> bytes \<Rightarrow> bool
     \<Rightarrow> (fb_message \<times> bytes \<times> bool) rpc_result option" where
  "parse_repair rootf message_bytes bad =
     (case rootf message_bytes of
        Inr msg \<Rightarrow> Some (Inr (msg, message_bytes, bad))
      | Inl (Utf8_Error a b m) \<Rightarrow>
          if a < b \<and> b \<le> length message_bytes
          then parse_repair rootf (overwrite a (replicate (b - a) 0x3F) message_bytes) True
          else Some (Inl (ipc_error (''parse message header: '' @ m)))
      | Inl (Fb_Error m) \<Rightarrow> Some (Inl (ipc_error (''parse message header: '' @ m))))"

definition header_too_long :: "nat \<Rightarrow> nat \<Rightarrow> rpc_error" where
  "header_too_long n max_bytes =
     ipc_error (''IPC message header length '' @ show_nat n @ '' bytes exceeds cap ''
       @ show_nat max_bytes @ '' '' @ em_dash @ '' refusing to allocate before parsing'')"

definition body_too_long :: "int \<Rightarrow> nat \<Rightarrow> rpc_error" where
  "body_too_long n max_bytes =
     ipc_error (''IPC message bodyLength '' @ show_int n @ '' bytes exceeds cap ''
       @ show_nat max_bytes @ '' '' @ em_dash @ '' refusing to allocate before parsing'')"

text \<open>The part after the length prefix: header bytes, header, body.\<close>

definition read_body ::
  "fb_message \<Rightarrow> bytes \<Rightarrow> bool \<Rightarrow> nat \<Rightarrow> reader \<Rightarrow> frame option rpc_result \<times> reader" where
  "read_body msg message_bytes bad max_bytes r =
     (if fb_body_length msg < 0 then
        (Inl (ipc_error (''IPC message has negative bodyLength (''
           @ show_int (fb_body_length msg) @ '')'')), r)
      else if int max_bytes < fb_body_length msg then
        (Inl (body_too_long (fb_body_length msg) max_bytes), r)
      else
        let body_length = nat (fb_body_length msg);
            done = (\<lambda>body. Message \<lparr> rm_message_bytes = message_bytes, rm_body = body,
                                   rm_had_invalid_utf8 = bad \<rparr>)
        in if body_length = 0 then (Inr (Some (done [])), r)
           else case read_up_to body_length [] r of
             (Inl e, r') \<Rightarrow> (Inl (rpc_of_io e), r')
           | (Inr body, r') \<Rightarrow>
               if length body \<noteq> body_length
               then (Inl (io_error_new ''unexpected EOF in message body''), r')
               else (Inr (Some (done body)), r'))"

definition read_sized ::
  "(bytes \<Rightarrow> fb_error + fb_message) \<Rightarrow> nat \<Rightarrow> nat \<Rightarrow> reader
     \<Rightarrow> (frame option rpc_result \<times> reader) option" where
  "read_sized rootf n max_bytes r =
     (if n = 0 then Some (Inr (Some Eos), r)
      else if max_bytes < n then Some (Inl (header_too_long n max_bytes), r)
      else case wire_read_exact n r of
        (Inl e, r') \<Rightarrow> Some (Inl e, r')
      | (Inr None, r') \<Rightarrow> Some (Inl (io_error_new ''unexpected EOF in message body''), r')
      | (Inr (Some message_bytes), r') \<Rightarrow>
          map_option
            (\<lambda>res. case res of
                Inl e \<Rightarrow> (Inl e, r')
              | Inr (msg, message_bytes, bad) \<Rightarrow> read_body msg message_bytes bad max_bytes r')
            (parse_repair rootf message_bytes False))"

definition read_message_bytes ::
  "(bytes \<Rightarrow> fb_error + fb_message) \<Rightarrow> reader \<Rightarrow> nat \<Rightarrow> (frame option rpc_result \<times> reader) option" where
  "read_message_bytes rootf r max_bytes =
     (case wire_read_exact 4 r of
        (Inl e, r1) \<Rightarrow> Some (Inl e, r1)
      | (Inr None, r1) \<Rightarrow> Some (Inr None, r1)
      | (Inr (Some pre), r1) \<Rightarrow>
          if pre = CONTINUATION_MARKER then
            (case wire_read_exact 4 r1 of
               (Inl e, r2) \<Rightarrow> Some (Inl e, r2)
             | (Inr None, r2) \<Rightarrow> Some (Inr None, r2)
             | (Inr (Some sb), r2) \<Rightarrow> read_sized rootf (of_le sb) max_bytes r2)
          else read_sized rootf (of_le pre) max_bytes r1)"

section \<open>Descriptors, metadata and guarded decoding\<close>

fun validate_buffers :: "nat \<Rightarrow> (int \<times> int) list \<Rightarrow> unit rpc_result" where
  "validate_buffers body_len [] = Inr ()"
| "validate_buffers body_len ((off, len) # rest) =
     (if off < 0 \<or> len < 0 then Inl (ipc_error ''negative IPC buffer descriptor'')
      else case checked_add (nat off) (nat len) of
        None \<Rightarrow> Inl (ipc_error ''IPC buffer descriptor overflows'')
      | Some e \<Rightarrow>
          if body_len < e then Inl (ipc_error ''IPC buffer descriptor exceeds message body'')
          else validate_buffers body_len rest)"

definition validate_record_batch_buffers :: "fb_batch \<Rightarrow> nat \<Rightarrow> unit rpc_result" where
  "validate_record_batch_buffers rb body_len =
     (case rb_buffers rb of None \<Rightarrow> Inr () | Some bufs \<Rightarrow> validate_buffers body_len bufs)"

definition decode_guard :: "string \<Rightarrow> 'a outcome \<Rightarrow> 'a rpc_result" where
  "decode_guard what res =
     (case res of
        Panic \<Rightarrow> Inl (ipc_error (''panic decoding '' @ what @ '' (malformed frame)''))
      | Done x \<Rightarrow> Inr x)"

definition or_empty :: "string option \<Rightarrow> string" where
  "or_empty v = (case v of None \<Rightarrow> [] | Some s \<Rightarrow> s)"

definition parse_custom_metadata :: "fb_message \<Rightarrow> metadata" where
  "parse_custom_metadata msg =
     (case fb_custom_metadata msg of
        None \<Rightarrow> []
      | Some kvs \<Rightarrow> fold (\<lambda>(k, v) md. md_insert (or_empty k) (or_empty v) md) kvs [])"

section \<open>The stream reader\<close>

record ('s, 'd) stream_reader =
  sr_reader :: reader
  sr_schema :: 's
  sr_dictionaries :: 'd
  sr_finished :: bool
  sr_saw_eos :: bool
  sr_relaxed_schema :: "'s option"

definition stream_reader_new ::
  "('s, 'b, 'd) arrow_api \<Rightarrow> reader \<Rightarrow> (rpc_error + ('s, 'd) stream_reader) option" where
  "stream_reader_new A r =
     map_option
       (\<lambda>(res, r'). case res of
           Inl e \<Rightarrow> Inl e
         | Inr None \<Rightarrow> Inl (ipc_error ''empty IPC stream (no schema)'')
         | Inr (Some Eos) \<Rightarrow> Inl (ipc_error ''empty IPC stream (no schema)'')
         | Inr (Some (Message msg)) \<Rightarrow>
             if rm_had_invalid_utf8 msg
             then Inl (protocol_error ''Invalid UTF-8 in IPC schema metadata'')
             else
               and_then (map_err (\<lambda>e. ipc_error (''parse schema message: '' @ fb_error_msg e))
                           (root_as_message A (rm_message_bytes msg))) (\<lambda>fb.
               and_then (ensure (fb_header_type fb = HT_Schema)
                           (ipc_error (''expected Schema, got '' @ header_name (fb_header_type fb)))) (\<lambda>_.
               and_then (ok_or (ipc_error ''bad schema header'') (fb_schema_fields fb)) (\<lambda>has_fields.
               and_then (ensure has_fields (ipc_error ''schema message has no fields vector'')) (\<lambda>_.
               and_then (decode_guard ''schema message'' (fb_to_schema A fb)) (\<lambda>schema.
               Inr \<lparr> sr_reader = r', sr_schema = schema, sr_dictionaries = no_dictionaries A,
                     sr_finished = False, sr_saw_eos = False, sr_relaxed_schema = None \<rparr>))))))
       (read_message_bytes (root_as_message A) r MAX_IPC_SCHEMA_BYTES)"

definition decode_schema :: "('s, 'd) stream_reader \<Rightarrow> 's" where
  "decode_schema s = (case sr_relaxed_schema s of None \<Rightarrow> sr_schema s | Some t \<Rightarrow> t)"

text \<open>What one message does to the reader: an error, a batch to return, or another round.\<close>

datatype ('b, 'd) message_step = Yield 'b metadata | Skip 'd

definition message_step ::
  "('s, 'b, 'd) arrow_api \<Rightarrow> ('s, 'd) stream_reader \<Rightarrow> raw_message \<Rightarrow> ('b, 'd) message_step rpc_result" where
  "message_step A s msg =
     and_then (map_err (\<lambda>e. ipc_error (''parse message: '' @ fb_error_msg e))
                 (root_as_message A (rm_message_bytes msg))) (\<lambda>fb.
     case fb_header_type fb of
       HT_Dictionary \<Rightarrow>
         and_then (ok_or (ipc_error ''bad dictionary header'') (fb_dictionary fb)) (\<lambda>dict.
         and_then (case dict of None \<Rightarrow> Inr ()
                   | Some data \<Rightarrow> validate_record_batch_buffers data (length (rm_body msg))) (\<lambda>_.
         and_then (decode_guard ''dictionary batch''
                     (read_dictionary A (rm_body msg) fb (sr_schema s) (sr_dictionaries s))) (\<lambda>res.
         and_then (map_err rpc_of_arrow res) (\<lambda>d. Inr (Skip d)))))
     | HT_Record_Batch \<Rightarrow>
         and_then (ok_or (ipc_error ''bad record batch header'') (fb_record_batch fb)) (\<lambda>rb.
         and_then (validate_record_batch_buffers rb (length (rm_body msg))) (\<lambda>_.
         and_then (decode_guard ''record batch''
                     (read_record_batch A (rm_body msg) fb (decode_schema s) (sr_dictionaries s))) (\<lambda>res.
         and_then (map_err rpc_of_arrow res) (\<lambda>batch.
         let md = parse_custom_metadata fb;
             md = (if rm_had_invalid_utf8 msg then md_insert INVALID_UTF8_METADATA_KEY ''true'' md else md)
         in Inr (Yield batch md)))))
     | HT_Schema \<Rightarrow> Inl (ipc_error ''unexpected schema message mid-stream'')
     | HT_None \<Rightarrow> Inr (Skip (sr_dictionaries s))
     | HT_Other n \<Rightarrow> Inl (ipc_error (''unsupported message type '' @ n)))"

partial_function (option) read_next ::
  "('s, 'b, 'd) arrow_api \<Rightarrow> ('s, 'd) stream_reader
     \<Rightarrow> (('b \<times> metadata) option rpc_result \<times> ('s, 'd) stream_reader) option" where
  "read_next A s =
     (if sr_finished s then Some (Inr None, s)
      else case read_message_bytes (root_as_message A) (sr_reader s) MAX_IPC_MESSAGE_BYTES of
        None \<Rightarrow> None
      | Some (Inl e, r) \<Rightarrow> Some (Inl e, s\<lparr> sr_reader := r \<rparr>)
      | Some (Inr None, r) \<Rightarrow> Some (Inr None, s\<lparr> sr_reader := r, sr_finished := True \<rparr>)
      | Some (Inr (Some Eos), r) \<Rightarrow>
          Some (Inr None, s\<lparr> sr_reader := r, sr_finished := True, sr_saw_eos := True \<rparr>)
      | Some (Inr (Some (Message msg)), r) \<Rightarrow>
          (case message_step A (s\<lparr> sr_reader := r \<rparr>) msg of
             Inl e \<Rightarrow> Some (Inl e, s\<lparr> sr_reader := r \<rparr>)
           | Inr (Yield batch md) \<Rightarrow> Some (Inr (Some (batch, md)), s\<lparr> sr_reader := r \<rparr>)
           | Inr (Skip d) \<Rightarrow> read_next A (s\<lparr> sr_reader := r, sr_dictionaries := d \<rparr>)))"

partial_function (option) drain ::
  "('s, 'b, 'd) arrow_api \<Rightarrow> ('s, 'd) stream_reader \<Rightarrow> (unit rpc_result \<times> ('s, 'd) stream_reader) option" where
  "drain A s =
     (case read_next A s of
        None \<Rightarrow> None
      | Some (Inl e, s') \<Rightarrow> Some (Inl e, s')
      | Some (Inr None, s') \<Rightarrow> Some (Inr (), s')
      | Some (Inr (Some _), s') \<Rightarrow> drain A s')"


section \<open>Byte-level lemmas\<close>

lemma wire_read_loop_0 [simp]: "wire_read_loop 0 acc r = (Inr (Some acc), r)"
  by (simp add: wire_read_loop.simps)

lemma wire_read_loop_steps:
  "0 < n \<Longrightarrow> wire_read_loop n acc [] =
     (if acc = [] then (Inr None, []) else (Inl (io_error_new ''unexpected EOF in IPC message''), []))"
  "0 < n \<Longrightarrow> wire_read_loop n acc (Intr # r) = wire_read_loop n acc r"
  "0 < n \<Longrightarrow> bs \<noteq> [] \<Longrightarrow> wire_read_loop n acc (Chunk bs # r) =
     (if n < length bs then (Inr (Some (acc @ take n bs)), Chunk (drop n bs) # r)
      else wire_read_loop (n - length bs) (acc @ bs) r)"
  by (subst wire_read_loop.simps; auto simp: min_def)+

lemma wire_read_loop_clean:
  assumes "clean r" "n \<le> length (content r)"
  shows "\<exists>r'. wire_read_loop n acc r = (Inr (Some (acc @ take n (content r))), r')
     \<and> content r' = drop n (content r) \<and> clean r'"
  using assms
proof (induction r arbitrary: n acc rule: clean.induct)
  case (2 bs r)
  then show ?case
    using "2.IH" [of "n - length bs" "acc @ bs"]
    by (cases "n = 0"; cases "n < length bs") (auto simp: wire_read_loop_steps)
next
  case (3 r)
  then show ?case
    by (cases "n = 0") (auto simp: wire_read_loop_steps)
qed simp_all

lemma wire_read_exact_append:
  assumes "clean r" "content r = bs @ rest" "length bs = n"
  shows "\<exists>r'. wire_read_exact n r = (Inr (Some bs), r') \<and> content r' = rest \<and> clean r'"
  using wire_read_loop_clean [OF assms(1), of n "[]"] assms by (simp add: wire_read_exact_def)

lemma wire_read_exact_eof:
  assumes "clean r" "content r = []" "0 < n"
  shows "\<exists>r'. wire_read_exact n r = (Inr None, r')"
  using assms
proof (induction r rule: clean.induct)
  case (3 r)
  then show ?case
    by (auto simp: wire_read_exact_def wire_read_loop_steps)
qed (auto simp: wire_read_exact_def wire_read_loop_steps)

lemma wire_read_loop_length:
  "wire_read_loop n acc r = (Inr (Some bs), r') \<Longrightarrow> length bs = length acc + n"
proof (induction n acc r rule: wire_read_loop.induct)
  case (1 n acc r)
  show ?case
  proof (cases "n = 0")
    case False
    obtain res r1 where rc: "read_call n r = (res, r1)"
      by (cases "read_call n r")
    show ?thesis
    proof (cases res)
      case (Inl e)
      then show ?thesis
        using 1 False rc by (auto simp: wire_read_loop.simps [of n acc r] split: if_splits)
    next
      case (Inr x)
      have "length x \<le> n"
        using rc Inr by (cases "(n, r)" rule: read_call.cases) auto
      then show ?thesis
        using 1 False rc Inr by (auto simp: wire_read_loop.simps [of n acc r] split: if_splits)
    qed
  qed (use 1 in simp)
qed

lemma wire_read_exact_length: "wire_read_exact n r = (Inr (Some bs), r') \<Longrightarrow> length bs = n"
  by (auto simp: wire_read_exact_def dest: wire_read_loop_length)

lemma wire_read_loop_weight:
  "wire_read_loop n acc r = (res, r') \<Longrightarrow>
   reader_weight r' \<le> reader_weight r \<and> (0 < n \<and> r \<noteq> [] \<longrightarrow> reader_weight r' < reader_weight r)"
proof (induction n acc r rule: wire_read_loop.induct)
  case (1 n acc r)
  show ?case
  proof (cases "n = 0 \<or> r = []")
    case True
    then show ?thesis
      using "1.prems" by (auto simp: wire_read_loop.simps [of n acc] split: if_splits)
  next
    case False
    obtain x r1 where rc: "read_call n r = (x, r1)"
      by (cases "read_call n r")
    have w: "reader_weight r1 < reader_weight r"
      using read_call_weight [of n r] False rc by simp
    show ?thesis
    proof (cases x)
      case (Inl e)
      then show ?thesis
        using 1 False rc w by (auto simp: wire_read_loop.simps [of n acc r] split: if_splits)
    next
      case (Inr bs)
      then show ?thesis
        using 1 False rc w by (auto simp: wire_read_loop.simps [of n acc r] split: if_splits)
    qed
  qed
qed

lemma wire_read_exact_weight:
  assumes "wire_read_exact n r = (res, r')"
  shows "reader_weight r' \<le> reader_weight r"
    and "0 < n \<Longrightarrow> res = Inr (Some bs) \<Longrightarrow> reader_weight r' < reader_weight r"
proof -
  show "reader_weight r' \<le> reader_weight r"
    using assms wire_read_loop_weight by (auto simp: wire_read_exact_def)
  assume "0 < n" "res = Inr (Some bs)"
  then have "r \<noteq> []"
    using assms by (auto simp: wire_read_exact_def wire_read_loop_steps)
  then show "reader_weight r' < reader_weight r"
    using assms wire_read_loop_weight \<open>0 < n\<close> by (auto simp: wire_read_exact_def)
qed

lemma read_up_to_steps:
  "read_up_to 0 acc r = (Inr acc, r)"
  "0 < n \<Longrightarrow> read_up_to n acc [] = (Inr acc, [])"
  "0 < n \<Longrightarrow> read_up_to n acc (Intr # r) = read_up_to n acc r"
  "0 < n \<Longrightarrow> bs \<noteq> [] \<Longrightarrow> read_up_to n acc (Chunk bs # r) =
     (if n < length bs then (Inr (acc @ take n bs), Chunk (drop n bs) # r)
      else read_up_to (n - length bs) (acc @ bs) r)"
  by (subst read_up_to.simps; auto simp: min_def read_up_to.simps [of 0])+

lemma read_up_to_clean:
  assumes "clean r"
  shows "\<exists>r'. read_up_to n acc r = (Inr (acc @ take n (content r)), r')
     \<and> content r' = drop n (content r) \<and> clean r'"
  using assms
proof (induction r arbitrary: n acc rule: clean.induct)
  case (1 n acc)
  then show ?case
    by (cases "n = 0") (simp_all add: read_up_to_steps)
next
  case (2 bs r)
  then show ?case
    using "2.IH" [of "n - length bs" "acc @ bs"]
    by (cases "n = 0"; cases "n < length bs") (auto simp: read_up_to_steps)
next
  case (3 r)
  then show ?case
    by (cases "n = 0") (auto simp: read_up_to_steps)
qed simp_all

lemma read_up_to_weight: "read_up_to n acc r = (res, r') \<Longrightarrow> reader_weight r' \<le> reader_weight r"
proof (induction n acc r rule: read_up_to.induct)
  case (1 n acc r)
  show ?case
  proof (cases "n = 0 \<or> r = []")
    case True
    then show ?thesis
      using "1.prems" by (auto simp: read_up_to.simps [of n acc] split: if_splits)
  next
    case False
    obtain x r1 where rc: "read_call n r = (x, r1)"
      by (cases "read_call n r")
    have w: "reader_weight r1 < reader_weight r"
      using read_call_weight [of n r] False rc by simp
    show ?thesis
      using 1 False rc w
      by (cases x) (auto simp: read_up_to.simps [of n acc r] split: if_splits)
  qed
qed


section \<open>Repairing invalid UTF-8 ends\<close>

definition non_ascii :: "bytes \<Rightarrow> nat" where
  "non_ascii bs = length (filter (\<lambda>b. 0x80 \<le> b) bs)"

text \<open>A UTF-8 error names a range of the message that holds a byte outside ASCII.\<close>

definition utf8_contract :: "(bytes \<Rightarrow> fb_error + fb_message) \<Rightarrow> bool" where
  "utf8_contract rootf =
     (\<forall>mb a b m. rootf mb = Inl (Utf8_Error a b m) \<longrightarrow> a < b \<longrightarrow> b \<le> length mb \<longrightarrow>
        (\<exists>i. a \<le> i \<and> i < b \<and> 0x80 \<le> mb ! i))"

lemma non_ascii_append [simp]: "non_ascii (xs @ ys) = non_ascii xs + non_ascii ys"
  by (simp add: non_ascii_def)

lemma non_ascii_replicate [simp]: "non_ascii (replicate n 0x3F) = 0"
  by (simp add: non_ascii_def)

lemma non_ascii_pos: "i < length bs \<Longrightarrow> 0x80 \<le> bs ! i \<Longrightarrow> 0 < non_ascii bs"
  by (auto simp: non_ascii_def filter_empty_conv)

lemma non_ascii_repair:
  assumes "a < b" "b \<le> length mb" "a \<le> i" "i < b" "0x80 \<le> mb ! i"
  shows "non_ascii (overwrite a (replicate (b - a) 0x3F) mb) < non_ascii mb"
proof -
  have "take (a + (b - a)) mb = take a mb @ subslice a b mb"
    unfolding subslice_def by (rule take_add)
  then have mb: "take a mb @ subslice a b mb @ drop b mb = mb"
    using assms by (metis append_assoc append_take_drop_id le_add_diff_inverse less_imp_le_nat)
  have "subslice a b mb ! (i - a) = mb ! i"
    using assms by (simp add: subslice_def)
  then have "0 < non_ascii (subslice a b mb)"
    using assms by (intro non_ascii_pos [of "i - a"]) auto
  moreover have "non_ascii mb = non_ascii (take a mb) + non_ascii (subslice a b mb) + non_ascii (drop b mb)"
    using arg_cong [OF mb, of non_ascii] by simp
  ultimately show ?thesis
    using assms by (simp add: overwrite_def)
qed

lemma parse_repair_terminates:
  assumes "utf8_contract rootf"
  shows "\<exists>res. parse_repair rootf mb bad = Some res"
proof (induction "non_ascii mb" arbitrary: mb bad rule: less_induct)
  case less
  show ?case
  proof (cases "rootf mb")
    case (Inl e)
    show ?thesis
    proof (cases e)
      case (Utf8_Error a b m)
      show ?thesis
      proof (cases "a < b \<and> b \<le> length mb")
        case True
        then obtain i where "a \<le> i" "i < b" "0x80 \<le> mb ! i"
          using assms Inl Utf8_Error unfolding utf8_contract_def by blast
        then have "non_ascii (overwrite a (replicate (b - a) 0x3F) mb) < non_ascii mb"
          using True by (intro non_ascii_repair) auto
        then obtain res where "parse_repair rootf (overwrite a (replicate (b - a) 0x3F) mb) True = Some res"
          using less by blast
        then show ?thesis
          using True Inl Utf8_Error by (simp add: parse_repair.simps [of rootf mb])
      qed (use Inl Utf8_Error in \<open>auto simp: parse_repair.simps [of rootf mb]\<close>)
    qed (use Inl in \<open>simp add: parse_repair.simps [of rootf mb]\<close>)
  qed (simp add: parse_repair.simps [of rootf mb])
qed

lemma parse_repair_length:
  assumes "parse_repair rootf mb bad = Some (Inr (msg, mb', bad'))"
  shows "length mb' = length mb \<and> rootf mb' = Inr msg"
proof -
  have "\<forall>msg mb' bad'. res = Inr (msg, mb', bad') \<longrightarrow> length mb' = length mb \<and> rootf mb' = Inr msg"
    if "parse_repair rootf mb bad = Some res" for rootf mb bad res
    using that
  proof (rule parse_repair.raw_induct [rotated, where P = "\<lambda>rootf mb bad res. \<forall>msg mb' bad'.
      res = Inr (msg, mb', bad') \<longrightarrow> length mb' = length mb \<and> rootf mb' = Inr msg"])
    fix rec :: "(bytes \<Rightarrow> fb_error + fb_message) \<Rightarrow> bytes \<Rightarrow> bool \<Rightarrow> (fb_message \<times> bytes \<times> bool) rpc_result option"
      and rootf :: "bytes \<Rightarrow> fb_error + fb_message" and mb :: bytes and bad :: bool and res
    assume IH: "\<And>rootf mb bad res. rec rootf mb bad = Some res \<Longrightarrow> \<forall>msg mb' bad'.
        res = Inr (msg, mb', bad') \<longrightarrow> length mb' = length mb \<and> rootf mb' = Inr msg"
      and body: "(case rootf mb of
        Inr msg \<Rightarrow> Some (Inr (msg, mb, bad))
      | Inl (Utf8_Error a b m) \<Rightarrow>
          if a < b \<and> b \<le> length mb
          then rec rootf (overwrite a (replicate (b - a) 0x3F) mb) True
          else Some (Inl (ipc_error (''parse message header: '' @ m)))
      | Inl (Fb_Error m) \<Rightarrow> Some (Inl (ipc_error (''parse message header: '' @ m)))) = Some res"
    show "\<forall>msg mb' bad'. res = Inr (msg, mb', bad') \<longrightarrow> length mb' = length mb \<and> rootf mb' = Inr msg"
    proof (cases "rootf mb")
      case (Inl e)
      show ?thesis
      proof (cases e)
        case (Utf8_Error a b m)
        then show ?thesis
          using body Inl IH [of rootf "overwrite a (replicate (b - a) 0x3F) mb" True res]
          by (auto split: if_splits)
      qed (use body Inl in auto)
    qed (use body in auto)
  qed
  then show ?thesis
    using assms by blast
qed


section \<open>The encapsulated message format\<close>

definition encapsulate :: "bytes \<Rightarrow> bytes \<Rightarrow> bytes" where
  "encapsulate msg body = CONTINUATION_MARKER @ le_bytes 4 (length msg) @ msg @ body"

definition eos_marker :: bytes where
  "eos_marker = CONTINUATION_MARKER @ le_bytes 4 0"

text \<open>A message within the cap whose header declares the length of the body that follows it.\<close>

definition frame_ok :: "(bytes \<Rightarrow> fb_error + fb_message) \<Rightarrow> nat \<Rightarrow> bytes \<times> bytes \<Rightarrow> bool" where
  "frame_ok rootf cap mb =
     (0 < length (fst mb) \<and> length (fst mb) \<le> cap \<and> length (snd mb) \<le> cap \<and> cap \<le> u32_max
      \<and> (case rootf (fst mb) of Inl e \<Rightarrow> False | Inr fb \<Rightarrow> fb_body_length fb = int (length (snd mb))))"

definition raw_of :: "bytes \<times> bytes \<Rightarrow> raw_message" where
  "raw_of mb = \<lparr> rm_message_bytes = fst mb, rm_body = snd mb, rm_had_invalid_utf8 = False \<rparr>"

lemma length_CONTINUATION_MARKER [simp]:
  "length CONTINUATION_MARKER = 4"
  "CONTINUATION_MARKER \<noteq> []"
  by (simp_all add: CONTINUATION_MARKER_def)

lemma le4_round: "n \<le> u32_max \<Longrightarrow> of_le (le_bytes 4 n) = n"
  by (intro of_le_le_bytes) (simp add: u32_max_def)

lemma read_marker:
  assumes "clean r" "content r = CONTINUATION_MARKER @ le_bytes 4 n @ rest" "n \<le> u32_max"
  shows "\<exists>r'. read_message_bytes rootf r cap = read_sized rootf n cap r' \<and> content r' = rest \<and> clean r'"
proof -
  obtain r1 where 1: "wire_read_exact 4 r = (Inr (Some CONTINUATION_MARKER), r1)"
    "content r1 = le_bytes 4 n @ rest" "clean r1"
    using wire_read_exact_append [OF assms(1,2)] by auto
  obtain r2 where "wire_read_exact 4 r1 = (Inr (Some (le_bytes 4 n)), r2)" "content r2 = rest" "clean r2"
    using wire_read_exact_append [OF 1(3,2)] by auto
  then show ?thesis
    using 1 by (auto simp: read_message_bytes_def le4_round [OF assms(3)])
qed

lemma read_eos:
  assumes "clean r" "content r = eos_marker @ rest"
  shows "\<exists>r'. read_message_bytes rootf r cap = Some (Inr (Some Eos), r') \<and> content r' = rest \<and> clean r'"
  using read_marker [OF assms(1), of 0 rest rootf cap] assms(2)
  by (auto simp: eos_marker_def read_sized_def)

lemma read_eof:
  assumes "clean r" "content r = []"
  shows "\<exists>r'. read_message_bytes rootf r cap = Some (Inr None, r')"
  using wire_read_exact_eof [OF assms, of 4] by (auto simp: read_message_bytes_def)

lemma read_body_ok:
  assumes "clean r" "content r = body @ rest" "fb_body_length fb = int (length body)" "length body \<le> cap"
  shows "\<exists>r'. read_body fb msg bad cap r =
      (Inr (Some (Message \<lparr> rm_message_bytes = msg, rm_body = body, rm_had_invalid_utf8 = bad \<rparr>)), r')
    \<and> content r' = rest \<and> clean r'"
  using read_up_to_clean [OF assms(1), of "length body" "[]"] assms by (auto simp: read_body_def Let_def)

lemma read_encapsulated:
  assumes "clean r" "content r = encapsulate msg body @ rest" "frame_ok rootf cap (msg, body)"
  shows "\<exists>r'. read_message_bytes rootf r cap = Some (Inr (Some (Message (raw_of (msg, body)))), r')
    \<and> content r' = rest \<and> clean r'"
proof -
  obtain fb where f: "rootf msg = Inr fb" "fb_body_length fb = int (length body)" "msg \<noteq> []"
    "length msg \<le> cap" "length body \<le> cap" "length msg \<le> u32_max"
    using assms(3) by (auto simp: frame_ok_def split: sum.splits)
  obtain r1 where 1: "read_message_bytes rootf r cap = read_sized rootf (length msg) cap r1"
    "content r1 = msg @ body @ rest" "clean r1"
    using read_marker [OF assms(1), of "length msg" "msg @ body @ rest"] assms(2) f(6)
    by (auto simp: encapsulate_def)
  obtain r2 where 2: "wire_read_exact (length msg) r1 = (Inr (Some msg), r2)" "content r2 = body @ rest"
    "clean r2"
    using wire_read_exact_append [OF 1(3,2) refl] by auto
  have rep: "parse_repair rootf msg False = Some (Inr (fb, msg, False))"
    using f(1) by (simp add: parse_repair.simps)
  obtain r3 where "read_body fb msg False cap r2 = (Inr (Some (Message (raw_of (msg, body)))), r3)"
    "content r3 = rest" "clean r3"
    using read_body_ok [OF 2(3,2) f(2,5), of msg False] by (auto simp: raw_of_def)
  then show ?thesis
    using 1(1) 2(1) f by (simp add: read_sized_def rep)
qed

fun read_frames ::
  "(bytes \<Rightarrow> fb_error + fb_message) \<Rightarrow> nat \<Rightarrow> nat \<Rightarrow> reader \<Rightarrow> (raw_message list \<times> reader) option" where
  "read_frames rootf cap 0 r = Some ([], r)"
| "read_frames rootf cap (Suc n) r =
     (case read_message_bytes rootf r cap of
        Some (Inr (Some (Message m)), r') \<Rightarrow>
          map_option (\<lambda>(ms, r''). (m # ms, r'')) (read_frames rootf cap n r')
      | _ \<Rightarrow> None)"

lemma read_frames_encapsulated:
  assumes "clean r" "content r = concat (map (\<lambda>mb. encapsulate (fst mb) (snd mb)) fs) @ rest"
    "list_all (frame_ok rootf cap) fs"
  shows "\<exists>r'. read_frames rootf cap (length fs) r = Some (map raw_of fs, r') \<and> content r' = rest \<and> clean r'"
  using assms
proof (induction fs arbitrary: r)
  case (Cons f fs)
  obtain msg body where f: "f = (msg, body)"
    by (cases f)
  obtain r1 where 1: "read_message_bytes rootf r cap = Some (Inr (Some (Message (raw_of f))), r1)"
    "content r1 = concat (map (\<lambda>mb. encapsulate (fst mb) (snd mb)) fs) @ rest" "clean r1"
    using read_encapsulated [OF Cons.prems(1), of msg body
        "concat (map (\<lambda>mb. encapsulate (fst mb) (snd mb)) fs) @ rest"] Cons.prems(2,3)
    by (auto simp: f)
  then show ?case
    using Cons.IH [OF 1(3,2)] Cons.prems(3) by auto
qed simp

section \<open>Truncated streams\<close>

lemma wire_read_loop_short:
  assumes "clean r" "length (content r) < n" "acc @ content r \<noteq> []"
  shows "\<exists>e r'. wire_read_loop n acc r = (Inl e, r')"
  using assms
proof (induction r arbitrary: n acc rule: clean.induct)
  case (2 bs r)
  then show ?case
    using "2.IH" [of "n - length bs" "acc @ bs"] by (cases "n < length bs") (auto simp: wire_read_loop_steps)
next
  case (3 r)
  then show ?case
    by (cases "n = 0") (auto simp: wire_read_loop_steps)
qed (auto simp: wire_read_loop_steps)

lemma wire_read_exact_short:
  "clean r \<Longrightarrow> length (content r) < n \<Longrightarrow> content r \<noteq> [] \<Longrightarrow> \<exists>e r'. wire_read_exact n r = (Inl e, r')"
  using wire_read_loop_short [of r n "[]"] by (simp add: wire_read_exact_def)

lemma read_truncated_body:
  assumes "clean r" "length (content r) < length body" "fb_body_length fb = int (length body)"
    "length body \<le> cap"
  shows "\<exists>e r'. read_body fb msg bad cap r = (Inl e, r')"
  using read_up_to_clean [OF assms(1), of "length body" "[]"] assms by (auto simp: read_body_def Let_def)

lemma read_truncated:
  assumes r: "clean r" "content r = take n (encapsulate msg body)" and ok: "frame_ok rootf cap (msg, body)"
    and n: "0 < n" "n \<noteq> 4" "n < length (encapsulate msg body)"
  shows "\<exists>e r'. read_message_bytes rootf r cap = Some (Inl e, r')"
proof -
  let ?L = "le_bytes 4 (length msg)"
  obtain fb where f: "rootf msg = Inr fb" "fb_body_length fb = int (length body)" "msg \<noteq> []"
    "length msg \<le> cap" "length body \<le> cap" "length msg \<le> u32_max"
    using ok by (auto simp: frame_ok_def split: sum.splits)
  consider (a) "n < 4" | (b) "4 < n" "n < 8" | (c) "8 \<le> n" "n < 8 + length msg" | (d) "8 + length msg \<le> n"
    using n by linarith
  then show ?thesis
  proof cases
    case a
    then show ?thesis
      using wire_read_exact_short [OF r(1), of 4] r(2) n
      by (auto simp: encapsulate_def read_message_bytes_def)
  next
    case b
    then have "content r = CONTINUATION_MARKER @ take (n - 4) ?L"
      using r(2) by (simp add: encapsulate_def)
    then obtain r1 where 1: "wire_read_exact 4 r = (Inr (Some CONTINUATION_MARKER), r1)"
      "content r1 = take (n - 4) ?L" "clean r1"
      using wire_read_exact_append [OF r(1)] by force
    moreover have "n - 4 < 4" "0 < n - 4"
      using b by linarith+
    ultimately show ?thesis
      using wire_read_exact_short [OF 1(3), of 4] by (auto simp: read_message_bytes_def)
  next
    case c
    then have "content r = CONTINUATION_MARKER @ ?L @ take (n - 8) msg"
      using r(2) by (simp add: encapsulate_def)
    then obtain r1 where 1: "read_message_bytes rootf r cap = read_sized rootf (length msg) cap r1"
      "content r1 = take (n - 8) msg" "clean r1"
      using read_marker [OF r(1) _ f(6)] by metis
    have "\<exists>e r'. read_sized rootf (length msg) cap r1 = Some (Inl e, r')"
    proof (cases "content r1 = []")
      case True
      then show ?thesis
        using wire_read_exact_eof [OF 1(3), of "length msg"] f by (auto simp: read_sized_def)
    next
      case False
      moreover have "length (content r1) < length msg"
        using 1(2) c by simp
      ultimately show ?thesis
        using wire_read_exact_short [OF 1(3), of "length msg"] f by (auto simp: read_sized_def)
    qed
    then show ?thesis
      by (simp add: 1(1))
  next
    case d
    then have "content r = CONTINUATION_MARKER @ ?L @ msg @ take (n - 8 - length msg) body"
      using r(2) by (simp add: encapsulate_def)
    then obtain r1 where 1: "read_message_bytes rootf r cap = read_sized rootf (length msg) cap r1"
      "content r1 = msg @ take (n - 8 - length msg) body" "clean r1"
      using read_marker [OF r(1) _ f(6)] by metis
    obtain r2 where 2: "wire_read_exact (length msg) r1 = (Inr (Some msg), r2)"
      "content r2 = take (n - 8 - length msg) body" "clean r2"
      using wire_read_exact_append [OF 1(3,2) refl] by auto
    have "length (content r2) < length body"
      using 2(2) n d by (simp add: encapsulate_def)
    then have "\<exists>e r'. read_body fb msg False cap r2 = (Inl e, r')"
      using read_truncated_body [OF 2(3) _ f(2,5)] by blast
    then show ?thesis
      using 1(1) 2(1) f by (auto simp: read_sized_def parse_repair.simps [of rootf msg])
  qed
qed

lemma read_truncated_marker:
  assumes r: "clean r" "content r = CONTINUATION_MARKER"
  shows "\<exists>r'. read_message_bytes rootf r cap = Some (Inr None, r')"
proof -
  obtain r1 where 1: "wire_read_exact 4 r = (Inr (Some CONTINUATION_MARKER), r1)" "content r1 = []" "clean r1"
    using wire_read_exact_append [OF r(1), of CONTINUATION_MARKER "[]"] r(2) by auto
  then show ?thesis
    using wire_read_exact_eof [OF 1(3,2), of 4] by (auto simp: read_message_bytes_def)
qed


section \<open>Bounds and termination for every input\<close>

lemma read_body_bound:
  "read_body msg mb bad cap r = (Inr (Some (Message raw)), r') \<Longrightarrow>
   rm_message_bytes raw = mb \<and> length (rm_body raw) \<le> cap \<and> reader_weight r' \<le> reader_weight r"
  by (auto simp: read_body_def Let_def dest: read_up_to_weight split: if_splits prod.splits sum.splits)

lemma read_sized_bound:
  assumes "read_sized rootf n cap r = Some (Inr (Some (Message raw)), r')"
  shows "length (rm_message_bytes raw) \<le> cap \<and> length (rm_body raw) \<le> cap
    \<and> reader_weight r' \<le> reader_weight r"
proof -
  have n: "n \<noteq> 0" "n \<le> cap"
    using assms by (auto simp: read_sized_def split: if_splits)
  obtain res r1 where w: "wire_read_exact n r = (res, r1)"
    by (cases "wire_read_exact n r")
  then obtain mb where mb: "res = Inr (Some mb)"
    using assms n by (auto simp: read_sized_def split: sum.splits option.splits)
  obtain pr where pr: "parse_repair rootf mb False = Some pr"
    using assms n w mb by (cases "parse_repair rootf mb False") (auto simp: read_sized_def)
  then obtain msg mb' bad where p: "parse_repair rootf mb False = Some (Inr (msg, mb', bad))"
    and b: "read_body msg mb' bad cap r1 = (Inr (Some (Message raw)), r')"
    using assms n w mb by (cases pr) (auto simp: read_sized_def)
  have "length mb' = n"
    using parse_repair_length [OF p] wire_read_exact_length w mb by auto
  then show ?thesis
    using read_body_bound [OF b] n wire_read_exact_weight(1) [OF w] by auto
qed

lemma read_message_bound:
  assumes "read_message_bytes rootf r cap = Some (Inr (Some (Message raw)), r')"
  shows "length (rm_message_bytes raw) \<le> cap \<and> length (rm_body raw) \<le> cap
    \<and> reader_weight r' < reader_weight r"
proof -
  obtain res r1 where 1: "wire_read_exact 4 r = (res, r1)"
    by (cases "wire_read_exact 4 r")
  then obtain pre where pre: "res = Inr (Some pre)"
    using assms by (auto simp: read_message_bytes_def split: sum.splits option.splits)
  have w1: "reader_weight r1 < reader_weight r"
    using wire_read_exact_weight(2) [OF 1, of pre] pre by simp
  show ?thesis
  proof (cases "pre = CONTINUATION_MARKER")
    case True
    obtain res2 r2 where 2: "wire_read_exact 4 r1 = (res2, r2)"
      by (cases "wire_read_exact 4 r1")
    then obtain sb where "res2 = Inr (Some sb)" "read_sized rootf (of_le sb) cap r2 = Some (Inr (Some (Message raw)), r')"
      using assms 1 pre True by (auto simp: read_message_bytes_def split: sum.splits option.splits)
    then show ?thesis
      using read_sized_bound [of rootf "of_le sb" cap r2 raw r'] wire_read_exact_weight(1) [OF 2] w1 by auto
  next
    case False
    then have "read_sized rootf (of_le pre) cap r1 = Some (Inr (Some (Message raw)), r')"
      using assms 1 pre by (simp add: read_message_bytes_def)
    then show ?thesis
      using read_sized_bound [of rootf "of_le pre" cap r1 raw r'] w1 by auto
  qed
qed

lemma read_sized_terminates:
  assumes "utf8_contract rootf"
  shows "\<exists>res. read_sized rootf n cap r = Some res"
proof (cases "n = 0 \<or> cap < n")
  case False
  obtain res r' where w: "wire_read_exact n r = (res, r')"
    by (cases "wire_read_exact n r")
  consider (err) e where "res = Inl e" | (eof) "res = Inr None" | (ok) mb where "res = Inr (Some mb)"
    by (metis not_None_eq old.sum.exhaust)
  then show ?thesis
  proof cases
    case ok
    then show ?thesis
      using False w parse_repair_terminates [OF assms, of mb False] by (auto simp: read_sized_def)
  qed (use False w in \<open>simp_all add: read_sized_def\<close>)
qed (auto simp: read_sized_def)

lemma read_message_terminates:
  assumes "utf8_contract rootf"
  shows "\<exists>res. read_message_bytes rootf r cap = Some res"
  using read_sized_terminates [OF assms]
  by (simp add: read_message_bytes_def split: prod.splits sum.splits option.splits)

lemma read_next_terminates:
  assumes "utf8_contract (root_as_message A)"
  shows "\<exists>res. read_next A s = Some res"
proof (induction "reader_weight (sr_reader s)" arbitrary: s rule: less_induct)
  case less
  show ?case
  proof (cases "sr_finished s")
    case False
    obtain res r where rd: "read_message_bytes (root_as_message A) (sr_reader s) MAX_IPC_MESSAGE_BYTES = Some (res, r)"
      using read_message_terminates [OF assms] by fastforce
    show ?thesis
    proof (cases "\<exists>msg d. res = Inr (Some (Message msg)) \<and> message_step A (s\<lparr> sr_reader := r \<rparr>) msg = Inr (Skip d)")
      case True
      then obtain msg d where m: "res = Inr (Some (Message msg))"
        "message_step A (s\<lparr> sr_reader := r \<rparr>) msg = Inr (Skip d)"
        by blast
      have "reader_weight r < reader_weight (sr_reader s)"
        using read_message_bound rd m(1) by blast
      then obtain res' where "read_next A (s\<lparr> sr_reader := r, sr_dictionaries := d \<rparr>) = Some res'"
        using less [of "s\<lparr> sr_reader := r, sr_dictionaries := d \<rparr>"] by auto
      then show ?thesis
        using False rd m by (simp add: read_next.simps [of A s])
    next
      case other: False
      show ?thesis
        using False rd other
        by (subst read_next.simps)
          (auto split: sum.splits option.splits frame.splits message_step.splits)
    qed
  qed (simp add: read_next.simps)
qed


lemma validate_buffers_iff:
  "n \<le> u64_max \<Longrightarrow> validate_buffers n bufs = Inr () \<longleftrightarrow>
   list_all (\<lambda>(off, len). 0 \<le> off \<and> 0 \<le> len \<and> off + len \<le> int n) bufs"
proof (induction bufs)
  case (Cons b bufs)
  obtain off len where "b = (off, len)"
    by (cases b)
  with Cons show ?case
    by (auto simp: not_less nat_add_distrib [symmetric] split: option.splits)
qed simp

section \<open>Properties\<close>

text \<open>C14. Framing: a stream of encapsulated messages followed by the end-of-stream marker is read
  back message by message with header and body intact, then the marker, and the bytes after the
  marker (the next stream on the same connection) are left unread, for every fragmentation of the
  input into reads.\<close>

theorem frames_read_back:
  assumes "clean r" "list_all (frame_ok rootf cap) fs"
    "content r = concat (map (\<lambda>mb. encapsulate (fst mb) (snd mb)) fs) @ eos_marker @ rest"
  shows "\<exists>r1 r2. read_frames rootf cap (length fs) r = Some (map raw_of fs, r1)
    \<and> read_message_bytes rootf r1 cap = Some (Inr (Some Eos), r2) \<and> content r2 = rest"
  using read_frames_encapsulated [OF assms(1,3,2)] read_eos by blast

definition demo_message :: "int \<Rightarrow> fb_message" where
  "demo_message n =
     \<lparr> fb_version = 4, fb_header_type = HT_Record_Batch, fb_body_length = n,
       fb_custom_metadata = None, fb_schema_fields = None, fb_dictionary = None,
       fb_record_batch = None \<rparr>"

theorem frames_read_back_witness:
  "\<exists>r1 r2. read_frames (\<lambda>_. Inr (demo_message 2)) 100 2
       [Chunk (encapsulate [1, 2, 3] [4, 5]), Intr,
        Chunk (encapsulate [6] [7, 8] @ eos_marker @ [9])]
     = Some (map raw_of [([1, 2, 3], [4, 5]), ([6], [7, 8])], r1)
     \<and> read_message_bytes (\<lambda>_. Inr (demo_message 2)) r1 100 = Some (Inr (Some Eos), r2)
     \<and> content r2 = [9]"
proof -
  let ?fs = "[([1, 2, 3], [4, 5]), ([6], [7, 8])] :: (bytes \<times> bytes) list"
  let ?r = "[Chunk (encapsulate [1, 2, 3] [4, 5]), Intr, Chunk (encapsulate [6] [7, 8] @ eos_marker @ [9])]"
  have "list_all (frame_ok (\<lambda>_. Inr (demo_message 2)) 100) ?fs"
    by (simp add: frame_ok_def demo_message_def u32_max_def)
  moreover have "clean ?r"
    "content ?r = concat (map (\<lambda>mb. encapsulate (fst mb) (snd mb)) ?fs) @ eos_marker @ [9]"
    by (simp_all add: encapsulate_def)
  ultimately show ?thesis
    using frames_read_back [of ?r "\<lambda>_. Inr (demo_message 2)" 100 ?fs "[9]"]
    by (simp add: numeral_2_eq_2 del: read_frames.simps)
qed

text \<open>C15. A stream that ends inside a message is an error, whatever the position, with one
  exception: when the input stops right after the four bytes of the continuation marker the reader
  reports an ordinary end of file.\<close>

theorem truncation_is_detected:
  assumes "clean r" "frame_ok rootf cap (msg, body)" "content r = take n (encapsulate msg body)"
    "0 < n" "n < length (encapsulate msg body)"
  shows "if n = 4 then \<exists>r'. read_message_bytes rootf r cap = Some (Inr None, r')
    else \<exists>e r'. read_message_bytes rootf r cap = Some (Inl e, r')"
proof (cases "n = 4")
  case True
  then have "content r = CONTINUATION_MARKER"
    using assms(3) by (simp add: encapsulate_def)
  then show ?thesis
    using read_truncated_marker [OF assms(1)] True by simp
qed (use read_truncated [OF assms(1,3,2,4)] assms(5) in simp)

theorem truncation_is_detected_witness:
  "(\<exists>r'. read_message_bytes (\<lambda>_. Inr (demo_message 2)) [Chunk CONTINUATION_MARKER] 100 = Some (Inr None, r'))
   \<and> (\<exists>e r'. read_message_bytes (\<lambda>_. Inr (demo_message 2)) [Chunk (take 12 (encapsulate [1, 2, 3] [4, 5]))] 100
        = Some (Inl e, r'))"
proof -
  have ok: "frame_ok (\<lambda>_. Inr (demo_message 2)) 100 ([1, 2, 3], [4, 5])"
    by (simp add: frame_ok_def demo_message_def u32_max_def)
  have len: "length (encapsulate [1, 2, 3] [4, 5]) = 13"
    "take 4 (encapsulate [1, 2, 3] [4, 5]) = CONTINUATION_MARKER"
    by (simp_all add: encapsulate_def)
  have ne: "encapsulate [1, 2, 3] [4, 5] \<noteq> []"
    using len(1) by auto
  show ?thesis
    using truncation_is_detected [OF _ ok, of "[Chunk CONTINUATION_MARKER]" 4]
      truncation_is_detected [OF _ ok, of "[Chunk (take 12 (encapsulate [1, 2, 3] [4, 5]))]" 12]
    by (simp add: len ne)
qed

text \<open>C16. Whatever the peer sends, a message that is returned has header and body within the cap,
  so the bytes held for it are bounded by the cap and not by the lengths the peer claims.\<close>

theorem message_bytes_are_capped:
  assumes "read_message_bytes rootf r cap = Some (Inr (Some (Message raw)), r')"
  shows "length (rm_message_bytes raw) \<le> cap \<and> length (rm_body raw) \<le> cap"
  using read_message_bound [OF assms] by simp

theorem message_bytes_are_capped_witness:
  "\<exists>raw r'. read_message_bytes (\<lambda>_. Inr (demo_message 2)) [Chunk (encapsulate [1, 2, 3] [4, 5])] 100
       = Some (Inr (Some (Message raw)), r')
     \<and> length (rm_message_bytes raw) \<le> 100 \<and> length (rm_body raw) \<le> 100"
proof -
  have ok: "frame_ok (\<lambda>_. Inr (demo_message 2)) 100 ([1, 2, 3], [4, 5])"
    by (simp add: frame_ok_def demo_message_def u32_max_def)
  obtain raw r' where "read_message_bytes (\<lambda>_. Inr (demo_message 2))
      [Chunk (encapsulate [1, 2, 3] [4, 5])] 100 = Some (Inr (Some (Message raw)), r')"
    using read_encapsulated [OF _ _ ok, of "[Chunk (encapsulate [1, 2, 3] [4, 5])]" "[]"]
    by (auto simp: encapsulate_def)
  then show ?thesis
    using message_bytes_are_capped by blast
qed

text \<open>C17. Reading the next batch returns for every input: the loop over messages and the loop that
  repairs invalid UTF-8 in a header both end, provided the parser's UTF-8 errors name a range with a
  byte outside ASCII.\<close>

theorem read_next_returns:
  assumes "utf8_contract (root_as_message A)"
  shows "\<exists>res s'. read_next A s = Some (res, s')"
  using read_next_terminates [OF assms, of s] by (metis surj_pair)

theorem read_next_returns_witness:
  "\<exists>res s'. read_next
       \<lparr> root_as_message = (\<lambda>mb. if mb = [0xC3] then Inl (Utf8_Error 0 1 ''utf8'') else Inr (demo_message 0)),
         fb_to_schema = (\<lambda>_. Done ()), read_dictionary = (\<lambda>_ _ _ d. Done (Inr d)),
         read_record_batch = (\<lambda>_ _ _ _. Done (Inr ())), no_dictionaries = () \<rparr>
       \<lparr> sr_reader = [Chunk (encapsulate [0xC3] [])], sr_schema = (), sr_dictionaries = (),
         sr_finished = False, sr_saw_eos = False, sr_relaxed_schema = None \<rparr>
     = Some (res, s')"
  by (rule read_next_returns) (simp add: utf8_contract_def)

text \<open>The descriptor check accepts a record-batch header exactly when every buffer it describes
  lies inside the message body, so no later slice of the body can leave it.\<close>

theorem buffers_validated_iff_inside_body:
  assumes "n \<le> u64_max"
  shows "validate_record_batch_buffers rb n = Inr () \<longleftrightarrow>
    (case rb_buffers rb of
       None \<Rightarrow> True
     | Some bufs \<Rightarrow> list_all (\<lambda>(off, len). 0 \<le> off \<and> 0 \<le> len \<and> off + len \<le> int n) bufs)"
  using validate_buffers_iff [OF assms]
  by (simp add: validate_record_batch_buffers_def split: option.splits)

theorem buffers_validated_iff_inside_body_witness:
  "validate_record_batch_buffers
     \<lparr> rb_length = 1, rb_nodes = None, rb_buffers = Some [(0, 8), (8, 9)], rb_variadic = None \<rparr> 16 \<noteq> Inr ()"
  by (subst buffers_validated_iff_inside_body) (simp_all add: u64_max_def)

end
