(* ===== verification/Wire_Write.thy ===== *)
theory Wire_Write
  imports Wire_Read
begin

text \<open>
  Writing Arrow IPC streams: the writer half of \<^verbatim>\<open>vgi-rpc/src/wire.rs\<close>. The transport is a \<open>writer\<close>:
  the bytes it has accepted, the sizes of the slices it was offered, a script of how the next
  \<^verbatim>\<open>Write::write\<close> calls behave (accept at most so many bytes, be interrupted, fail; when the script
  is exhausted every call accepts what it is offered), the results of the next
  \<^verbatim>\<open>Write::flush\<close> calls, and the capacity when the target is a \<^verbatim>\<open>Cursor\<close> over a fixed slice. The functions of the Arrow crates the writer calls, \<^verbatim>\<open>write_message\<close>
  among them, are the record \<open>arrow_writer_api\<close>.
\<close>

section \<open>The transport\<close>

datatype write_event = Accept nat | W_Intr | W_Fail io_error

record writer =
  w_script :: "write_event list"
  w_out :: bytes
  w_calls :: "nat list"
  w_flushes :: "io_error option list"
  w_room :: "nat option"

definition accepted :: "bytes \<Rightarrow> writer \<Rightarrow> nat" where
  "accepted buf w =
     (case w_room w of
        None \<Rightarrow> length buf
      | Some c \<Rightarrow> min (length buf) (c - length (w_out w)))"

definition write_call :: "bytes \<Rightarrow> writer \<Rightarrow> (io_error + nat) \<times> writer" where
  "write_call buf w =
     (let w = w\<lparr> w_calls := w_calls w @ [length buf] \<rparr> in
      case w_script w of
        [] \<Rightarrow> let k = accepted buf w in (Inr k, w\<lparr> w_out := w_out w @ take k buf \<rparr>)
      | Accept n # es \<Rightarrow>
          let k = min n (accepted buf w)
          in (Inr k, w\<lparr> w_script := es, w_out := w_out w @ take k buf \<rparr>)
      | W_Intr # es \<Rightarrow> (Inl (Io_Error Interrupted ''interrupted''), w\<lparr> w_script := es \<rparr>)
      | W_Fail e # es \<Rightarrow> (Inl e, w\<lparr> w_script := es \<rparr>))"

definition flush_call :: "writer \<Rightarrow> (io_error + unit) \<times> writer" where
  "flush_call w =
     (case w_flushes w of
        [] \<Rightarrow> (Inr (), w)
      | None # fs \<Rightarrow> (Inr (), w\<lparr> w_flushes := fs \<rparr>)
      | Some e # fs \<Rightarrow> (Inl e, w\<lparr> w_flushes := fs \<rparr>))"

section \<open>The chunking writer\<close>

definition MAX_WRITE_CHUNK :: nat where "MAX_WRITE_CHUNK = 2 ^ 30"

record chunked_writer =
  cw_inner :: writer
  cw_limit :: nat

definition chunked_new :: "writer \<Rightarrow> chunked_writer" where
  "chunked_new w = \<lparr> cw_inner = w, cw_limit = MAX_WRITE_CHUNK \<rparr>"

definition chunked_write :: "bytes \<Rightarrow> chunked_writer \<Rightarrow> (io_error + nat) \<times> chunked_writer" where
  "chunked_write buf cw =
     (case write_call (take (min (length buf) (cw_limit cw)) buf) (cw_inner cw) of
        (res, w) \<Rightarrow> (res, cw\<lparr> cw_inner := w \<rparr>))"

definition chunked_flush :: "chunked_writer \<Rightarrow> (io_error + unit) \<times> chunked_writer" where
  "chunked_flush cw = (case flush_call (cw_inner cw) of (res, w) \<Rightarrow> (res, cw\<lparr> cw_inner := w \<rparr>))"

text \<open>\<^verbatim>\<open>Write::write_all\<close>: loop on the returned count, retry when interrupted.\<close>

function write_all :: "bytes \<Rightarrow> chunked_writer \<Rightarrow> (io_error + unit) \<times> chunked_writer" where
  "write_all buf cw =
     (if buf = [] then (Inr (), cw)
      else case chunked_write buf cw of
        (Inr n, cw') \<Rightarrow>
          if n = 0 then (Inl (Io_Error WriteZero ''failed to write whole buffer''), cw')
          else write_all (drop n buf) cw'
      | (Inl e, cw') \<Rightarrow> if err_kind e = Interrupted then write_all buf cw' else (Inl e, cw'))"
  by pat_completeness auto
termination
proof (relation "measure (\<lambda>(buf, cw). length (w_script (cw_inner cw)) + length buf)", goal_cases)
  case (2 buf cw x cw' n)
  then show ?case
    by (simp add: chunked_write_def write_call_def Let_def split: list.splits write_event.splits)
next
  case (3 buf cw x cw' e)
  then show ?case
    by (auto simp: chunked_write_def write_call_def Let_def split: list.splits write_event.splits)
qed simp

declare write_all.simps [simp del]

text \<open>Consecutive \<^verbatim>\<open>write_all\<close> calls, each with \<^verbatim>\<open>?\<close>.\<close>

fun write_pieces :: "bytes list \<Rightarrow> chunked_writer \<Rightarrow> (io_error + unit) \<times> chunked_writer" where
  "write_pieces [] cw = (Inr (), cw)"
| "write_pieces (b # bs) cw =
     (case write_all b cw of
        (Inl e, cw') \<Rightarrow> (Inl e, cw')
      | (Inr _, cw') \<Rightarrow> write_pieces bs cw')"

section \<open>The encoder\<close>

record encoded_data =
  ed_ipc_message :: bytes
  ed_arrow_data :: bytes

record ('s, 'b, 't) arrow_writer_api =
  aw_root_as_message :: "bytes \<Rightarrow> fb_error + fb_message"
  aw_build_message :: "fb_message \<Rightarrow> bytes"
  aw_write_message :: "encoded_data \<Rightarrow> chunked_writer \<Rightarrow> (string + unit) \<times> chunked_writer"
  aw_new_tracker :: 't
  aw_schema_to_bytes :: "'s \<Rightarrow> 't \<Rightarrow> encoded_data \<times> 't"
  aw_encode :: "'b \<Rightarrow> 't \<Rightarrow> (string + encoded_data list \<times> encoded_data) \<times> 't"
  aw_num_rows :: "'b \<Rightarrow> nat"
  aw_num_columns :: "'b \<Rightarrow> nat"
  aw_field0_large_binary :: "'b \<Rightarrow> bool"
  aw_large_binary_value :: "'b \<Rightarrow> bytes option option"

text \<open>
  \<^verbatim>\<open>aw_write_message\<close> fails with the text of an \<^verbatim>\<open>ArrowError\<close>; the sizes it returns are not used.
  \<^verbatim>\<open>aw_large_binary_value\<close> is the downcast of the first column: nothing when it is another array
  type, \<^term>\<open>Some None\<close> when the value is null.
\<close>

record ('s, 't) stream_writer =
  sw_writer :: chunked_writer
  sw_schema :: 's
  sw_tracker :: 't
  sw_finished :: bool

definition write_message ::
  "('s, 'b, 't) arrow_writer_api \<Rightarrow> encoded_data \<Rightarrow> chunked_writer
     \<Rightarrow> unit rpc_result \<times> chunked_writer" where
  "write_message W enc cw =
     (case aw_write_message W enc cw of (res, cw') \<Rightarrow> (map_err rpc_of_arrow res, cw'))"

fun write_messages ::
  "('s, 'b, 't) arrow_writer_api \<Rightarrow> encoded_data list \<Rightarrow> chunked_writer
     \<Rightarrow> unit rpc_result \<times> chunked_writer" where
  "write_messages W [] cw = (Inr (), cw)"
| "write_messages W (d # ds) cw =
     (case write_message W d cw of
        (Inl e, cw') \<Rightarrow> (Inl e, cw')
      | (Inr _, cw') \<Rightarrow> write_messages W ds cw')"

text \<open>A failed constructor returns no writer, so nothing finishes the stream.\<close>

definition stream_writer_new ::
  "('s, 'b, 't) arrow_writer_api \<Rightarrow> writer \<Rightarrow> 's
     \<Rightarrow> ('s, 't) stream_writer rpc_result \<times> chunked_writer" where
  "stream_writer_new W w schema =
     (let (enc, tracker) = aw_schema_to_bytes W schema (aw_new_tracker W);
          (res, cw) = write_message W enc (chunked_new w)
      in (case res of
            Inl e \<Rightarrow> Inl e
          | Inr _ \<Rightarrow> Inr \<lparr> sw_writer = cw, sw_schema = schema, sw_tracker = tracker,
                           sw_finished = False \<rparr>, cw))"

text \<open>Metadata as the vector of key-value pairs of a message.\<close>

definition md_vector :: "metadata \<Rightarrow> (string option \<times> string option) list" where
  "md_vector md = map (\<lambda>(k, v). (Some k, Some v)) md"

definition repack_record_batch_message_with_metadata ::
  "('s, 'b, 't) arrow_writer_api \<Rightarrow> bytes \<Rightarrow> metadata \<Rightarrow> bytes rpc_result" where
  "repack_record_batch_message_with_metadata W msg_bytes md =
     and_then (map_err (\<lambda>e. ipc_error (''parsing message: '' @ fb_error_msg e))
                 (aw_root_as_message W msg_bytes)) (\<lambda>msg.
     and_then (ensure (fb_header_type msg = HT_Record_Batch)
                 (ipc_error (''repack expected RecordBatch header, got ''
                    @ header_name (fb_header_type msg)))) (\<lambda>_.
     and_then (ok_or (ipc_error ''missing RecordBatch header'') (fb_record_batch msg)) (\<lambda>rb.
     and_then (ok_or (ipc_error ''RecordBatch missing nodes'') (rb_nodes rb)) (\<lambda>nodes.
     and_then (ok_or (ipc_error ''RecordBatch missing buffers'') (rb_buffers rb)) (\<lambda>buffers.
     Inr (aw_build_message W
       \<lparr> fb_version = fb_version msg, fb_header_type = HT_Record_Batch,
         fb_body_length = fb_body_length msg, fb_custom_metadata = Some (md_vector md),
         fb_schema_fields = None, fb_dictionary = None,
         fb_record_batch = Some \<lparr> rb_length = rb_length rb, rb_nodes = Some nodes,
                                  rb_buffers = Some buffers, rb_variadic = rb_variadic rb \<rparr> \<rparr>))))))"

definition IPC_ALIGNMENT :: nat where "IPC_ALIGNMENT = 64"

definition padding_to_alignment :: "nat \<Rightarrow> nat \<Rightarrow> nat" where
  "padding_to_alignment len alignment = (alignment - len mod alignment) mod alignment"

section \<open>The direct path for one large binary value\<close>

text \<open>The message header of the direct path.\<close>

definition direct_message :: "nat \<Rightarrow> nat \<Rightarrow> metadata option \<Rightarrow> fb_message" where
  "direct_message value_len body_len md =
     \<lparr> fb_version = 4, fb_header_type = HT_Record_Batch, fb_body_length = int body_len,
       fb_custom_metadata =
         (case md of None \<Rightarrow> None | Some m \<Rightarrow> if m = [] then None else Some (md_vector m)),
       fb_schema_fields = None, fb_dictionary = None,
       fb_record_batch =
         Some \<lparr> rb_length = 1, rb_nodes = Some [(1, 0)],
                rb_buffers = Some [(0, 1), (int IPC_ALIGNMENT, 16),
                                   (int (2 * IPC_ALIGNMENT), int value_len)],
                rb_variadic = None \<rparr> \<rparr>"

text \<open>The pieces of the body: validity bitmap, offsets and value, each padded to the alignment.\<close>

definition direct_body :: "bytes \<Rightarrow> bytes list" where
  "direct_body value =
     [[0xff], replicate (IPC_ALIGNMENT - 1) 0,
      i64_le_bytes 0, i64_le_bytes (int (length value)), replicate (IPC_ALIGNMENT - 16) 0,
      value, replicate (padding_to_alignment (length value) IPC_ALIGNMENT) 0]"

definition direct_body_len :: "nat \<Rightarrow> nat option" where
  "direct_body_len n =
     Option.bind (checked_add (2 * IPC_ALIGNMENT) n) (\<lambda>l.
       checked_add l (padding_to_alignment n IPC_ALIGNMENT))"

definition write_single_large_binary_direct ::
  "('s, 'b, 't) arrow_writer_api \<Rightarrow> chunked_writer \<Rightarrow> 'b \<Rightarrow> metadata option
     \<Rightarrow> bool rpc_result \<times> chunked_writer" where
  "write_single_large_binary_direct W cw batch md =
     (if aw_num_rows W batch \<noteq> 1 \<or> aw_num_columns W batch \<noteq> 1 \<or> \<not> aw_field0_large_binary W batch
      then (Inr False, cw)
      else case aw_large_binary_value W batch of
        None \<Rightarrow> (Inr False, cw)
      | Some None \<Rightarrow> (Inr False, cw)
      | Some (Some value) \<Rightarrow>
          if i64_max < int (length value)
          then (Inl (value_error ''large_binary value exceeds i64 offsets''), cw)
          else case direct_body_len (length value) of
            None \<Rightarrow> (Inl (value_error ''large_binary IPC body length overflow''), cw)
          | Some body_len \<Rightarrow>
              if i64_max < int body_len
              then (Inl (value_error ''large_binary IPC body exceeds i64 length''), cw)
              else
                let msg = aw_build_message W (direct_message (length value) body_len md);
                    enc = \<lparr> ed_ipc_message = msg, ed_arrow_data = [] \<rparr>
                in (case write_message W enc cw of
                      (Inl e, cw) \<Rightarrow> (Inl e, cw)
                    | (Inr _, cw) \<Rightarrow>
                        (case write_pieces (direct_body value) cw of
                           (Inl e, cw) \<Rightarrow> (Inl (rpc_of_io e), cw)
                         | (Inr _, cw) \<Rightarrow> (Inr True, cw))))"

section \<open>Operations of the stream writer\<close>

definition stream_write ::
  "('s, 'b, 't) arrow_writer_api \<Rightarrow> 'b \<Rightarrow> metadata option \<Rightarrow> ('s, 't) stream_writer
     \<Rightarrow> unit rpc_result \<times> ('s, 't) stream_writer" where
  "stream_write W batch md sw =
     (if sw_finished sw then (Inl (rpc_error_new ''IOError'' ''writer already finished''), sw)
      else case write_single_large_binary_direct W (sw_writer sw) batch md of
        (Inl e, cw) \<Rightarrow> (Inl e, sw\<lparr> sw_writer := cw \<rparr>)
      | (Inr True, cw) \<Rightarrow> (Inr (), sw\<lparr> sw_writer := cw \<rparr>)
      | (Inr False, cw) \<Rightarrow>
          (case aw_encode W batch (sw_tracker sw) of
             (Inl e, tr) \<Rightarrow> (Inl (rpc_of_arrow e), sw\<lparr> sw_writer := cw, sw_tracker := tr \<rparr>)
           | (Inr (dicts, data), tr) \<Rightarrow>
               let sw = sw\<lparr> sw_writer := cw, sw_tracker := tr \<rparr> in
               (case write_messages W dicts cw of
                  (Inl e, cw) \<Rightarrow> (Inl e, sw\<lparr> sw_writer := cw \<rparr>)
                | (Inr _, cw) \<Rightarrow>
                    let packed =
                      (case md of
                         None \<Rightarrow> Inr (ed_ipc_message data)
                       | Some m \<Rightarrow>
                           if m = [] then Inr (ed_ipc_message data)
                           else repack_record_batch_message_with_metadata W (ed_ipc_message data) m)
                    in (case packed of
                          Inl e \<Rightarrow> (Inl e, sw\<lparr> sw_writer := cw \<rparr>)
                        | Inr msg \<Rightarrow>
                            (case write_message W (data\<lparr> ed_ipc_message := msg \<rparr>) cw of
                               (res, cw) \<Rightarrow> (res, sw\<lparr> sw_writer := cw \<rparr>))))))"

definition stream_finish :: "('s, 't) stream_writer \<Rightarrow> unit rpc_result \<times> ('s, 't) stream_writer" where
  "stream_finish sw =
     (if sw_finished sw then (Inr (), sw)
      else case write_pieces [CONTINUATION_MARKER, [0, 0, 0, 0]] (sw_writer sw) of
        (Inl e, cw) \<Rightarrow> (Inl (rpc_of_io e), sw\<lparr> sw_writer := cw \<rparr>)
      | (Inr _, cw) \<Rightarrow>
          (case chunked_flush cw of
             (Inl e, cw) \<Rightarrow> (Inl (rpc_of_io e), sw\<lparr> sw_writer := cw \<rparr>)
           | (Inr _, cw) \<Rightarrow> (Inr (), sw\<lparr> sw_writer := cw, sw_finished := True \<rparr>)))"

definition stream_flush :: "('s, 't) stream_writer \<Rightarrow> unit rpc_result \<times> ('s, 't) stream_writer" where
  "stream_flush sw =
     (case chunked_flush (sw_writer sw) of
        (res, cw) \<Rightarrow> (map_err rpc_of_io res, sw\<lparr> sw_writer := cw \<rparr>))"

text \<open>\<^verbatim>\<open>Drop\<close> finishes and discards the result.\<close>

definition stream_drop :: "('s, 't) stream_writer \<Rightarrow> ('s, 't) stream_writer" where
  "stream_drop sw = snd (stream_finish sw)"

definition out_of :: "('s, 't) stream_writer \<Rightarrow> bytes" where
  "out_of sw = w_out (cw_inner (sw_writer sw))"

text \<open>\<^verbatim>\<open>write_one_batch_as\<close>: a complete stream for one batch in a fresh buffer.\<close>

definition write_one_batch_as ::
  "('s, 'b, 't) arrow_writer_api \<Rightarrow> 'b \<Rightarrow> 's \<Rightarrow> metadata option \<Rightarrow> bytes rpc_result" where
  "write_one_batch_as W batch schema md =
     (case fst (stream_writer_new W \<lparr> w_script = [], w_out = [], w_calls = [], w_flushes = [], w_room = None \<rparr> schema) of
        Inl e \<Rightarrow> Inl e
      | Inr sw \<Rightarrow>
          (case stream_write W batch md sw of
             (Inl e, sw) \<Rightarrow> Inl e
           | (Inr _, sw) \<Rightarrow>
               (case stream_finish sw of
                  (Inl e, sw) \<Rightarrow> Inl e
                | (Inr _, sw) \<Rightarrow> Inr (out_of sw))))"

section \<open>Delivery\<close>

abbreviation cw_out :: "chunked_writer \<Rightarrow> bytes" where
  "cw_out cw \<equiv> w_out (cw_inner cw)"

definition willing :: "chunked_writer \<Rightarrow> bool" where
  "willing cw =
     (0 < cw_limit cw \<and> w_room (cw_inner cw) = None
      \<and> list_all (\<lambda>e. case e of Accept n \<Rightarrow> 0 < n | W_Intr \<Rightarrow> True | W_Fail _ \<Rightarrow> False)
          (w_script (cw_inner cw)))"

definition within_room :: "chunked_writer \<Rightarrow> bool" where
  "within_room cw =
     (case w_room (cw_inner cw) of None \<Rightarrow> True | Some c \<Rightarrow> length (cw_out cw) \<le> c)"

text \<open>What one bounded \<^verbatim>\<open>write\<close> does to the transport.\<close>

lemma accepted_room:
  "accepted buf w \<le> length buf"
  "w_room w = Some c \<Longrightarrow> length (w_out w) \<le> c \<Longrightarrow> length (w_out w) + accepted buf w \<le> c"
  by (auto simp: accepted_def split: option.splits)

lemma accepted_calls [simp]: "accepted buf (w\<lparr> w_calls := cs \<rparr>) = accepted buf w"
  by (simp add: accepted_def split: option.split)

lemma write_call_effect:
  assumes "write_call buf w = (res, w')"
  shows "w_calls w' = w_calls w @ [length buf]" "w_flushes w' = w_flushes w" "w_room w' = w_room w"
    and "w_out w' = w_out w @ (case res of Inr n \<Rightarrow> take n buf | Inl _ \<Rightarrow> [])"
    and "\<And>n. res = Inr n \<Longrightarrow> n \<le> accepted buf w"
  using assms
  by (simp_all add: write_call_def Let_def split: list.splits write_event.splits) auto

lemma chunked_write_effect:
  assumes w: "chunked_write buf cw = (res, cw')"
  shows "w_calls (cw_inner cw') = w_calls (cw_inner cw) @ [min (length buf) (cw_limit cw)]"
    and "cw_limit cw' = cw_limit cw"
    and "w_flushes (cw_inner cw') = w_flushes (cw_inner cw)"
    and "cw_out cw' = cw_out cw @ (case res of Inr n \<Rightarrow> take n buf | Inl _ \<Rightarrow> [])"
    and "w_room (cw_inner cw') = w_room (cw_inner cw)"
    and "within_room cw \<Longrightarrow> within_room cw'"
proof -
  let ?k = "min (length buf) (cw_limit cw)"
  obtain w' where c: "write_call (take ?k buf) (cw_inner cw) = (res, w')" "cw' = cw\<lparr> cw_inner := w' \<rparr>"
    using w by (auto simp: chunked_write_def split: prod.splits)
  note e = write_call_effect [OF c(1)]
  show "w_calls (cw_inner cw') = w_calls (cw_inner cw) @ [?k]" "cw_limit cw' = cw_limit cw"
    "w_flushes (cw_inner cw') = w_flushes (cw_inner cw)" "w_room (cw_inner cw') = w_room (cw_inner cw)"
    using e(1-3) c(2) by simp_all
  have n: "n \<le> ?k" "n \<le> accepted (take ?k buf) (cw_inner cw)" if "res = Inr n" for n
    using e(5) [OF that] accepted_room(1) [of "take ?k buf" "cw_inner cw"] by simp_all
  then show out: "cw_out cw' = cw_out cw @ (case res of Inr n \<Rightarrow> take n buf | Inl _ \<Rightarrow> [])"
    using e(4) c(2) by (cases res) (simp_all add: min_def)
  show "within_room cw'" if "within_room cw"
    using that n(2) accepted_room(2) [of "cw_inner cw" _ "take ?k buf"] e(3) out c(2)
    by (cases res) (fastforce simp: within_room_def split: option.splits)+
qed

lemma chunked_write_willing:
  assumes "chunked_write buf cw = (res, cw')" "willing cw" "buf \<noteq> []"
  shows "willing cw' \<and> (case res of Inr n \<Rightarrow> 0 < n | Inl e \<Rightarrow> err_kind e = Interrupted)"
  using assms
  by (auto simp: chunked_write_def write_call_def accepted_def Let_def willing_def
      split: list.splits write_event.splits)

definition delivered :: "bytes \<Rightarrow> chunked_writer \<Rightarrow> (io_error + unit) \<Rightarrow> chunked_writer \<Rightarrow> bool" where
  "delivered buf cw res cw' =
     ((\<exists>k. cw_out cw' = cw_out cw @ take k buf \<and> (res = Inr () \<longrightarrow> length buf \<le> k))
      \<and> (\<exists>cs. w_calls (cw_inner cw') = w_calls (cw_inner cw) @ cs \<and> list_all (\<lambda>c. c \<le> cw_limit cw) cs)
      \<and> cw_limit cw' = cw_limit cw \<and> w_flushes (cw_inner cw') = w_flushes (cw_inner cw)
      \<and> w_room (cw_inner cw') = w_room (cw_inner cw) \<and> (within_room cw \<longrightarrow> within_room cw')
      \<and> (willing cw \<longrightarrow> res = Inr () \<and> willing cw'))"

lemma delivered_step:
  assumes w: "chunked_write buf cw = (r, cw1)" and ne: "buf \<noteq> []"
    and rest: "delivered (case r of Inr n \<Rightarrow> drop n buf | Inl _ \<Rightarrow> buf) cw1 res cw'"
  shows "delivered buf cw res cw'"
proof -
  note eff = chunked_write_effect [OF w] and will = chunked_write_willing [OF w _ ne]
  obtain k cs where k: "cw_out cw' = cw_out cw1 @ take k (case r of Inr n \<Rightarrow> drop n buf | Inl _ \<Rightarrow> buf)"
      "res = Inr () \<longrightarrow> length (case r of Inr n \<Rightarrow> drop n buf | Inl _ \<Rightarrow> buf) \<le> k"
    and cs: "w_calls (cw_inner cw') = w_calls (cw_inner cw1) @ cs" "list_all (\<lambda>c. c \<le> cw_limit cw1) cs"
    using rest by (auto simp: delivered_def)
  have "\<exists>k. cw_out cw' = cw_out cw @ take k buf \<and> (res = Inr () \<longrightarrow> length buf \<le> k)"
  proof (cases r)
    case (Inl e)
    then show ?thesis using k eff(4) by auto
  next
    case (Inr n)
    then show ?thesis
      using k eff(4) by (intro exI [of _ "n + k"]) (auto simp: take_add)
  qed
  moreover have "w_calls (cw_inner cw') = w_calls (cw_inner cw) @ (min (length buf) (cw_limit cw) # cs)"
    using cs(1) eff(1) by simp
  then have "\<exists>cs. w_calls (cw_inner cw') = w_calls (cw_inner cw) @ cs \<and> list_all (\<lambda>c. c \<le> cw_limit cw) cs"
    using cs(2) eff(2) by (intro exI [of _ "min (length buf) (cw_limit cw) # cs"]) simp
  ultimately show ?thesis
    using rest eff(2,3,5,6) will by (auto simp: delivered_def)
qed

lemma delivered_stop:
  assumes "chunked_write buf cw = (r, cw')" "buf \<noteq> []"
    "(\<exists>e. r = Inl e \<and> err_kind e \<noteq> Interrupted) \<or> r = Inr 0"
  shows "delivered buf cw (Inl e') cw'"
  using assms chunked_write_willing [OF assms(1) _ assms(2)] chunked_write_effect [OF assms(1)]
  by (auto simp: delivered_def intro!: exI [of _ 0] exI [of _ "[min (length buf) (cw_limit cw)]"])

lemma write_all_delivered: "write_all buf cw = (res, cw') \<Longrightarrow> delivered buf cw res cw'"
proof (induction buf cw arbitrary: res cw' rule: write_all.induct)
  case (1 buf cw)
  show ?case
  proof (cases "buf = []")
    case True
    then show ?thesis using "1.prems" by (auto simp: write_all.simps delivered_def)
  next
    case False
    obtain r cw1 where w: "chunked_write buf cw = (r, cw1)" by force
    note stop = delivered_stop [OF w False]
    show ?thesis
    proof (cases r)
      case (Inl e)
      show ?thesis
      proof (cases "err_kind e = Interrupted")
        case True
        then have "write_all buf cw1 = (res, cw')"
          using "1.prems" False w Inl by (simp add: write_all.simps [of buf cw])
        then have "delivered buf cw1 res cw'"
          using "1.IH"(1) [OF False w [symmetric] Inl True] by simp
        then show ?thesis using delivered_step [OF w False, of res cw'] Inl by simp
      next
        case interrupted: False
        then show ?thesis
          using "1.prems" False w Inl stop by (auto simp: write_all.simps [of buf cw])
      qed
    next
      case (Inr n)
      show ?thesis
      proof (cases "n = 0")
        case True
        then show ?thesis
          using "1.prems" False w Inr stop by (auto simp: write_all.simps [of buf cw])
      next
        case n: False
        then have "write_all (drop n buf) cw1 = (res, cw')"
          using "1.prems" False w Inr by (simp add: write_all.simps [of buf cw])
        then have "delivered (drop n buf) cw1 res cw'"
          using "1.IH"(2) [OF False w [symmetric] Inr n] by simp
        then show ?thesis using delivered_step [OF w False, of res cw'] Inr by simp
      qed
    qed
  qed
qed

lemma write_pieces_out:
  "write_pieces bs cw = (Inr (), cw') \<Longrightarrow>
     cw_out cw' = cw_out cw @ concat bs \<and> w_flushes (cw_inner cw') = w_flushes (cw_inner cw)"
proof (induction bs arbitrary: cw)
  case (Cons b bs)
  then obtain cw1 where "write_all b cw = (Inr (), cw1)" "write_pieces bs cw1 = (Inr (), cw')"
    by (auto split: prod.splits sum.splits)
  then show ?case
    using Cons.IH [of cw1] write_all_delivered [of b cw "Inr ()" cw1] by (auto simp: delivered_def)
qed simp

lemma write_pieces_willing:
  "willing cw \<Longrightarrow> \<exists>cw'. write_pieces bs cw = (Inr (), cw') \<and> willing cw'"
proof (induction bs arbitrary: cw)
  case (Cons b bs)
  obtain r cw1 where w: "write_all b cw = (r, cw1)" by force
  then have "r = Inr () \<and> willing cw1"
    using write_all_delivered [OF w] Cons.prems by (simp add: delivered_def)
  then show ?case using Cons.IH [of cw1] w by auto
qed simp

text \<open>Whatever the transport does (short counts, interruptions, failures), a \<^verbatim>\<open>write_all\<close> through the
  chunking writer never offers it more than the limit at once, leaves a prefix of the buffer on it, and
  reports success only when the whole buffer is there; on a transport that always makes progress it
  succeeds.
\<close>
theorem chunked_write_all_delivers:
  assumes "write_all buf cw = (res, cw')"
  shows "(\<exists>k. cw_out cw' = cw_out cw @ take k buf \<and> (res = Inr () \<longrightarrow> length buf \<le> k))
    \<and> (\<exists>cs. w_calls (cw_inner cw') = w_calls (cw_inner cw) @ cs \<and> list_all (\<lambda>c. c \<le> cw_limit cw) cs)
    \<and> (willing cw \<longrightarrow> res = Inr ())"
  using write_all_delivered [OF assms] by (simp add: delivered_def)

theorem chunked_write_all_delivers_witness:
  "let cw = \<lparr> cw_inner = \<lparr> w_script = [Accept 1, W_Intr, Accept 5], w_out = [], w_calls = [],
                           w_flushes = [], w_room = None \<rparr>, cw_limit = 2 \<rparr>;
       out = write_all [1, 2, 3, 4] cw
   in fst out = Inr () \<and> w_calls (cw_inner (snd out)) = [2, 2, 2, 1]
      \<and> (willing cw \<longrightarrow> fst out = Inr ())"
proof -
  define cw where "cw = \<lparr> cw_inner = \<lparr> w_script = [Accept 1, W_Intr, Accept 5], w_out = [],
      w_calls = [], w_flushes = [], w_room = None \<rparr>, cw_limit = 2 \<rparr>"
  obtain res cw' where w: "write_all [1, 2, 3, 4] cw = (res, cw')" by force
  have "w_calls (cw_inner (snd (write_all [1, 2, 3, 4] cw))) = [2, 2, 2, 1]"
    by (simp add: cw_def write_all.simps chunked_write_def write_call_def accepted_def)
  moreover have "willing cw"
    by (simp add: cw_def willing_def)
  ultimately show ?thesis
    using chunked_write_all_delivers [OF w] w unfolding cw_def [symmetric] Let_def by simp
qed

section \<open>Finishing a stream\<close>

lemma replicate_4: "replicate 4 x = [x, x, x, x]"
  by (simp add: numeral_eq_Suc)

lemma eos_pieces: "concat [CONTINUATION_MARKER, [0, 0, 0, 0]] = eos_marker"
  by (simp add: eos_marker_def le_bytes_0 replicate_4)

lemma chunked_flush_cases:
  "chunked_flush cw =
     (case w_flushes (cw_inner cw) of
        Some e # fs \<Rightarrow> (Inl e, cw\<lparr> cw_inner := (cw_inner cw)\<lparr> w_flushes := fs \<rparr> \<rparr>)
      | fs \<Rightarrow> (Inr (), cw\<lparr> cw_inner := (cw_inner cw)\<lparr> w_flushes := tl fs \<rparr> \<rparr>))"
  by (auto simp: chunked_flush_def flush_call_def split: list.splits option.splits)

lemma finish_willing:
  assumes "willing (sw_writer sw)" "\<not> sw_finished sw"
  shows "out_of (snd (stream_finish sw)) = out_of sw @ eos_marker"
    and "willing (sw_writer (snd (stream_finish sw)))"
    and "sw_finished (snd (stream_finish sw)) \<longleftrightarrow> fst (stream_finish sw) = Inr ()"
    and "fst (stream_finish sw) = Inr () \<longleftrightarrow>
      (case w_flushes (cw_inner (sw_writer sw)) of Some e # _ \<Rightarrow> False | _ \<Rightarrow> True)"
proof -
  obtain cw where w: "write_pieces [CONTINUATION_MARKER, [0, 0, 0, 0]] (sw_writer sw) = (Inr (), cw)"
    and "willing cw"
    using write_pieces_willing [OF assms(1)] by blast
  then show "out_of (snd (stream_finish sw)) = out_of sw @ eos_marker"
    "willing (sw_writer (snd (stream_finish sw)))"
    "sw_finished (snd (stream_finish sw)) \<longleftrightarrow> fst (stream_finish sw) = Inr ()"
    "fst (stream_finish sw) = Inr () \<longleftrightarrow>
      (case w_flushes (cw_inner (sw_writer sw)) of Some e # _ \<Rightarrow> False | _ \<Rightarrow> True)"
    using write_pieces_out [OF w] assms(2)
    by (auto simp del: write_pieces.simps
        simp: stream_finish_def out_of_def chunked_flush_cases willing_def eos_pieces [symmetric]
        split: list.splits option.splits)
qed

text \<open>On a transport that makes progress, \<^verbatim>\<open>finish\<close> appends one end-of-stream marker; once it has
  succeeded, finishing again and dropping the writer add nothing and writing a batch is refused
  without touching the transport. When the flush fails the writer is not marked finished, and the
  \<^verbatim>\<open>Drop\<close> that follows appends a second marker.
\<close>
theorem finish_marks_the_end_once:
  assumes "willing (sw_writer sw)" "\<not> sw_finished sw" "stream_finish sw = (res, sw')"
  shows "out_of sw' = out_of sw @ eos_marker
    \<and> (res = Inr () \<longrightarrow>
         stream_finish sw' = (Inr (), sw') \<and> stream_drop sw' = sw'
         \<and> stream_write W batch md sw' =
             (Inl (rpc_error_new ''IOError'' ''writer already finished''), sw'))
    \<and> (res \<noteq> Inr () \<longrightarrow> out_of (stream_drop sw') = out_of sw @ eos_marker @ eos_marker)"
proof -
  have f: "out_of sw' = out_of sw @ eos_marker" "willing (sw_writer sw')" "sw_finished sw' \<longleftrightarrow> res = Inr ()"
    using finish_willing [OF assms(1,2)] assms(3) by auto
  then show ?thesis
    using finish_willing(1) [of sw'] by (auto simp: stream_finish_def stream_drop_def stream_write_def)
qed

definition demo_stream_writer :: "io_error option list \<Rightarrow> (unit, unit) stream_writer" where
  "demo_stream_writer fs =
     \<lparr> sw_writer = chunked_new \<lparr> w_script = [], w_out = [], w_calls = [], w_flushes = fs, w_room = None \<rparr>,
       sw_schema = (), sw_tracker = (), sw_finished = False \<rparr>"

lemma demo_stream_writer_willing [simp]:
  "willing (sw_writer (demo_stream_writer fs))"
  "\<not> sw_finished (demo_stream_writer fs)"
  "out_of (demo_stream_writer fs) = []"
  by (simp_all add: demo_stream_writer_def willing_def chunked_new_def MAX_WRITE_CHUNK_def out_of_def)

theorem finish_marks_the_end_once_witness:
  "let sw = demo_stream_writer [Some (Io_Error OtherKind ''broken pipe'')]
   in out_of (stream_drop (snd (stream_finish sw))) = eos_marker @ eos_marker"
proof -
  define sw where "sw = demo_stream_writer [Some (Io_Error OtherKind ''broken pipe'')]"
  have w: "willing (sw_writer sw)" "\<not> sw_finished sw" "out_of sw = []"
    by (simp_all add: sw_def)
  have "fst (stream_finish sw) \<noteq> Inr ()"
    unfolding finish_willing(4) [OF w(1,2)] by (simp add: sw_def demo_stream_writer_def chunked_new_def)
  then show ?thesis
    using finish_marks_the_end_once [OF w(1,2) surjective_pairing] w(3)
    unfolding sw_def [symmetric] Let_def by simp
qed

section \<open>The direct path read back\<close>

text \<open>
  What the writer relies on from the Arrow crates: a built message parses back, with any zero padding
  behind it, and a \<^verbatim>\<open>write_message\<close> that succeeds has put the encapsulated message on the transport.
\<close>

definition parses_back :: "('s, 'b, 't) arrow_writer_api \<Rightarrow> fb_message \<Rightarrow> bool" where
  "parses_back W m =
     (aw_build_message W m \<noteq> []
      \<and> (\<forall>n. aw_root_as_message W (aw_build_message W m @ replicate n 0) = Inr m))"

definition writes_encapsulated :: "('s, 'b, 't) arrow_writer_api \<Rightarrow> encoded_data \<Rightarrow> nat \<Rightarrow> bool" where
  "writes_encapsulated W enc pad =
     (\<forall>cw cw'. aw_write_message W enc cw = (Inr (), cw') \<longrightarrow>
        cw_out cw' = cw_out cw @ encapsulate (ed_ipc_message enc @ replicate pad 0) (ed_arrow_data enc))"

lemma parses_back_exact: "parses_back W m \<Longrightarrow> aw_root_as_message W (aw_build_message W m) = Inr m"
  unfolding parses_back_def by (metis append_Nil2 replicate_0)

lemma padding_aligns:
  assumes "0 < a"
  shows "(n + padding_to_alignment n a) mod a = 0" "padding_to_alignment n a < a"
proof -
  show "padding_to_alignment n a < a"
    using assms by (simp add: padding_to_alignment_def)
  have "n mod a < a" using assms by simp
  then have "(n mod a + (a - n mod a)) mod a = 0" by simp
  then show "(n + padding_to_alignment n a) mod a = 0"
    by (simp add: padding_to_alignment_def mod_add_left_eq mod_add_right_eq)
qed

lemma length_direct_body:
  "length (concat (direct_body v)) = 128 + length v + padding_to_alignment (length v) 64"
  by (simp add: direct_body_def IPC_ALIGNMENT_def)

lemma direct_body_aligned: "length (concat (direct_body v)) mod 64 = 0"
proof -
  have "(128 + k) mod 64 = k mod 64" for k :: nat
    using mod_mult_self3 [of 2 64 k] by simp
  then show ?thesis
    using padding_aligns(1) [of 64 "length v"] by (metis length_direct_body add.assoc zero_less_numeral)
qed

lemma direct_message_buffers:
  assumes "length (concat (direct_body v)) \<le> u64_max"
  shows "\<exists>rb. fb_record_batch (direct_message (length v) n md) = Some rb
    \<and> validate_record_batch_buffers rb (length (concat (direct_body v))) = Inr ()
    \<and> rb_buffers rb = Some [(0, 1), (64, 16), (128, int (length v))]"
proof -
  have "list_all (\<lambda>(off, len). 0 \<le> off \<and> 0 \<le> len \<and> off + len \<le> int (length (concat (direct_body v))))
    [(0, 1), (64, 16), (128, int (length v))]"
    unfolding length_direct_body by simp
  then have "validate_buffers (length (concat (direct_body v))) [(0, 1), (64, 16), (128, int (length v))] = Inr ()"
    using validate_buffers_iff [OF assms] by blast
  then show ?thesis
    by (simp add: validate_record_batch_buffers_def direct_message_def IPC_ALIGNMENT_def
        del: validate_buffers.simps)
qed

lemma direct_body_value: "subslice 128 (128 + length v) (concat (direct_body v)) = v"
  by (simp add: subslice_def direct_body_def IPC_ALIGNMENT_def)

lemma direct_body_offsets:
  assumes "int (length v) \<le> i64_max"
  shows "of_i64_le (subslice 64 72 (concat (direct_body v))) = 0"
    and "of_i64_le (subslice 72 80 (concat (direct_body v))) = int (length v)"
proof -
  have "subslice 64 72 (concat (direct_body v)) = i64_le_bytes 0"
    "subslice 72 80 (concat (direct_body v)) = i64_le_bytes (int (length v))"
    by (simp_all add: subslice_def direct_body_def IPC_ALIGNMENT_def)
  then show "of_i64_le (subslice 64 72 (concat (direct_body v))) = 0"
    "of_i64_le (subslice 72 80 (concat (direct_body v))) = int (length v)"
    using of_i64_le_bytes [of 0] of_i64_le_bytes [of "int (length v)"] assms
    by (simp_all add: i64_min_def i64_max_def)
qed

lemma direct_body_len_Some:
  "direct_body_len n = Some l \<longleftrightarrow> l = 128 + n + padding_to_alignment n 64 \<and> l \<le> u64_max"
  by (auto simp: direct_body_len_def IPC_ALIGNMENT_def bind_eq_Some_conv)

lemma direct_written:
  assumes d: "write_single_large_binary_direct W cw batch md = (Inr True, cw')"
    and v: "aw_large_binary_value W batch = Some (Some v)"
    and enc: "enc = \<lparr> ed_ipc_message = aw_build_message W
        (direct_message (length v) (length (concat (direct_body v))) md), ed_arrow_data = [] \<rparr>"
  obtains cw1 where "aw_write_message W enc cw = (Inr (), cw1)"
    and "write_pieces (direct_body v) cw1 = (Inr (), cw')"
    and "int (length (concat (direct_body v))) \<le> i64_max" "length (concat (direct_body v)) \<le> u64_max"
proof -
  obtain l where l: "direct_body_len (length v) = Some l" "\<not> i64_max < int l"
    using d v by (auto simp: write_single_large_binary_direct_def split: if_splits option.splits)
  then have len: "l = length (concat (direct_body v))" "l \<le> u64_max"
    unfolding direct_body_len_Some length_direct_body by blast+
  have enc': "enc = \<lparr> ed_ipc_message = aw_build_message W (direct_message (length v) l md), ed_arrow_data = [] \<rparr>"
    by (simp only: enc len(1))
  have i64: "\<not> i64_max < int (length v)"
    using l(2) len(1) unfolding length_direct_body by simp
  obtain res cw1 where w: "aw_write_message W enc cw = (res, cw1)" by force
  have "(case map_err rpc_of_arrow res of
      Inl e \<Rightarrow> (Inl e, cw1)
    | Inr _ \<Rightarrow> (case write_pieces (direct_body v) cw1 of
        (Inl e, cw) \<Rightarrow> (Inl (rpc_of_io e), cw) | (Inr _, cw) \<Rightarrow> (Inr True, cw))) = (Inr True, cw')"
    using d v l w i64
    by (simp add: write_single_large_binary_direct_def write_message_def enc'
        del: write_pieces.simps split: if_split_asm)
  then have "res = Inr ()" "write_pieces (direct_body v) cw1 = (Inr (), cw')"
    by (auto simp: map_err_def split: prod.splits sum.splits)
  then show ?thesis using that w l(2) len by (simp only: not_less)
qed

text \<open>C18. The direct path for a batch of one large binary value: when it reports that it wrote the batch,
  the bytes on the transport are one message that the reader of \<^verbatim>\<open>wire.rs\<close> takes off again however the
  bytes are fragmented, leaving what follows; the declared body length is the number of body bytes and
  a multiple of 64, every buffer descriptor passes the reader's validation, the offsets buffer holds
  0 and the length of the value, and the data buffer is the value.
\<close>
theorem direct_value_is_read_back:
  assumes "write_single_large_binary_direct W cw batch md = (Inr True, cw')"
    and "aw_large_binary_value W batch = Some (Some v)"
    and "m = direct_message (length v) (length body) md" "body = concat (direct_body v)"
    and "parses_back W m"
    and "writes_encapsulated W \<lparr> ed_ipc_message = aw_build_message W m, ed_arrow_data = [] \<rparr> pad"
    and "length (aw_build_message W m) + pad \<le> cap" "length body \<le> cap" "cap \<le> u32_max"
    and "clean r" "cw_out cw @ content r = cw_out cw' @ rest"
  shows "(\<exists>msg r'. read_message_bytes (aw_root_as_message W) r cap
              = Some (Inr (Some (Message (raw_of (msg, body)))), r')
            \<and> aw_root_as_message W msg = Inr m \<and> content r' = rest \<and> clean r')
    \<and> fb_body_length m = int (length body) \<and> length body mod 64 = 0
    \<and> (\<exists>rb. fb_record_batch m = Some rb \<and> validate_record_batch_buffers rb (length body) = Inr ()
            \<and> rb_buffers rb = Some [(0, 1), (64, 16), (128, int (length v))])
    \<and> of_i64_le (subslice 64 72 body) = 0 \<and> of_i64_le (subslice 72 80 body) = int (length v)
    \<and> subslice 128 (128 + length v) body = v"
proof -
  let ?msg = "aw_build_message W m @ replicate pad 0"
  obtain cw1 where w: "aw_write_message W \<lparr> ed_ipc_message = aw_build_message W m, ed_arrow_data = [] \<rparr> cw
      = (Inr (), cw1)" "write_pieces (direct_body v) cw1 = (Inr (), cw')"
    and i64: "int (length body) \<le> i64_max" and u64: "length body \<le> u64_max"
    using direct_written [OF assms(1,2) refl] unfolding assms(3,4) by blast
  have "cw_out cw' = cw_out cw @ encapsulate ?msg [] @ body"
    using assms(6) w(1) write_pieces_out [OF w(2)] assms(4) by (simp add: writes_encapsulated_def)
  then have c: "content r = encapsulate ?msg body @ rest"
    using assms(11) by (simp add: encapsulate_def)
  have p: "aw_root_as_message W ?msg = Inr m" "aw_build_message W m \<noteq> []"
    using assms(5) by (simp_all add: parses_back_def)
  have "frame_ok (aw_root_as_message W) cap (?msg, body)"
    using p assms(3,7,8,9) by (simp add: frame_ok_def direct_message_def)
  note read = read_encapsulated [OF assms(10) c this]
  have "int (length v) \<le> i64_max"
    using i64 by (simp add: assms(4) length_direct_body)
  note offs = direct_body_offsets [OF this]
  have "fb_body_length m = int (length body)"
    by (simp add: assms(3) direct_message_def)
  moreover have "\<exists>msg r'. read_message_bytes (aw_root_as_message W) r cap
              = Some (Inr (Some (Message (raw_of (msg, body)))), r')
            \<and> aw_root_as_message W msg = Inr m \<and> content r' = rest \<and> clean r'"
    using read p(1) by blast
  ultimately show ?thesis
    using direct_body_aligned [of v] direct_message_buffers [of v "length body" md] u64 offs
      direct_body_value [of v]
    unfolding assms(3,4) by blast
qed

text \<open>An encoder whose only message is \<^verbatim>\<open>m\<close>, framed as the format prescribes and written in one piece.\<close>

definition demo_writer_api :: "fb_message \<Rightarrow> (unit, bytes, unit) arrow_writer_api" where
  "demo_writer_api m =
     \<lparr> aw_root_as_message = \<lambda>_. Inr m, aw_build_message = \<lambda>_. [1],
       aw_write_message = \<lambda>enc cw.
         (case write_all (encapsulate (ed_ipc_message enc) (ed_arrow_data enc)) cw of
            (res, cw') \<Rightarrow> (map_err err_msg res, cw')),
       aw_new_tracker = (), aw_schema_to_bytes = \<lambda>_ _. (\<lparr> ed_ipc_message = [1], ed_arrow_data = [] \<rparr>, ()),
       aw_encode = \<lambda>_ _. (Inl ''unsupported'', ()), aw_num_rows = \<lambda>_. 1, aw_num_columns = \<lambda>_. 1,
       aw_field0_large_binary = \<lambda>_. True, aw_large_binary_value = \<lambda>v. Some (Some v) \<rparr>"

lemma demo_writer_api_laws:
  "parses_back (demo_writer_api m) m"
  "writes_encapsulated (demo_writer_api m) enc 0"
proof -
  show "parses_back (demo_writer_api m) m"
    by (simp add: parses_back_def demo_writer_api_def)
  have "cw_out cw' = cw_out cw @ bs" if "write_all bs cw = (Inr (), cw')" for bs cw cw'
    using write_all_delivered [OF that] by (auto simp: delivered_def)
  then show "writes_encapsulated (demo_writer_api m) enc 0"
    by (simp add: writes_encapsulated_def demo_writer_api_def map_err_Inr_iff split: prod.splits)
qed

lemma demo_direct_succeeds:
  assumes "willing cw" "length v < 1000"
  shows "\<exists>cw'. write_single_large_binary_direct (demo_writer_api m) cw v None = (Inr True, cw') \<and> cw_out cw' \<noteq> []"
proof -
  let ?l = "128 + length v + padding_to_alignment (length v) 64"
  let ?enc = "\<lparr> ed_ipc_message = [1], ed_arrow_data = [] \<rparr>"
  have "?l < 2000" using assms(2) padding_aligns(2) [of 64 "length v"] by simp
  then have l: "direct_body_len (length v) = Some ?l" "\<not> i64_max < int ?l" "\<not> i64_max < int (length v)"
    using assms(2) by (simp_all add: direct_body_len_Some u64_max_def i64_max_def)
  obtain res cw1 where w: "write_all (encapsulate [1] []) cw = (res, cw1)" by force
  then have "res = Inr ()" "willing cw1"
    using write_all_delivered [OF w] assms(1) by (simp_all add: delivered_def)
  moreover obtain cw2 where p: "write_pieces (direct_body v) cw1 = (Inr (), cw2)"
    using write_pieces_willing [OF \<open>willing cw1\<close>] by blast
  moreover have "cw_out cw2 \<noteq> []"
    using write_pieces_out [OF p] by (simp add: direct_body_def)
  ultimately show ?thesis
    using l w
    by (simp add: write_single_large_binary_direct_def write_message_def demo_writer_api_def
        del: write_pieces.simps)
qed

theorem direct_value_is_read_back_witness:
  "let v = [7, 8, 9]; body = concat (direct_body v); W = demo_writer_api (direct_message 3 (length body) None);
       out = write_single_large_binary_direct W
               (chunked_new \<lparr> w_script = [], w_out = [], w_calls = [], w_flushes = [], w_room = None \<rparr>) v None
   in \<exists>msg r'. read_message_bytes (aw_root_as_message W) [Chunk (cw_out (snd out))] 1000
        = Some (Inr (Some (Message (raw_of (msg, body)))), r') \<and> content r' = []"
proof -
  define v :: bytes where "v = [7, 8, 9]"
  define body where "body = concat (direct_body v)"
  define m where "m = direct_message 3 (length body) None"
  define cw where "cw = chunked_new \<lparr> w_script = [], w_out = [], w_calls = [], w_flushes = [], w_room = None \<rparr>"
  have "willing cw" "cw_out cw = []" and v: "length v = 3"
    by (simp_all add: cw_def willing_def chunked_new_def MAX_WRITE_CHUNK_def v_def)
  then obtain cw' where d: "write_single_large_binary_direct (demo_writer_api m) cw v None = (Inr True, cw')"
    and ne: "cw_out cw' \<noteq> []"
    using demo_direct_succeeds [of cw v m] by auto
  have "length body = 192"
    by (simp only: body_def length_direct_body v) (simp add: padding_to_alignment_def)
  moreover have "aw_large_binary_value (demo_writer_api m) v = Some (Some v)"
    "length (aw_build_message (demo_writer_api m) m) = 1"
    by (simp_all add: demo_writer_api_def)
  ultimately have "\<exists>msg r'. read_message_bytes (aw_root_as_message (demo_writer_api m)) [Chunk (cw_out cw')] 1000
      = Some (Inr (Some (Message (raw_of (msg, body)))), r') \<and> content r' = []"
    using direct_value_is_read_back [OF d _ _ body_def demo_writer_api_laws(1) demo_writer_api_laws(2),
        of 1000 "[Chunk (cw_out cw')]" "[]"] \<open>cw_out cw = []\<close> v ne
    by (auto simp: m_def u32_max_def)
  then show ?thesis
    using d unfolding Let_def v_def [symmetric] body_def [symmetric] m_def [symmetric] cw_def [symmetric] by simp
qed

section \<open>Attaching metadata to an encoded batch\<close>

lemma md_get_Cons: "md_get (kv # md) k = (if k = fst kv then Some (snd kv) else md_get md k)"
  by (cases kv) (simp add: md_get_def)

lemma parse_md_vector:
  assumes "distinct (map fst md)"
  shows "md_get (fold (\<lambda>(k, v) acc. md_insert (or_empty k) (or_empty v) acc) (md_vector md) acc) k =
    (case md_get md k of None \<Rightarrow> md_get acc k | Some v \<Rightarrow> Some v)"
  using assms
proof (induction md arbitrary: acc)
  case (Cons kv md)
  then have "md_get md (fst kv) = None"
    by (simp add: md_get_def map_of_eq_None_iff)
  then show ?case
    using Cons by (cases kv) (auto simp: md_vector_def or_empty_def md_get_Cons split: option.splits)
qed (simp add: md_vector_def)



end
