(* ===== verification/Shm_Segment.thy ===== *)
theory Shm_Segment
  imports Shm_Alloc Wire_Write
begin

text \<open>
  Shared-memory segments and pointer batches: the upper half of \<^verbatim>\<open>vgi-rpc/src/shm.rs\<close> and the
  per-connection cache of \<^verbatim>\<open>server.rs\<close>. A segment is its name and the bytes of the mapping; an operation
  returns the bytes afterwards. A batch read without copying keeps an anchor (the offset of its slot)
  whose drop releases the slot; the functions below return the anchor and \<open>anchor_drop\<close> is its
  destructor. The Arrow calls are the records \<^typ>\<open>('s, 'b, 'd) arrow_api\<close>,
  \<^typ>\<open>('s, 'b, 't) arrow_writer_api\<close> and \<open>shm_api\<close>. Offsets and lengths are the 64-bit values of the
  code as natural numbers.
\<close>

section \<open>Frames in a byte region\<close>

definition IPC_EOS :: bytes where "IPC_EOS = [0xFF, 0xFF, 0xFF, 0xFF, 0, 0, 0, 0]"

record ipc_frame =
  fr_metadata_start :: nat
  fr_metadata_len :: nat
  fr_body_start :: nat
  fr_body_len :: nat
  fr_next :: nat

text \<open>The prefix: continuation marker and length, or the legacy bare length.\<close>

definition frame_prefix :: "bytes \<Rightarrow> nat \<Rightarrow> (nat \<times> nat) rpc_result" where
  "frame_prefix bs start =
     and_then (ok_or (ipc_error ''IPC frame prefix overflow'') (checked_add start 4)) (\<lambda>first_end.
     and_then (ensure (first_end \<le> length bs) (ipc_error ''truncated IPC frame prefix'')) (\<lambda>_.
     let first = of_le (subslice start first_end bs) in
     if first = u32_max then
       and_then (ok_or (ipc_error ''IPC metadata prefix overflow'') (checked_add first_end 4)) (\<lambda>length_end.
       and_then (ensure (length_end \<le> length bs) (ipc_error ''truncated IPC metadata prefix'')) (\<lambda>_.
       Inr (length_end, of_le (subslice first_end length_end bs))))
     else Inr (first_end, first)))"

definition ipc_frame_range ::
  "(bytes \<Rightarrow> fb_error + fb_message) \<Rightarrow> bytes \<Rightarrow> nat \<Rightarrow> nat \<Rightarrow> ipc_frame option rpc_result" where
  "ipc_frame_range rootf bs start max_metadata =
     and_then (frame_prefix bs start) (\<lambda>(metadata_start, metadata_len).
     if metadata_len = 0 then Inr None
     else
       and_then (ensure (metadata_len \<le> max_metadata)
         (ipc_error (''IPC metadata length '' @ show_nat metadata_len @ '' exceeds limit ''
            @ show_nat max_metadata))) (\<lambda>_.
       and_then (ok_or (ipc_error ''IPC metadata length overflow'')
         (checked_add metadata_start metadata_len)) (\<lambda>metadata_end.
       and_then (ensure (metadata_end \<le> length bs) (ipc_error ''truncated IPC metadata'')) (\<lambda>_.
       and_then (map_err (\<lambda>e. ipc_error (''parsing SHM IPC message: '' @ fb_error_msg e))
         (rootf (subslice metadata_start metadata_end bs))) (\<lambda>message.
       and_then (ensure (0 \<le> fb_body_length message)
         (ipc_error ''negative IPC message body length'')) (\<lambda>_.
       let body_len = nat (fb_body_length message) in
       and_then (ensure (body_len \<le> MAX_IPC_MESSAGE_BYTES)
         (ipc_error (''IPC message body length '' @ show_nat body_len @ '' exceeds limit ''
            @ show_nat MAX_IPC_MESSAGE_BYTES))) (\<lambda>_.
       and_then (ok_or (ipc_error ''IPC message body range overflow'')
         (checked_add metadata_end body_len)) (\<lambda>nxt.
       and_then (ensure (nxt \<le> length bs) (ipc_error ''truncated IPC message body'')) (\<lambda>_.
       Inr (Some \<lparr> fr_metadata_start = metadata_start, fr_metadata_len = metadata_len,
                   fr_body_start = metadata_end, fr_body_len = body_len, fr_next = nxt \<rparr>))))))))))"

definition frame_metadata :: "bytes \<Rightarrow> ipc_frame \<Rightarrow> bytes" where
  "frame_metadata bs f = subslice (fr_metadata_start f) (fr_metadata_start f + fr_metadata_len f) bs"

definition frame_body :: "bytes \<Rightarrow> ipc_frame \<Rightarrow> bytes" where
  "frame_body bs f = subslice (fr_body_start f) (fr_body_start f + fr_body_len f) bs"

definition decode_non_dict_shm_stream ::
  "('s, 'b, 'd) arrow_api \<Rightarrow> bytes \<Rightarrow> 's \<Rightarrow> 'b rpc_result" where
  "decode_non_dict_shm_stream A buf schema =
     and_then (ipc_frame_range (root_as_message A) buf 0 MAX_IPC_SCHEMA_BYTES) (\<lambda>f1.
     and_then (ok_or (ipc_error ''empty SHM IPC stream'') f1) (\<lambda>schema_frame.
     and_then (map_err (\<lambda>e. ipc_error (''parsing SHM schema message: '' @ fb_error_msg e))
       (root_as_message A (frame_metadata buf schema_frame))) (\<lambda>schema_message.
     and_then (ensure (fb_header_type schema_message = HT_Schema)
       (ipc_error (''expected SHM Schema message, got '' @ header_name (fb_header_type schema_message)))) (\<lambda>_.
     and_then (ipc_frame_range (root_as_message A) buf (fr_next schema_frame) MAX_IPC_MESSAGE_BYTES) (\<lambda>f2.
     and_then (ok_or (ipc_error ''SHM IPC stream has no record batch'') f2) (\<lambda>batch_frame.
     and_then (map_err (\<lambda>e. ipc_error (''parsing SHM record-batch message: '' @ fb_error_msg e))
       (root_as_message A (frame_metadata buf batch_frame))) (\<lambda>batch_message.
     and_then (ensure (fb_header_type batch_message = HT_Record_Batch)
       (ipc_error (''expected SHM RecordBatch message, got ''
          @ header_name (fb_header_type batch_message)))) (\<lambda>_.
     and_then (ok_or (ipc_error ''missing SHM RecordBatch header'')
       (fb_record_batch batch_message)) (\<lambda>record_batch.
     and_then (validate_record_batch_buffers record_batch (fr_body_len batch_frame)) (\<lambda>_.
     and_then (decode_guard ''SHM record batch''
       (read_record_batch A (frame_body buf batch_frame) batch_message schema (no_dictionaries A))) (\<lambda>res.
     map_err rpc_of_arrow res)))))))))))"

section \<open>Serialisation\<close>

text \<open>
  What the segment code asks of the Arrow crates: the schema of a batch and which of its fields are
  dictionary-encoded, sizes, the empty batch of a schema, and the library's own stream writer and
  reader (used for dictionary batches): a complete stream for a batch, a stream with only the
  schema, and opening a stream and taking its first batch.
\<close>

record ('s, 'b) shm_api =
  sa_schema :: "'b \<Rightarrow> 's"
  sa_dictionary_fields :: "'s \<Rightarrow> bool list"
  sa_num_rows :: "'b \<Rightarrow> nat"
  sa_memory_size :: "'b \<Rightarrow> nat"
  sa_column_sizes :: "'b \<Rightarrow> nat list"
  sa_try_empty :: "'s \<Rightarrow> string + 'b"
  sa_stream_bytes :: "'b \<Rightarrow> 's \<Rightarrow> string + bytes"
  sa_schema_stream :: "'s \<Rightarrow> string + bytes"
  sa_open_stream :: "bytes \<Rightarrow> string + (string + 'b) option"

definition schema_has_dictionary :: "('s, 'b) shm_api \<Rightarrow> 's \<Rightarrow> bool" where
  "schema_has_dictionary S schema = list_ex (\<lambda>d. d) (sa_dictionary_fields S schema)"

definition empty_batch :: "('s, 'b) shm_api \<Rightarrow> 's \<Rightarrow> 'b rpc_result" where
  "empty_batch S schema = map_err rpc_of_arrow (sa_try_empty S schema)"

text \<open>\<^verbatim>\<open>bodyLength() as usize\<close> and the sum wrap.\<close>

definition skip_one_ipc_message :: "(bytes \<Rightarrow> fb_error + fb_message) \<Rightarrow> bytes \<Rightarrow> nat rpc_result" where
  "skip_one_ipc_message rootf buf =
     (if length buf < 8 then Inl (ipc_error ''IPC stream too short'')
      else
        let pos = (if take 4 buf = [0xFF, 0xFF, 0xFF, 0xFF] then 4 else 0) in
        if length buf < pos + 4 then Inl (ipc_error ''IPC stream truncated'')
        else
          let meta_len = of_le (subslice pos (pos + 4) buf); pos = pos + 4 in
          if meta_len = 0 then Inl (ipc_error ''unexpected EOS while skipping schema'')
          else if length buf < pos + meta_len then Inl (ipc_error ''IPC metadata truncated'')
          else
            and_then (map_err (\<lambda>e. ipc_error (''parse schema message: '' @ fb_error_msg e))
              (rootf (subslice pos (pos + meta_len) buf))) (\<lambda>msg.
            Inr ((pos + meta_len + nat (fb_body_length msg mod 2 ^ 64)) mod 2 ^ 64)))"

definition strip_trailing_eos :: "bytes \<Rightarrow> bytes rpc_result" where
  "strip_trailing_eos buf =
     (if length buf < length IPC_EOS \<or> drop (length buf - length IPC_EOS) buf \<noteq> IPC_EOS
      then Inl (ipc_error ''stream missing trailing EOS marker'')
      else Inr (take (length buf - length IPC_EOS) buf))"

definition serialize_for_shm ::
  "('s, 'b) shm_api \<Rightarrow> (bytes \<Rightarrow> fb_error + fb_message) \<Rightarrow> 'b \<Rightarrow> 's \<Rightarrow> bytes rpc_result outcome" where
  "serialize_for_shm S rootf batch schema =
     (case sa_stream_bytes S batch schema of
        Inl e \<Rightarrow> Done (Inl (rpc_of_arrow e))
      | Inr buf \<Rightarrow>
          if \<not> schema_has_dictionary S schema then Done (Inr buf)
          else case skip_one_ipc_message rootf buf of
            Inl e \<Rightarrow> Done (Inl e)
          | Inr after_schema \<Rightarrow>
              if length buf < after_schema then Panic
              else Done (strip_trailing_eos (drop after_schema buf)))"

definition first_batch :: "('s, 'b) shm_api \<Rightarrow> bytes \<Rightarrow> 'b rpc_result" where
  "first_batch S bs =
     and_then (map_err rpc_of_arrow (sa_open_stream S bs)) (\<lambda>nxt.
     and_then (ok_or (ipc_error ''empty SHM region'') nxt) (\<lambda>res. map_err rpc_of_arrow res))"

definition deserialize_from_shm :: "('s, 'b) shm_api \<Rightarrow> bytes \<Rightarrow> 's \<Rightarrow> 'b rpc_result" where
  "deserialize_from_shm S region schema =
     (if \<not> schema_has_dictionary S schema then first_batch S region
      else
        and_then (map_err rpc_of_arrow (sa_schema_stream S schema)) (\<lambda>schema_only.
        and_then (ensure (length IPC_EOS \<le> length schema_only)
          (ipc_error ''schema-only stream too short'')) (\<lambda>_.
        first_batch S (take (length schema_only - length IPC_EOS) schema_only @ region @ IPC_EOS))))"

section \<open>The segment\<close>

record shm_segment =
  seg_name :: string
  seg_mem :: bytes

definition segment_reset :: "shm_segment \<Rightarrow> shm_segment" where
  "segment_reset g = g\<lparr> seg_mem := reset (seg_mem g) \<rparr>"

definition segment_free :: "shm_segment \<Rightarrow> nat \<Rightarrow> unit rpc_result \<times> shm_segment" where
  "segment_free g offset =
     (case free (seg_mem g) offset of (res, mem) \<Rightarrow> (res, g\<lparr> seg_mem := mem \<rparr>))"

text \<open>\<^verbatim>\<open>Drop\<close> of the anchor behind a zero-copy batch.\<close>

definition anchor_drop :: "nat \<Rightarrow> shm_segment \<Rightarrow> shm_segment" where
  "anchor_drop offset g =
     (case shm_attach (seg_mem g) of
        Done (Inr _) \<Rightarrow> snd (segment_free g offset)
      | _ \<Rightarrow> g)"

definition read_bytes :: "shm_segment \<Rightarrow> nat \<Rightarrow> nat \<Rightarrow> bytes rpc_result" where
  "read_bytes g off len =
     and_then (ok_or (value_error ''shm region overflow'') (checked_add off len)) (\<lambda>e.
     and_then (ensure (e \<le> length (seg_mem g))
       (value_error (''shm region '' @ show_nat off @ ''..'' @ show_nat e @ '' out of bounds (size=''
          @ show_nat (length (seg_mem g)) @ '')''))) (\<lambda>_.
     Inr (subslice off e (seg_mem g))))"

text \<open>The stream written through a cursor over the reserved slot: the result and the bytes left there.\<close>

definition write_stream_into ::
  "('s, 'b, 't) arrow_writer_api \<Rightarrow> 'b \<Rightarrow> 's \<Rightarrow> nat \<Rightarrow> nat rpc_result \<times> bytes" where
  "write_stream_into W batch schema room =
     (case stream_writer_new W
         \<lparr> w_script = [], w_out = [], w_calls = [], w_flushes = [], w_room = Some room \<rparr> schema of
        (Inl e, cw) \<Rightarrow> (Inl e, w_out (cw_inner cw))
      | (Inr sw, _) \<Rightarrow>
          (case stream_write W batch None sw of
             (Inl e, sw) \<Rightarrow> (Inl e, out_of (stream_drop sw))
           | (Inr _, sw) \<Rightarrow>
               (case stream_finish sw of
                  (Inl e, sw) \<Rightarrow> (Inl e, out_of (stream_drop sw))
                | (Inr _, sw) \<Rightarrow> (Inr (length (out_of (stream_drop sw))), out_of (stream_drop sw)))))"

definition contains_str :: "string \<Rightarrow> string \<Rightarrow> bool" where
  "contains_str needle s =
     list_ex (\<lambda>i. take (length needle) (drop i s) = needle) [0..<Suc (length s)]"

definition out_of_bounds :: rpc_error where
  "out_of_bounds = value_error ''shm allocator returned out-of-bounds offset''"

text \<open>The copying path for dictionary batches.\<close>

definition write_copied ::
  "shm_segment \<Rightarrow> bytes \<Rightarrow> (nat \<times> nat) option rpc_result \<times> shm_segment" where
  "write_copied g bs =
     (case align_ipc_allocation (length bs) of
        None \<Rightarrow> (Inl (value_error ''shm allocation size overflow''), g)
      | Some allocation_size \<Rightarrow>
          (case allocate (seg_mem g) allocation_size of
             (None, mem) \<Rightarrow> (Inr None, g\<lparr> seg_mem := mem \<rparr>)
           | (Some offset, mem) \<Rightarrow>
               let g = g\<lparr> seg_mem := mem \<rparr> in
               if offset + length bs \<le> length mem
               then (Inr (Some (offset, length bs)), g\<lparr> seg_mem := overwrite offset bs mem \<rparr>)
               else (Inl out_of_bounds, snd (segment_free g offset))))"

text \<open>The size reserved for an in-place write.\<close>

definition reserve_size :: "nat \<Rightarrow> nat \<Rightarrow> nat" where
  "reserve_size memory_size seg_size =
     (let reserve = saturating_add (saturating_mul memory_size 2) 65536;
          max_region = seg_size - HEADER_SIZE
      in case align_ipc_allocation reserve of
           Some n \<Rightarrow> if n \<le> max_region then n else max_region div SHM_ALIGNMENT * SHM_ALIGNMENT
         | None \<Rightarrow> max_region div SHM_ALIGNMENT * SHM_ALIGNMENT)"

definition write_in_place ::
  "('s, 'b, 't) arrow_writer_api \<Rightarrow> 'b \<Rightarrow> 's \<Rightarrow> nat \<Rightarrow> shm_segment
     \<Rightarrow> (nat \<times> nat) option rpc_result \<times> shm_segment" where
  "write_in_place W batch schema reserve g =
     (if reserve = 0 then (Inr None, g)
      else case allocate (seg_mem g) reserve of
        (None, mem) \<Rightarrow> (Inr None, g\<lparr> seg_mem := mem \<rparr>)
      | (Some offset, mem) \<Rightarrow>
          let g = g\<lparr> seg_mem := mem \<rparr> in
          if length mem < offset + reserve then (Inl out_of_bounds, snd (segment_free g offset))
          else
            (case write_stream_into W batch schema reserve of
               (res, out) \<Rightarrow>
                 let g = g\<lparr> seg_mem := overwrite offset out mem \<rparr> in
                 (case res of
                    Inl e \<Rightarrow>
                      let g = snd (segment_free g offset) in
                      if contains_str ''failed to write whole buffer'' (e_message e)
                         \<or> contains_str ''write zero'' (e_message e)
                      then (Inr None, g) else (Inl e, g)
                  | Inr actual \<Rightarrow>
                      (case align_ipc_allocation actual of
                         None \<Rightarrow> (Inl (value_error ''shm allocation size overflow''), g)
                       | Some allocation_size \<Rightarrow>
                           (case shrink (seg_mem g) offset allocation_size of
                              (Inl e, mem) \<Rightarrow> (Inl e, g\<lparr> seg_mem := mem \<rparr>)
                            | (Inr _, mem) \<Rightarrow> (Inr (Some (offset, actual)), g\<lparr> seg_mem := mem \<rparr>))))))"

definition allocate_and_write ::
  "('s, 'b, 't) arrow_writer_api \<Rightarrow> ('s, 'b) shm_api \<Rightarrow> 'b \<Rightarrow> shm_segment
     \<Rightarrow> (nat \<times> nat) option rpc_result outcome \<times> shm_segment" where
  "allocate_and_write W S batch g =
     (let schema = sa_schema S batch in
      if schema_has_dictionary S schema then
        (case serialize_for_shm S (aw_root_as_message W) batch schema of
           Panic \<Rightarrow> (Panic, g)
         | Done (Inl e) \<Rightarrow> (Done (Inl e), g)
         | Done (Inr bs) \<Rightarrow> (case write_copied g bs of (res, g') \<Rightarrow> (Done res, g')))
      else
        (case write_in_place W batch schema
             (reserve_size (sa_memory_size S batch) (length (seg_mem g))) g of
           (res, g') \<Rightarrow> (Done res, g')))"

definition read_batch ::
  "('s, 'b, 'd) arrow_api \<Rightarrow> ('s, 'b) shm_api \<Rightarrow> shm_segment \<Rightarrow> nat \<Rightarrow> nat \<Rightarrow> 's
     \<Rightarrow> ('b \<times> nat option) rpc_result \<times> shm_segment" where
  "read_batch A S g off len schema =
     (case checked_add off len of
        None \<Rightarrow> (Inl (value_error ''shm region overflow''), g)
      | Some e \<Rightarrow>
          if length (seg_mem g) < e then
            (Inl (value_error (''shm region out of bounds: '' @ show_nat off @ ''..'' @ show_nat e
               @ '' > '' @ show_nat (length (seg_mem g)))), g)
          else
            let region = subslice off e (seg_mem g) in
            if schema_has_dictionary S schema then
              (and_then (deserialize_from_shm S region schema) (\<lambda>b. Inr (b, None)), g)
            else
              (case decode_non_dict_shm_stream A region schema of
                 Inl er \<Rightarrow> (Inl er, anchor_drop off g)
               | Inr b \<Rightarrow> (Inr (b, Some off), g)))"

section \<open>Pointer batches\<close>

definition make_shm_pointer_batch ::
  "('s, 'b) shm_api \<Rightarrow> 's \<Rightarrow> nat \<Rightarrow> nat \<Rightarrow> ('b \<times> metadata) rpc_result" where
  "make_shm_pointer_batch S schema offset len =
     and_then (empty_batch S schema) (\<lambda>batch.
     Inr (batch, md_insert SHM_LENGTH_KEY (show_nat len) (md_insert SHM_OFFSET_KEY (show_nat offset) [])))"

definition is_shm_pointer_batch :: "('s, 'b) shm_api \<Rightarrow> 'b \<Rightarrow> metadata \<Rightarrow> bool" where
  "is_shm_pointer_batch S batch md =
     (if sa_num_rows S batch \<noteq> 0 then False
      else md_contains md SHM_OFFSET_KEY \<and> \<not> md_contains md LOG_LEVEL_KEY)"

record 'b resolved_shm =
  rs_batch :: 'b
  rs_metadata :: metadata
  rs_release_offset :: "nat option"
  rs_anchor :: "nat option"

definition resolve_shm_batch ::
  "('s, 'b, 'd) arrow_api \<Rightarrow> ('s, 'b) shm_api \<Rightarrow> 'b \<Rightarrow> metadata \<Rightarrow> shm_segment option
     \<Rightarrow> 'b resolved_shm rpc_result \<times> shm_segment option" where
  "resolve_shm_batch A S batch md shm =
     (let unchanged = \<lparr> rs_batch = batch, rs_metadata = md, rs_release_offset = None, rs_anchor = None \<rparr> in
      case shm of
        None \<Rightarrow> (Inr unchanged, None)
      | Some g \<Rightarrow>
          if \<not> is_shm_pointer_batch S batch md then (Inr unchanged, Some g)
          else case Option.bind (md_get md SHM_OFFSET_KEY) parse_u64 of
            None \<Rightarrow> (Inl (value_error ''bad shm_offset''), Some g)
          | Some offset \<Rightarrow>
              (case Option.bind (md_get md SHM_LENGTH_KEY) parse_u64 of
                 None \<Rightarrow> (Inl (value_error ''bad shm_length''), Some g)
               | Some len \<Rightarrow>
                   (case read_batch A S g offset len (sa_schema S batch) of
                      (Inl e, g') \<Rightarrow> (Inl e, Some g')
                    | (Inr (b, anchor), g') \<Rightarrow>
                        let md = md_remove SHM_LENGTH_KEY (md_remove SHM_OFFSET_KEY md);
                            md = md_insert SHM_SOURCE_KEY (seg_name g) md
                        in (Inr \<lparr> rs_batch = b, rs_metadata = md,
                                 rs_release_offset =
                                   (if schema_has_dictionary S (sa_schema S batch) then Some offset else None),
                                 rs_anchor = anchor \<rparr>, Some g'))))"

definition shm_min_batch_bytes :: "string option \<Rightarrow> bool \<Rightarrow> nat" where
  "shm_min_batch_bytes env windows =
     (case Option.bind env parse_u64 of
        Some v \<Rightarrow> v
      | None \<Rightarrow> if windows then 1024 * 1024 else 128 * 1024)"

definition maybe_write_to_shm ::
  "('s, 'b, 't) arrow_writer_api \<Rightarrow> ('s, 'b) shm_api \<Rightarrow> nat \<Rightarrow> 'b \<Rightarrow> metadata \<Rightarrow> shm_segment option
     \<Rightarrow> ('b \<times> metadata) rpc_result outcome \<times> shm_segment option" where
  "maybe_write_to_shm W S threshold batch md shm =
     (case shm of
        None \<Rightarrow> (Done (Inr (batch, md)), None)
      | Some g \<Rightarrow>
          if sa_num_rows S batch = 0 then (Done (Inr (batch, md)), Some g)
          else if sum_list (sa_column_sizes S batch) < threshold then (Done (Inr (batch, md)), Some g)
          else case allocate_and_write W S batch g of
            (Panic, g') \<Rightarrow> (Panic, Some g')
          | (Done (Inl e), g') \<Rightarrow> (Done (Inl e), Some g')
          | (Done (Inr None), g') \<Rightarrow> (Done (Inr (batch, md)), Some g')
          | (Done (Inr (Some (offset, len))), g') \<Rightarrow>
              (case make_shm_pointer_batch S (sa_schema S batch) offset len of
                 Inl e \<Rightarrow> (Done (Inl e), Some g')
               | Inr (pointer, pointer_md) \<Rightarrow>
                   (Done (Inr (pointer, fold (\<lambda>(k, v) acc. md_insert k v acc) pointer_md md)), Some g')))"

section \<open>The per-connection cache\<close>

text \<open>
  \<open>os_attach\<close> stands for mapping a named object at a size: the bytes, or an error. A panic while the
  header is checked ends the serving thread.
\<close>

definition maybe_attach_shm ::
  "(string \<Rightarrow> nat \<Rightarrow> bytes rpc_result) \<Rightarrow> metadata \<Rightarrow> shm_segment option outcome" where
  "maybe_attach_shm os_attach md =
     (case md_get md SHM_SEGMENT_NAME_KEY of
        None \<Rightarrow> Done None
      | Some name \<Rightarrow>
          (case Option.bind (md_get md SHM_SEGMENT_SIZE_KEY) parse_u64 of
             None \<Rightarrow> Done None
           | Some sz \<Rightarrow>
               (case os_attach name sz of
                  Inl _ \<Rightarrow> Done None
                | Inr mem \<Rightarrow>
                    (case shm_attach mem of
                       Panic \<Rightarrow> Panic
                     | Done (Inl _) \<Rightarrow> Done None
                     | Done (Inr _) \<Rightarrow> Done (Some \<lparr> seg_name = name, seg_mem = mem \<rparr>)))))"

record connection_shm =
  cs_name :: "string option"
  cs_segment :: "shm_segment option"

definition connection_refresh ::
  "(string \<Rightarrow> nat \<Rightarrow> bytes rpc_result) \<Rightarrow> metadata \<Rightarrow> connection_shm \<Rightarrow> connection_shm outcome" where
  "connection_refresh os_attach md c =
     (case md_get md SHM_SEGMENT_NAME_KEY of
        None \<Rightarrow> Done c
      | Some name \<Rightarrow>
          if cs_name c = Some name then Done c
          else case maybe_attach_shm os_attach md of
            Panic \<Rightarrow> Panic
          | Done None \<Rightarrow> Done c
          | Done (Some g) \<Rightarrow> Done \<lparr> cs_name = Some name, cs_segment = Some g \<rparr>)"

section \<open>Frame ranges\<close>

lemma frame_prefix_Inr:
  assumes "frame_prefix bs start = Inr (ms, ml)"
  shows "start + 4 \<le> ms \<and> ms \<le> start + 8 \<and> ms \<le> length bs"
  using assms
  by (auto simp: frame_prefix_def Let_def result_simps split: if_splits)

text \<open>Whatever bytes the peer left in the segment, a frame that the in-place parser returns lies inside
  the region: a non-empty header within the limit behind the prefix, the body right behind it, and the
  next frame strictly further on.
\<close>
theorem frame_range_stays_inside:
  assumes "ipc_frame_range rootf bs start max_metadata = Inr (Some f)"
  shows "start + 4 \<le> fr_metadata_start f \<and> fr_metadata_start f \<le> start + 8
    \<and> 0 < fr_metadata_len f \<and> fr_metadata_len f \<le> max_metadata
    \<and> fr_body_start f = fr_metadata_start f + fr_metadata_len f
    \<and> fr_body_len f \<le> MAX_IPC_MESSAGE_BYTES
    \<and> fr_next f = fr_body_start f + fr_body_len f \<and> fr_next f \<le> length bs"
proof -
  obtain ms ml where p: "frame_prefix bs start = Inr (ms, ml)"
    using assms by (auto simp: ipc_frame_range_def result_simps)
  then show ?thesis
    using assms frame_prefix_Inr [OF p]
    by (auto simp: ipc_frame_range_def Let_def result_simps split: if_splits)
qed

lemma of_le_CONTINUATION: "of_le CONTINUATION_MARKER = u32_max"
  by (simp add: CONTINUATION_MARKER_def of_le_def u32_max_def)

lemma frame_prefix_encapsulated:
  assumes "length bs \<le> u64_max" "bs = pre @ encapsulate msg body @ rest" "length msg \<le> u32_max"
  shows "frame_prefix bs (length pre) = Inr (length pre + 8, length msg)"
proof -
  have "subslice (length pre) (length pre + 4) bs = CONTINUATION_MARKER"
    "subslice (length pre + 4) (length pre + 4 + 4) bs = le_bytes 4 (length msg)"
    by (simp_all add: subslice_def assms(2) encapsulate_def)
  then show ?thesis
    using assms(1,3) le4_round [OF assms(3)]
    by (simp add: frame_prefix_def Let_def of_le_CONTINUATION checked_add_def)
      (simp add: assms(2) encapsulate_def ensure_def)
qed

lemma frame_range_encapsulated:
  assumes len: "length bs \<le> u64_max" and bs: "bs = pre @ encapsulate msg body @ rest"
    and ok: "frame_ok rootf cap (msg, body)" and cap: "length msg \<le> cap'"
  shows "\<exists>f. ipc_frame_range rootf bs (length pre) cap' = Inr (Some f)
    \<and> frame_metadata bs f = msg \<and> frame_body bs f = body
    \<and> fr_body_len f = length body \<and> fr_next f = length (pre @ encapsulate msg body)"
proof -
  obtain fb where fb: "rootf msg = Inr fb" "fb_body_length fb = int (length body)" "msg \<noteq> []"
    "length msg \<le> u32_max" "length body \<le> u32_max"
    using ok by (auto simp: frame_ok_def split: sum.splits)
  have sl: "subslice (length pre + 8) (length pre + 8 + length msg) bs = msg"
    "subslice (length pre + 8 + length msg) (length pre + 8 + length msg + length body) bs = body"
    by (simp_all add: subslice_def bs encapsulate_def)
  have total_len: "length bs = length pre + 8 + length msg + length body + length rest"
    by (simp add: bs encapsulate_def)
  show ?thesis
    using frame_prefix_encapsulated [OF len bs fb(4)] fb sl cap len
    by (simp add: ipc_frame_range_def checked_add_def total_len MAX_IPC_MESSAGE_BYTES_def Let_def
        frame_metadata_def frame_body_def encapsulate_def)
qed

text \<open>What decoding needs of a schema frame and a batch frame.\<close>

definition decodes_to ::
  "('s, 'b, 'd) arrow_api \<Rightarrow> bytes \<times> bytes \<Rightarrow> bytes \<times> bytes \<Rightarrow> 's \<Rightarrow> 'b \<Rightarrow> bool" where
  "decodes_to A sf bf schema batch =
     (frame_ok (root_as_message A) MAX_IPC_SCHEMA_BYTES sf
      \<and> frame_ok (root_as_message A) MAX_IPC_MESSAGE_BYTES bf
      \<and> (\<exists>sm bm rb. root_as_message A (fst sf) = Inr sm \<and> fb_header_type sm = HT_Schema
           \<and> root_as_message A (fst bf) = Inr bm \<and> fb_header_type bm = HT_Record_Batch
           \<and> fb_record_batch bm = Some rb
           \<and> validate_record_batch_buffers rb (length (snd bf)) = Inr ()
           \<and> read_record_batch A (snd bf) bm schema (no_dictionaries A) = Done (Inr batch)))"

lemma decode_stream:
  assumes "decodes_to A (smsg, sbody) (bmsg, bbody) schema batch"
    and "buf = encapsulate smsg sbody @ encapsulate bmsg bbody @ rest" "length buf \<le> u64_max"
  shows "decode_non_dict_shm_stream A buf schema = Inr batch"
proof -
  have ok: "frame_ok (root_as_message A) MAX_IPC_SCHEMA_BYTES (smsg, sbody)"
    "frame_ok (root_as_message A) MAX_IPC_MESSAGE_BYTES (bmsg, bbody)"
    using assms(1) by (simp_all add: decodes_to_def)
  then have caps: "length smsg \<le> MAX_IPC_SCHEMA_BYTES" "length bmsg \<le> MAX_IPC_MESSAGE_BYTES"
    by (simp_all add: frame_ok_def)
  obtain f1 where f1: "ipc_frame_range (root_as_message A) buf 0 MAX_IPC_SCHEMA_BYTES = Inr (Some f1)"
    "frame_metadata buf f1 = smsg" "fr_next f1 = length (encapsulate smsg sbody)"
    using frame_range_encapsulated [OF assms(3) _ ok(1) caps(1), of "[]"] assms(2) by auto
  obtain f2 where "ipc_frame_range (root_as_message A) buf (fr_next f1) MAX_IPC_MESSAGE_BYTES = Inr (Some f2)"
    "frame_metadata buf f2 = bmsg" "frame_body buf f2 = bbody" "fr_body_len f2 = length bbody"
    using frame_range_encapsulated [OF assms(3) assms(2) ok(2) caps(2)] f1(3) by auto
  then show ?thesis
    using f1 assms(1) by (auto simp: decode_non_dict_shm_stream_def decodes_to_def decode_guard_def)
qed

section \<open>What fits into a reserved slot\<close>

definition fits_room :: "nat \<Rightarrow> chunked_writer \<Rightarrow> bool" where
  "fits_room c cw = (w_room (cw_inner cw) = Some c \<and> length (cw_out cw) \<le> c)"

text \<open>The only access \<^verbatim>\<open>write_message\<close> has to the target is through its writer.\<close>

definition through_writer :: "('s, 'b, 't) arrow_writer_api \<Rightarrow> bool" where
  "through_writer W =
     (\<forall>enc cw res cw' c. aw_write_message W enc cw = (res, cw') \<and> fits_room c cw \<longrightarrow> fits_room c cw')"

lemma write_all_room: "write_all bs cw = (res, cw') \<Longrightarrow> fits_room c cw \<Longrightarrow> fits_room c cw'"
  using write_all_delivered [of bs cw res cw'] by (auto simp: delivered_def fits_room_def within_room_def)

lemma write_pieces_room: "write_pieces bs cw = (res, cw') \<Longrightarrow> fits_room c cw \<Longrightarrow> fits_room c cw'"
  by (induction bs arbitrary: cw) (auto split: prod.splits sum.splits dest: write_all_room)

lemma write_message_room:
  "through_writer W \<Longrightarrow> write_message W enc cw = (res, cw') \<Longrightarrow> fits_room c cw \<Longrightarrow> fits_room c cw'"
  by (auto simp: write_message_def through_writer_def split: prod.splits)

lemma write_messages_room:
  "through_writer W \<Longrightarrow> write_messages W ds cw = (res, cw') \<Longrightarrow> fits_room c cw \<Longrightarrow> fits_room c cw'"
  by (induction ds arbitrary: cw) (auto split: prod.splits sum.splits dest: write_message_room)

lemma direct_room:
  assumes "through_writer W" "write_single_large_binary_direct W cw batch md = (res, cw')" "fits_room c cw"
  shows "fits_room c cw'"
  using assms(2,3)
  by (auto simp: write_single_large_binary_direct_def Let_def simp del: write_pieces.simps
      split: if_splits option.splits prod.splits sum.splits
      dest!: write_message_room [OF assms(1)] write_pieces_room)

lemma stream_write_room:
  assumes "through_writer W" "stream_write W batch md sw = (res, sw')" "fits_room c (sw_writer sw)"
  shows "fits_room c (sw_writer sw')"
proof -
  obtain r cw where d: "write_single_large_binary_direct W (sw_writer sw) batch md = (r, cw)" by force
  note room = direct_room [OF assms(1) d assms(3)]
  show ?thesis
    using assms(2,3) room
    by (auto simp: stream_write_def d Let_def simp del: write_messages.simps
        split: if_splits sum.splits prod.splits bool.splits option.splits
        dest!: write_messages_room [OF assms(1)] write_message_room [OF assms(1)])
qed

lemma chunked_flush_room: "chunked_flush cw = (res, cw') \<Longrightarrow> fits_room c cw \<Longrightarrow> fits_room c cw'"
  by (auto simp: chunked_flush_cases fits_room_def split: list.splits option.splits)

lemma stream_finish_room:
  "stream_finish sw = (res, sw') \<Longrightarrow> fits_room c (sw_writer sw) \<Longrightarrow> fits_room c (sw_writer sw')"
  by (auto simp: stream_finish_def simp del: write_pieces.simps
      split: if_splits sum.splits prod.splits dest!: write_pieces_room chunked_flush_room)

lemma stream_drop_room: "fits_room c (sw_writer sw) \<Longrightarrow> fits_room c (sw_writer (stream_drop sw))"
  using stream_finish_room [OF surjective_pairing] by (simp add: stream_drop_def)

lemma finish_out:
  assumes "stream_finish sw = (Inr u, sw')" "\<not> sw_finished sw"
  shows "out_of sw' = out_of sw @ eos_marker" "sw_finished sw'"
  using assms
  by (auto simp: stream_finish_def out_of_def chunked_flush_cases simp del: write_pieces.simps
      split: sum.splits prod.splits list.splits option.splits
      dest!: write_pieces_out simp flip: eos_pieces)

lemma write_stream_into_cases:
  assumes "write_stream_into W batch schema room = (res, out)"
  obtains (new_failed) e cw where "stream_writer_new W
        \<lparr> w_script = [], w_out = [], w_calls = [], w_flushes = [], w_room = Some room \<rparr> schema = (Inl e, cw)"
      "res = Inl e" "out = cw_out cw"
  | (failed) sw cw e sw' where "stream_writer_new W
        \<lparr> w_script = [], w_out = [], w_calls = [], w_flushes = [], w_room = Some room \<rparr> schema = (Inr sw, cw)"
      "res = Inl e" "out = out_of (stream_drop sw')"
      "stream_write W batch None sw = (Inl e, sw')
        \<or> (\<exists>sw1. stream_write W batch None sw = (Inr (), sw1) \<and> stream_finish sw1 = (Inl e, sw'))"
  | (written) sw cw sw1 sw2 where "stream_writer_new W
        \<lparr> w_script = [], w_out = [], w_calls = [], w_flushes = [], w_room = Some room \<rparr> schema = (Inr sw, cw)"
      "stream_write W batch None sw = (Inr (), sw1)" "stream_finish sw1 = (Inr (), sw2)"
      "res = Inr (length out)" "out = out_of (stream_drop sw2)"
  using assms
  by (auto simp: write_stream_into_def split: prod.splits sum.splits)

lemma stream_writer_new_room:
  assumes "through_writer W" "stream_writer_new W w schema = (res, cw)" "fits_room c (chunked_new w)"
  shows "fits_room c cw" "res = Inr sw \<Longrightarrow> sw_writer sw = cw \<and> \<not> sw_finished sw"
  using assms
  by (auto simp: stream_writer_new_def split: prod.splits sum.splits dest: write_message_room)

lemma stream_write_unfinished:
  "stream_write W batch md sw = (Inr u, sw') \<Longrightarrow> \<not> sw_finished sw'"
  by (auto simp: stream_write_def Let_def split: if_splits sum.splits prod.splits bool.splits option.splits)

lemma write_stream_into_spec:
  assumes "through_writer W" "write_stream_into W batch schema room = (res, out)"
  shows "length out \<le> room" "res = Inr n \<Longrightarrow> n = length out \<and> 0 < n"
proof -
  let ?w = "\<lparr> w_script = [], w_out = [], w_calls = [], w_flushes = [], w_room = Some room \<rparr>"
  have init: "fits_room room (chunked_new ?w)"
    by (simp add: fits_room_def chunked_new_def)
  note new = stream_writer_new_room [OF assms(1) _ init]
  have out: "length (out_of sw) \<le> room" if "fits_room room (sw_writer sw)" for sw :: "('a, 'c) stream_writer"
    using that by (simp add: fits_room_def out_of_def)
  have "length out \<le> room \<and> (\<forall>n. res = Inr n \<longrightarrow> n = length out \<and> 0 < n)"
    using assms(2)
  proof (cases rule: write_stream_into_cases)
    case (new_failed e cw)
    then show ?thesis using new(1) [OF new_failed(1)] by (simp add: fits_room_def)
  next
    case (failed sw cw e sw')
    have "fits_room room (sw_writer sw)" using new [OF failed(1)] by auto
    then have "fits_room room (sw_writer sw')"
      using failed(4) stream_write_room [OF assms(1)] stream_finish_room by blast
    then show ?thesis using out stream_drop_room failed by auto
  next
    case (written sw cw sw1 sw2)
    have "fits_room room (sw_writer sw)" using new [OF written(1)] by auto
    then have "fits_room room (sw_writer sw2)"
      using written(2,3) stream_write_room [OF assms(1)] stream_finish_room by blast
    moreover have "stream_drop sw2 = sw2" "out_of sw2 \<noteq> []"
      using finish_out [OF written(3) stream_write_unfinished [OF written(2)]]
      by (simp_all add: stream_drop_def stream_finish_def eos_marker_def)
    ultimately show ?thesis using out written(4,5) by auto
  qed
  then show "length out \<le> room" "res = Inr n \<Longrightarrow> n = length out \<and> 0 < n" by auto
qed

section \<open>The segment as a map from offsets to blocks\<close>

text \<open>The abstract state: the blocks in use, by offset. Alignment: every block starts and ends on a
  64-byte boundary.\<close>

definition heap :: "shm_segment \<Rightarrow> nat \<Rightarrow> bytes option" where
  "heap g k = map_option (\<lambda>l. subslice k (k + l) (seg_mem g)) (slots (seg_mem g) k)"

definition aligned :: "shm_segment \<Rightarrow> bool" where
  "aligned g = (\<forall>k l. slots (seg_mem g) k = Some l \<longrightarrow> SHM_ALIGNMENT dvd k \<and> SHM_ALIGNMENT dvd l)"

definition seg_inv :: "shm_segment \<Rightarrow> bool" where
  "seg_inv g = (alloc_inv (seg_mem g) \<and> aligned g)"

lemma find_gap_dvd:
  assumes "find_gap sz hi pe i al = Some (j, p)" "d dvd pe"
    "\<forall>e\<in>set al. d dvd fst e \<and> d dvd snd e \<and> fst e + snd e \<le> u64_max"
  shows "d dvd p"
  using assms
proof (induction al arbitrary: pe i)
  case (Cons e al)
  obtain off len where e: "e = (off, len)" by (cases e)
  have "saturating_add off len = off + len" "d dvd off + len"
    using Cons.prems(3) by (simp_all add: e saturating_add_def)
  then show ?case
    using Cons by (auto simp: e max_def split: if_splits)
qed (auto split: if_splits)

lemma entries_aligned:
  assumes "seg_inv g" "e \<in> set (read_allocs (seg_mem g))"
  shows "SHM_ALIGNMENT dvd fst e \<and> SHM_ALIGNMENT dvd snd e \<and> fst e + snd e \<le> u64_max"
proof -
  have inv: "alloc_inv (seg_mem g)" using assms(1) by (simp add: seg_inv_def)
  have "slots (seg_mem g) (fst e) = Some (snd e)"
    using alloc_inv_table(3) [OF inv] assms(2) by (simp add: slots_def)
  moreover have "fst e + snd e \<le> u64_max"
    using inv assms(2) by (auto simp: alloc_inv_def seg_ok_def)
  ultimately show ?thesis using assms(1) by (simp add: seg_inv_def aligned_def)
qed

lemma allocate_dvd:
  assumes "seg_inv g" "allocate (seg_mem g) sz = (Some p, mem)"
  shows "SHM_ALIGNMENT dvd p"
proof -
  obtain j where "find_gap sz (length (seg_mem g)) HEADER_SIZE 0 (sort_key fst (read_allocs (seg_mem g))) = Some (j, p)"
    using assms(2) by (auto simp: allocate_def Let_def split: if_splits option.splits)
  then show ?thesis
    by (rule find_gap_dvd) (use entries_aligned [OF assms(1)] in \<open>auto simp: layout_defs SHM_ALIGNMENT_def\<close>)
qed

lemma align_ipc_allocation_Some:
  assumes "align_ipc_allocation n = Some m"
  shows "n \<le> m" "m < n + SHM_ALIGNMENT" "SHM_ALIGNMENT dvd m"
proof -
  have "m = (n + 63) div 64 * 64"
    using assms by (auto simp: align_ipc_allocation_def SHM_ALIGNMENT_def)
  then show "n \<le> m" "m < n + SHM_ALIGNMENT" "SHM_ALIGNMENT dvd m"
    by (simp_all add: SHM_ALIGNMENT_def)
qed

lemma reserve_size_dvd: "SHM_ALIGNMENT dvd reserve_size n sz"
  using align_ipc_allocation_Some(3) by (auto simp: reserve_size_def Let_def split: option.splits)

text \<open>Writing to the data area leaves the table alone.\<close>

lemma data_overwrite:
  assumes "alloc_inv mem" "HEADER_SIZE \<le> off" "off + length bs \<le> length mem"
  shows "alloc_inv (overwrite off bs mem)" "slots (overwrite off bs mem) = slots mem"
    "length (overwrite off bs mem) = length mem"
proof -
  show len: "length (overwrite off bs mem) = length mem"
    using assms(3) by simp
  have same: "subslice p q (overwrite off bs mem) = subslice p q mem" if "q \<le> HEADER_SIZE" for p q
    using that assms(2,3) by (simp add: subslice_overwrite_disjoint)
  have "read_entry (overwrite off bs mem) i = read_entry mem i" if "i < MAX_ALLOCS" for i
    using entry_base_bounds(1) [OF that] by (simp add: read_entry_def same)
  moreover have n: "num_allocs (overwrite off bs mem) = num_allocs mem"
    by (simp add: num_allocs_def same HEADER_SIZE_def)
  ultimately have tab: "read_allocs (overwrite off bs mem) = read_allocs mem"
    by (simp add: read_allocs_def)
  then show "slots (overwrite off bs mem) = slots mem" by (simp add: slots_def)
  show "alloc_inv (overwrite off bs mem)"
    using assms(1) by (simp add: alloc_inv_def tab n len seg_ok_def)
qed

text \<open>Two segments whose data areas agree outside one fresh block.\<close>

lemma heap_add:
  assumes "alloc_inv mem'" "slots mem' = (slots (seg_mem g))(p \<mapsto> n)" "slots (seg_mem g) p = None"
    and "\<And>u v. HEADER_SIZE \<le> u \<Longrightarrow> v \<le> length mem' \<Longrightarrow> v \<le> p \<or> p + n \<le> u \<Longrightarrow>
           subslice u v mem' = subslice u v (seg_mem g)"
  shows "heap (g\<lparr> seg_mem := mem' \<rparr>) = (heap g)(p \<mapsto> subslice p (p + n) mem')"
proof
  fix k
  show "heap (g\<lparr> seg_mem := mem' \<rparr>) k = ((heap g)(p \<mapsto> subslice p (p + n) mem')) k"
  proof (cases "k = p \<or> slots (seg_mem g) k = None")
    case True
    then show ?thesis using assms(2) by (auto simp: heap_def)
  next
    case False
    then obtain l where l: "slots (seg_mem g) k = Some l" "k \<noteq> p" by auto
    then have "slots mem' k = Some l" "slots mem' p = Some n" using assms(2) by auto
    then have "subslice k (k + l) mem' = subslice k (k + l) (seg_mem g)"
      using assms(4) [of k "k + l"] slots_region [OF assms(1), of k l] slots_disjoint [OF assms(1), of k l p n] l(2)
      by simp
    then show ?thesis using l assms(2) by (simp add: heap_def)
  qed
qed

lemma seg_inv_add:
  assumes "seg_inv g" "alloc_inv mem'" "slots mem' = (slots (seg_mem g))(p \<mapsto> n)"
    "SHM_ALIGNMENT dvd p" "SHM_ALIGNMENT dvd n"
  shows "seg_inv (g\<lparr> seg_mem := mem' \<rparr>)"
  using assms by (auto simp: seg_inv_def aligned_def)

text \<open>Releasing the block again restores the blocks there were, whatever its bytes.\<close>

lemma release_block:
  assumes "seg_inv g" "slots (seg_mem g) p = None" "alloc_inv mem'" "slots mem' = (slots (seg_mem g))(p \<mapsto> n)"
    and "length mem' = length (seg_mem g)"
    and "\<And>u v. HEADER_SIZE \<le> u \<Longrightarrow> v \<le> length mem' \<Longrightarrow> v \<le> p \<or> p + n \<le> u \<Longrightarrow>
           subslice u v mem' = subslice u v (seg_mem g)"
  shows "heap (snd (segment_free (g\<lparr> seg_mem := mem' \<rparr>) p)) = heap g"
    "seg_inv (snd (segment_free (g\<lparr> seg_mem := mem' \<rparr>) p))"
proof -
  obtain m where m: "free mem' p = (Inr (), m)" "alloc_inv m" "slots m = (slots mem')(p := None)"
    "length m = length mem'"
    "\<forall>u v. HEADER_SIZE \<le> u \<and> v \<le> length mem' \<longrightarrow> subslice u v m = subslice u v mem'"
    using free_Some [OF assms(3), of p n] assms(4) by auto
  have sl: "slots m = slots (seg_mem g)" using m(3) assms(2,4) by auto
  have "subslice k (k + l) m = subslice k (k + l) (seg_mem g)" if "slots (seg_mem g) k = Some l" for k l
  proof -
    have "slots mem' k = Some l" "k \<noteq> p" "slots mem' p = Some n" using that assms(2,4) by auto
    then show ?thesis
      using m(5) assms(6) [of k "k + l"] slots_region [OF assms(3)] slots_disjoint [OF assms(3), of k l p n]
      by simp
  qed
  then have "heap (snd (segment_free (g\<lparr> seg_mem := mem' \<rparr>) p)) k = heap g k" for k
    by (cases "slots (seg_mem g) k") (simp_all add: heap_def segment_free_def m(1) sl)
  then show "heap (snd (segment_free (g\<lparr> seg_mem := mem' \<rparr>) p)) = heap g" by (rule ext)
  show "seg_inv (snd (segment_free (g\<lparr> seg_mem := mem' \<rparr>) p))"
    using m(2) sl assms(1) by (simp add: seg_inv_def aligned_def segment_free_def m(1))
qed

lemma subslice_split:
  assumes "i \<le> j" "j \<le> k"
  shows "subslice i k xs = subslice i j xs @ subslice j k xs"
proof -
  obtain a b where "j = i + a" "k = i + (a + b)"
    using assms by (metis le_Suc_ex add.assoc)
  then show ?thesis by (simp add: subslice_def take_add add.commute)
qed

text \<open>The contract of a write: a fresh aligned block that starts with the stream, or no change.\<close>

definition put_ok ::
  "shm_segment \<Rightarrow> bytes \<Rightarrow> (nat \<times> nat) option rpc_result \<Rightarrow> shm_segment \<Rightarrow> bool" where
  "put_ok g stream res g' =
     (seg_inv g' \<and> seg_name g' = seg_name g \<and> length (seg_mem g') = length (seg_mem g)
      \<and> (case res of
           Inr (Some (off, len)) \<Rightarrow>
             len = length stream \<and> SHM_ALIGNMENT dvd off \<and> heap g off = None
             \<and> (\<exists>pad. length pad < SHM_ALIGNMENT \<and> heap g' = (heap g)(off \<mapsto> stream @ pad))
         | _ \<Rightarrow> heap g' = heap g))"

lemma put_ok_stored:
  assumes inv: "seg_inv g" and p: "slots (seg_mem g) p = None" "SHM_ALIGNMENT dvd p"
    and m: "alloc_inv mem'" "slots mem' = (slots (seg_mem g))(p \<mapsto> n)" "length mem' = length (seg_mem g)"
    and n: "SHM_ALIGNMENT dvd n" "length stream \<le> n" "n < length stream + SHM_ALIGNMENT"
    and data: "\<And>u v. HEADER_SIZE \<le> u \<Longrightarrow> v \<le> length mem' \<Longrightarrow> v \<le> p \<or> p + n \<le> u \<Longrightarrow>
           subslice u v mem' = subslice u v (seg_mem g)"
    and stream: "subslice p (p + length stream) mem' = stream"
  shows "put_ok g stream (Inr (Some (p, length stream))) (g\<lparr> seg_mem := mem' \<rparr>)"
proof -
  let ?pad = "subslice (p + length stream) (p + n) mem'"
  have "p + n \<le> length mem'" using slots_region [OF m(1), of p n] m(2) by simp
  then have "length ?pad < SHM_ALIGNMENT" using n(2,3) by simp
  moreover have "subslice p (p + n) mem' = stream @ ?pad"
    using subslice_split [of p "p + length stream" "p + n" mem'] stream n(2) by simp
  moreover have "heap g p = None" using p(1) by (simp add: heap_def)
  ultimately show ?thesis
    using heap_add [OF m(1,2) p(1) data] seg_inv_add [OF inv m(1,2) p(2) n(1)] p(2) m(3)
    unfolding put_ok_def by auto
qed

lemma put_ok_released:
  assumes "seg_inv g" "slots (seg_mem g) p = None" "alloc_inv mem'" "slots mem' = (slots (seg_mem g))(p \<mapsto> n)"
    and "length mem' = length (seg_mem g)"
    and "\<And>u v. HEADER_SIZE \<le> u \<Longrightarrow> v \<le> length mem' \<Longrightarrow> v \<le> p \<or> p + n \<le> u \<Longrightarrow>
           subslice u v mem' = subslice u v (seg_mem g)"
    and "\<forall>x. res \<noteq> Inr (Some x)"
  shows "put_ok g stream res (snd (segment_free (g\<lparr> seg_mem := mem' \<rparr>) p))"
proof -
  obtain m where m: "free mem' p = (Inr (), m)" "length m = length mem'"
    using free_Some [OF assms(3), of p n] assms(4) by auto
  then show ?thesis
    using release_block [OF assms(1-6)] assms(5,7)
    by (auto simp: put_ok_def segment_free_def split: sum.splits option.splits)
qed

lemma put_ok_unchanged: "seg_inv g \<Longrightarrow> \<forall>x. res \<noteq> Inr (Some x) \<Longrightarrow> put_ok g stream res g"
  by (auto simp: put_ok_def split: sum.splits option.splits)

text \<open>The state right after a successful allocation and an overwrite inside the new block.\<close>

lemma allocate_overwrite:
  assumes inv: "seg_inv g" and a: "allocate (seg_mem g) n = (Some p, mem)" and bs: "length bs \<le> n"
  shows "p + n \<le> length mem" "slots (seg_mem g) p = None" "SHM_ALIGNMENT dvd p"
    "alloc_inv (overwrite p bs mem)" "slots (overwrite p bs mem) = (slots (seg_mem g))(p \<mapsto> n)"
    "length (overwrite p bs mem) = length (seg_mem g)"
    "subslice p (p + length bs) (overwrite p bs mem) = bs"
    "HEADER_SIZE \<le> u \<Longrightarrow> v \<le> length (overwrite p bs mem) \<Longrightarrow> v \<le> p \<or> p + n \<le> u \<Longrightarrow>
       subslice u v (overwrite p bs mem) = subslice u v (seg_mem g)"
    "HEADER_SIZE \<le> u \<Longrightarrow> v \<le> length (overwrite p bs mem) \<Longrightarrow> v \<le> p \<or> p + length bs \<le> u \<Longrightarrow>
       subslice u v (overwrite p bs mem) = subslice u v (seg_mem g)"
proof -
  have inv': "alloc_inv (seg_mem g)" using inv by (simp add: seg_inv_def)
  note al = allocate_Some [OF inv' a]
  have reg: "HEADER_SIZE \<le> p" "p + n \<le> length mem" using slots_region [OF al(1), of p n] al(5) by simp_all
  then have fit: "p + length bs \<le> length mem" using bs by simp
  note ow = data_overwrite [OF al(1) reg(1) fit]
  show "p + n \<le> length mem" "slots (seg_mem g) p = None" "SHM_ALIGNMENT dvd p"
    "alloc_inv (overwrite p bs mem)" "slots (overwrite p bs mem) = (slots (seg_mem g))(p \<mapsto> n)"
    "length (overwrite p bs mem) = length (seg_mem g)"
    using reg al ow allocate_dvd [OF inv a] by simp_all
  show "subslice p (p + length bs) (overwrite p bs mem) = bs"
    using fit by (rule subslice_overwrite_same)
  show sharp: "subslice u v (overwrite p bs mem) = subslice u v (seg_mem g)"
    if "HEADER_SIZE \<le> u" "v \<le> length (overwrite p bs mem)" "v \<le> p \<or> p + length bs \<le> u" for u v
    using that fit bs ow(3) al(6) al(7) [of u v] by (subst subslice_overwrite_disjoint) auto
  show "subslice u v (overwrite p bs mem) = subslice u v (seg_mem g)"
    if "HEADER_SIZE \<le> u" "v \<le> length (overwrite p bs mem)" "v \<le> p \<or> p + n \<le> u"
    using that bs by (intro sharp) auto
qed

section \<open>The fixed header fields\<close>

lemma take_overwrite: "n \<le> i \<Longrightarrow> n \<le> length xs \<Longrightarrow> take n (overwrite i bs xs) = take n xs \<and> n \<le> length (overwrite i bs xs)"
  by (auto simp: overwrite_def min_def)

lemma take_write_entries:
  "n \<le> 24 \<Longrightarrow> n \<le> length mem \<Longrightarrow> take n (write_entries i es mem) = take n mem"
proof (induction es arbitrary: i mem)
  case (Cons e es)
  have "n \<le> entry_base i" using entry_base_bounds(2) [of i] Cons.prems(1) by simp
  then have "take n (write_entry i e mem) = take n mem \<and> n \<le> length (write_entry i e mem)"
    using take_overwrite Cons.prems(2) unfolding write_entry_def by (metis trans_le_add1)
  then show ?case using Cons by simp
qed simp

lemma take_write_allocs: "16 \<le> length mem \<Longrightarrow> take 16 (write_allocs al mem) = take 16 mem"
  using take_overwrite [of 16 16 mem "le_bytes 4 (length al)"] take_write_entries [of 16 _ 0 al]
  by (simp add: write_allocs_def)

lemma take_header:
  assumes "16 \<le> length mem"
  shows "take 16 (snd (allocate mem n)) = take 16 mem" "take 16 (snd (shrink mem p n)) = take 16 mem"
    "take 16 (snd (free mem p)) = take 16 mem"
  using take_write_allocs [OF assms]
  by (auto simp: allocate_def shrink_def free_def Let_def split: option.splits prod.splits)

lemma shm_attach_cong:
  assumes "take 16 mem' = take 16 mem" "length mem' = length mem"
  shows "shm_attach mem' = shm_attach mem"
proof -
  have "take 4 mem' = take 4 mem" "subslice 4 8 mem' = subslice 4 8 mem" "subslice 8 16 mem' = subslice 8 16 mem"
    using arg_cong [OF assms(1), of "take 4"] arg_cong [OF assms(1), of "subslice 4 8"]
      arg_cong [OF assms(1), of "subslice 8 16"] by (simp_all add: subslice_take)
  then show ?thesis by (simp add: shm_attach_def assms(2) Let_def)
qed

section \<open>Writing a batch\<close>

lemma write_copied_put:
  assumes inv: "seg_inv g" and w: "write_copied g bs = (res, g')"
  shows "put_ok g bs res g'"
proof (cases "align_ipc_allocation (length bs)")
  case None
  then show ?thesis using w put_ok_unchanged [OF inv] by (auto simp: write_copied_def)
next
  case (Some n)
  note al = align_ipc_allocation_Some [OF Some]
  obtain r mem where a: "allocate (seg_mem g) n = (r, mem)" by force
  show ?thesis
  proof (cases r)
    case None
    then have "mem = seg_mem g" using a allocate_None by auto
    then show ?thesis
      using w Some a None put_ok_unchanged [OF inv, of "Inr None"] by (auto simp: write_copied_def)
  next
    case (Some p)
    note ao = allocate_overwrite [OF inv a [unfolded Some] al(1)]
    have "p + length bs \<le> length mem" using ao(1) al(1) by simp
    then have "res = Inr (Some (p, length bs))" "g' = g\<lparr> seg_mem := overwrite p bs mem \<rparr>"
      using w \<open>align_ipc_allocation (length bs) = Some n\<close> a Some by (auto simp: write_copied_def)
    then show ?thesis
      using put_ok_stored [OF inv ao(2-6) al(3,1,2) ao(8,7)] by simp
  qed
qed

lemma multiple_between: "(d :: nat) dvd m \<Longrightarrow> d dvd n \<Longrightarrow> m < n + d \<Longrightarrow> m \<le> n"
  by (auto elim!: dvdE) (metis add.commute less_Suc_eq_le mult.commute mult_Suc mult_le_mono2 nat_mult_less_cancel_disj)

text \<open>Shrinking the block to the aligned length of what was written.\<close>

lemma shrink_to_stream:
  assumes inv: "seg_inv g" and a: "allocate (seg_mem g) n = (Some p, mem)" and n: "SHM_ALIGNMENT dvd n"
    and out: "length out \<le> n" "0 < length out"
  obtains m mem' where "align_ipc_allocation (length out) = Some m"
    "shrink (overwrite p out mem) p m = (Inr (), mem')"
    "put_ok g out (Inr (Some (p, length out))) (g\<lparr> seg_mem := mem' \<rparr>)"
    "shm_attach mem' = shm_attach (seg_mem g)"
proof -
  note ao = allocate_overwrite [OF inv a out(1)]
  have "length out + 63 \<le> u64_max"
    using out(1) slots_region [OF ao(4), of p n] ao(4,5)
    by (auto simp: alloc_inv_def seg_ok_def HEADER_SIZE_def)
  then obtain m where m: "align_ipc_allocation (length out) = Some m"
    by (simp add: align_ipc_allocation_def SHM_ALIGNMENT_def checked_add_def)
  note al = align_ipc_allocation_Some [OF m]
  have mn: "m \<le> n" using multiple_between [OF al(3) n] al(2) out(1) by simp
  obtain mem' where sh: "shrink (overwrite p out mem) p m = (Inr (), mem')" "alloc_inv mem'"
    "slots mem' = (slots (overwrite p out mem))(p \<mapsto> m)" "length mem' = length (overwrite p out mem)"
    "\<forall>u v. HEADER_SIZE \<le> u \<and> v \<le> length (overwrite p out mem) \<longrightarrow>
       subslice u v mem' = subslice u v (overwrite p out mem)"
    using shrink_Some [OF ao(4), of p n m] ao(5) al(1) out(2) mn by auto
  have sl: "slots mem' = (slots (seg_mem g))(p \<mapsto> m)" using sh(3) ao(5) by simp
  then have reg: "HEADER_SIZE \<le> p" "p + m \<le> length mem'" using slots_region [OF sh(2), of p m] by simp_all
  have "subslice p (p + length out) mem' = out"
    using sh(4,5) reg al(1) ao(7) by simp
  moreover have "subslice u v mem' = subslice u v (seg_mem g)"
    if "HEADER_SIZE \<le> u" "v \<le> length mem'" "v \<le> p \<or> p + m \<le> u" for u v
    using that sh(4,5) ao(9) [of u v] al(1) by auto
  ultimately have "put_ok g out (Inr (Some (p, length out))) (g\<lparr> seg_mem := mem' \<rparr>)"
    using sh(4) ao(6) by (intro put_ok_stored [OF inv ao(2,3) sh(2) sl _ al(3,1,2)]) simp_all
  moreover have "shm_attach mem' = shm_attach (seg_mem g)"
  proof (rule shm_attach_cong)
    have l: "16 \<le> length (seg_mem g)" "length (overwrite p out mem) = length mem"
      using inv reg ao(1) out(1) by (auto simp: seg_inv_def alloc_inv_def seg_ok_def HEADER_SIZE_def)
    have "take 16 mem' = take 16 (overwrite p out mem)"
      using take_header(2) [of "overwrite p out mem" p m] sh(1) l ao(6) by simp
    also have "\<dots> = take 16 mem"
      using take_overwrite [of 16 p mem out] reg(1) l ao(6) by (simp add: HEADER_SIZE_def)
    also have "\<dots> = take 16 (seg_mem g)"
      using take_header(1) [OF l(1), of n] a by simp
    finally show "take 16 mem' = take 16 (seg_mem g)" .
    show "length mem' = length (seg_mem g)" using sh(4) ao(6) by simp
  qed
  ultimately show ?thesis using that m sh(1) by blast
qed

lemma write_in_place_stored:
  assumes inv: "seg_inv g" and tw: "through_writer W" and n: "SHM_ALIGNMENT dvd n" "n \<noteq> 0"
    and a: "allocate (seg_mem g) n = (Some p, mem)" and s: "write_stream_into W batch schema n = (Inr k, out)"
  obtains g' where "write_in_place W batch schema n g = (Inr (Some (p, k)), g')"
    "put_ok g out (Inr (Some (p, k))) g'" "shm_attach (seg_mem g') = shm_attach (seg_mem g)"
proof -
  note out = write_stream_into_spec [OF tw s]
  have k: "k = length out" "0 < length out" using out(2) by auto
  have oob: "\<not> length mem < p + n" using allocate_overwrite(1) [OF inv a out(1)] by simp
  obtain m mem' where m: "align_ipc_allocation (length out) = Some m"
    "shrink (overwrite p out mem) p m = (Inr (), mem')"
    "put_ok g out (Inr (Some (p, length out))) (g\<lparr> seg_mem := mem' \<rparr>)"
    "shm_attach mem' = shm_attach (seg_mem g)"
    using shrink_to_stream [OF inv a n(1) out(1) k(2)] by blast
  then have "write_in_place W batch schema n g = (Inr (Some (p, k)), g\<lparr> seg_mem := mem' \<rparr>)"
    using n(2) a s oob k(1) by (simp add: write_in_place_def)
  then show ?thesis using that m(3,4) k(1) by simp
qed

lemma write_in_place_put:
  assumes inv: "seg_inv g" and tw: "through_writer W" and n: "SHM_ALIGNMENT dvd n"
    and w: "write_in_place W batch schema n g = (res, g')"
  shows "put_ok g (snd (write_stream_into W batch schema n)) res g'"
proof -
  obtain a mem where a: "allocate (seg_mem g) n = (a, mem)" by force
  consider "n = 0" | "n \<noteq> 0" "a = None" | p where "n \<noteq> 0" "a = Some p" by (cases a) auto
  then show ?thesis
  proof cases
    case 1
    then show ?thesis using w put_ok_unchanged [OF inv, of "Inr None"] by (auto simp: write_in_place_def)
  next
    case 2
    then have "mem = seg_mem g" using a allocate_None by auto
    then show ?thesis
      using w a 2 put_ok_unchanged [OF inv, of "Inr None"] by (simp add: write_in_place_def) auto
  next
    case (3 p)
    note a' = a [unfolded 3(2)]
    obtain r out where s: "write_stream_into W batch schema n = (r, out)" by force
    note out = write_stream_into_spec [OF tw s]
    note ao = allocate_overwrite [OF inv a' out(1)]
    have oob: "\<not> length mem < p + n" using ao(1) by simp
    show ?thesis
    proof (cases r)
      case (Inl e)
      then have "(\<forall>x. res \<noteq> Inr (Some x)) \<and> g' = snd (segment_free (g\<lparr> seg_mem := overwrite p out mem \<rparr>) p)"
        using w 3(1) a' s oob by (auto simp: write_in_place_def Let_def split: if_splits)
      then show ?thesis using put_ok_released [OF inv ao(2,4,5,6,8)] by blast
    next
      case (Inr k)
      obtain g1 where "write_in_place W batch schema n g = (Inr (Some (p, k)), g1)"
        "put_ok g out (Inr (Some (p, k))) g1"
        using write_in_place_stored [OF inv tw n 3(1) a' s [unfolded Inr]] by blast
      then show ?thesis using w s by simp
    qed
  qed
qed

text \<open>The bytes a batch is stored as: the stripped stream, or what the stream writer left in the slot.\<close>

definition stored_stream ::
  "('s, 'b, 't) arrow_writer_api \<Rightarrow> ('s, 'b) shm_api \<Rightarrow> 'b \<Rightarrow> nat \<Rightarrow> bytes" where
  "stored_stream W S batch seg_size =
     (if schema_has_dictionary S (sa_schema S batch) then
        (case serialize_for_shm S (aw_root_as_message W) batch (sa_schema S batch) of
           Done (Inr bs) \<Rightarrow> bs | _ \<Rightarrow> [])
      else snd (write_stream_into W batch (sa_schema S batch)
                  (reserve_size (sa_memory_size S batch) seg_size)))"

lemma allocate_and_write_put:
  assumes "seg_inv g" "through_writer W" "allocate_and_write W S batch g = (Done res, g')"
  shows "put_ok g (stored_stream W S batch (length (seg_mem g))) res g'"
proof (cases "schema_has_dictionary S (sa_schema S batch)")
  case True
  show ?thesis
  proof (cases "serialize_for_shm S (aw_root_as_message W) batch (sa_schema S batch)")
    case (Done r)
    then show ?thesis
      using assms True put_ok_unchanged [OF assms(1)] write_copied_put [OF assms(1)]
      by (cases r) (auto simp: allocate_and_write_def stored_stream_def split: prod.splits)
  qed (use assms(3) True in \<open>simp add: allocate_and_write_def\<close>)
next
  case False
  then show ?thesis
    using assms(3) write_in_place_put [OF assms(1,2) reserve_size_dvd]
    by (auto simp: allocate_and_write_def stored_stream_def split: prod.splits)
qed

lemma allocate_and_write_panic: "allocate_and_write W S batch g = (Panic, g') \<Longrightarrow> g' = g"
  by (auto simp: allocate_and_write_def Let_def split: if_splits outcome.splits sum.splits prod.splits)

text \<open>C22. Seen as a map from offsets to blocks, the segment is changed by writing a batch in one way only: a
  fresh block on a 64-byte boundary that holds the stream of the batch and less than 64 bytes of
  padding. Every other outcome (no room, a failed encoder, a panic) leaves the blocks as they were,
  and the segment's invariant holds afterwards in all cases.
\<close>
theorem segment_write_refines_put:
  assumes "seg_inv g" "through_writer W" "allocate_and_write W S batch g = (res, g')"
  shows "seg_inv g'
    \<and> (case res of
         Done (Inr (Some (off, len))) \<Rightarrow>
           len = length (stored_stream W S batch (length (seg_mem g))) \<and> 64 dvd off \<and> heap g off = None
           \<and> (\<exists>pad. length pad < 64
                \<and> heap g' = (heap g)(off \<mapsto> stored_stream W S batch (length (seg_mem g)) @ pad))
       | _ \<Rightarrow> heap g' = heap g)"
proof (cases res)
  case Panic
  then show ?thesis using assms(1,3) allocate_and_write_panic [of W S batch g g'] by simp
next
  case (Done r)
  then show ?thesis
    using allocate_and_write_put [OF assms(1,2), of S batch r g'] assms(3)
    by (auto simp: put_ok_def SHM_ALIGNMENT_def split: sum.splits option.splits)
qed

section \<open>Pointer batches\<close>

text \<open>
  What the round trip needs of the encoder for a batch that does not take the direct path: a schema
  message and a batch message, framed as the format prescribes, and no dictionary messages.
\<close>

definition encodes_as ::
  "('s, 'b, 't) arrow_writer_api \<Rightarrow> 'b \<Rightarrow> 's \<Rightarrow> bytes \<times> bytes \<Rightarrow> bytes \<times> bytes \<Rightarrow> bool" where
  "encodes_as W batch schema sf bf =
     (aw_num_columns W batch \<noteq> 1
      \<and> (\<exists>senc data tr tr' m n.
           aw_schema_to_bytes W schema (aw_new_tracker W) = (senc, tr) \<and> writes_encapsulated W senc m
           \<and> aw_encode W batch tr = (Inr ([], data), tr') \<and> writes_encapsulated W data n
           \<and> sf = (ed_ipc_message senc @ replicate m 0, ed_arrow_data senc)
           \<and> bf = (ed_ipc_message data @ replicate n 0, ed_arrow_data data)))"

lemma write_message_out:
  assumes "writes_encapsulated W enc n" "write_message W enc cw = (Inr u, cw')"
  shows "cw_out cw' = cw_out cw @ encapsulate (ed_ipc_message enc @ replicate n 0) (ed_arrow_data enc)"
  using assms by (auto simp: write_message_def writes_encapsulated_def map_err_Inr_iff split: prod.splits)

lemma written_stream:
  assumes e: "encodes_as W batch schema sf bf" and w: "write_stream_into W batch schema room = (Inr k, out)"
  shows "out = encapsulate (fst sf) (snd sf) @ encapsulate (fst bf) (snd bf) @ eos_marker"
proof -
  obtain senc data tr tr' m n where enc: "aw_num_columns W batch \<noteq> 1"
    "aw_schema_to_bytes W schema (aw_new_tracker W) = (senc, tr)" "writes_encapsulated W senc m"
    "aw_encode W batch tr = (Inr ([], data), tr')" "writes_encapsulated W data n"
    "sf = (ed_ipc_message senc @ replicate m 0, ed_arrow_data senc)"
    "bf = (ed_ipc_message data @ replicate n 0, ed_arrow_data data)"
    using e by (auto simp: encodes_as_def)
  from w show ?thesis
  proof (cases rule: write_stream_into_cases)
    case (written sw cw sw1 sw2)
    have new: "write_message W senc (chunked_new \<lparr> w_script = [], w_out = [], w_calls = [], w_flushes = [],
        w_room = Some room \<rparr>) = (Inr (), sw_writer sw)" "sw_tracker sw = tr" "\<not> sw_finished sw"
      using written(1) enc(2) by (auto simp: stream_writer_new_def split: prod.splits sum.splits)
    have o1: "out_of sw = encapsulate (fst sf) (snd sf)"
      using write_message_out [OF enc(3) new(1)] enc(6) by (simp add: out_of_def chunked_new_def)
    have "write_message W data (sw_writer sw) = (Inr (), sw_writer sw1)"
      using written(2) new(2,3) enc(1,4)
      by (auto simp: stream_write_def write_single_large_binary_direct_def Let_def split: prod.splits)
    then have "out_of sw1 = out_of sw @ encapsulate (fst bf) (snd bf)"
      using write_message_out [OF enc(5)] enc(7) by (simp add: out_of_def)
    moreover have "out_of sw2 = out_of sw1 @ eos_marker" "stream_drop sw2 = sw2"
      using finish_out [OF written(3) stream_write_unfinished [OF written(2)]]
      by (simp_all add: stream_drop_def stream_finish_def)
    ultimately show ?thesis using o1 written(5) by simp
  qed simp_all
qed

lemma heap_Some:
  assumes "seg_inv g" "heap g off = Some b"
  shows "off + length b \<le> length (seg_mem g)" "subslice off (off + length b) (seg_mem g) = b"
    "slots (seg_mem g) off = Some (length b)"
proof -
  obtain l where l: "slots (seg_mem g) off = Some l" "b = subslice off (off + l) (seg_mem g)"
    using assms(2) by (auto simp: heap_def)
  then have "off + l \<le> length (seg_mem g)"
    using slots_region [of "seg_mem g" off l] assms(1) by (simp add: seg_inv_def)
  then show "off + length b \<le> length (seg_mem g)" "subslice off (off + length b) (seg_mem g) = b"
    "slots (seg_mem g) off = Some (length b)"
    using l by simp_all
qed

lemma heap_free:
  assumes "seg_inv g" "heap g off \<noteq> None"
  shows "heap (snd (segment_free g off)) = (heap g)(off := None)" "seg_inv (snd (segment_free g off))"
proof -
  have inv: "alloc_inv (seg_mem g)" using assms(1) by (simp add: seg_inv_def)
  obtain l where l: "slots (seg_mem g) off = Some l" using assms(2) by (auto simp: heap_def)
  obtain m where m: "free (seg_mem g) off = (Inr (), m)" "alloc_inv m"
    "slots m = (slots (seg_mem g))(off := None)"
    "\<forall>u v. HEADER_SIZE \<le> u \<and> v \<le> length (seg_mem g) \<longrightarrow> subslice u v m = subslice u v (seg_mem g)"
    using free_Some [OF inv l] by auto
  have "heap (snd (segment_free g off)) k = ((heap g)(off := None)) k" for k
    using m(3,4) slots_region [OF inv, of k]
    by (cases "slots (seg_mem g) k") (auto simp: heap_def segment_free_def m(1))
  then show "heap (snd (segment_free g off)) = (heap g)(off := None)" by (rule ext)
  show "seg_inv (snd (segment_free g off))"
    using assms(1) m(2,3) by (simp add: seg_inv_def aligned_def segment_free_def m(1))
qed

lemma read_batch_region:
  assumes "seg_inv g" "heap g off = Some (bs @ pad)" "\<not> schema_has_dictionary S schema"
    "decode_non_dict_shm_stream A bs schema = Inr b"
  shows "read_batch A S g off (length bs) schema = (Inr (b, Some off), g)"
proof -
  note h = heap_Some [OF assms(1,2)]
  have "length (seg_mem g) \<le> u64_max" using assms(1) by (simp add: seg_inv_def alloc_inv_def seg_ok_def)
  moreover have "subslice off (off + length bs) (seg_mem g) = bs"
    using subslice_split [of off "off + length bs" "off + length (bs @ pad)" "seg_mem g"] h(1,2)
    by (simp add: append_eq_append_conv)
  ultimately show ?thesis
    using h(1) assms(3,4) by (simp add: read_batch_def checked_add_def)
qed

lemma put_ok_Some:
  assumes "put_ok g stream (Inr (Some (off, len))) g'"
  obtains pad where "seg_inv g'" "seg_name g' = seg_name g" "len = length stream"
    "heap g' = (heap g)(off \<mapsto> stream @ pad)" "heap g off = None"
  using assms by (auto simp: put_ok_def)

lemma put_in_place_stream:
  assumes "allocate_and_write W S batch g = (Done (Inr (Some (off, len))), g')"
    "\<not> schema_has_dictionary S (sa_schema S batch)" "encodes_as W batch (sa_schema S batch) sf bf"
  shows "stored_stream W S batch (length (seg_mem g))
    = encapsulate (fst sf) (snd sf) @ encapsulate (fst bf) (snd bf) @ eos_marker"
proof -
  let ?n = "reserve_size (sa_memory_size S batch) (length (seg_mem g))"
  obtain r out where s: "write_stream_into W batch (sa_schema S batch) ?n = (r, out)" by force
  have "\<exists>k. r = Inr k"
    using assms(1,2) s
    by (auto simp: allocate_and_write_def write_in_place_def Let_def
        split: prod.splits if_splits option.splits sum.splits)
  then show ?thesis
    using written_stream [OF assms(3)] s assms(2) by (auto simp: stored_stream_def)
qed

lemma put_in_place_attach:
  assumes inv: "seg_inv g" and tw: "through_writer W"
    and store: "allocate_and_write W S batch g = (Done (Inr (Some (off, len))), g')"
    and nd: "\<not> schema_has_dictionary S (sa_schema S batch)"
  shows "shm_attach (seg_mem g') = shm_attach (seg_mem g)"
proof -
  let ?n = "reserve_size (sa_memory_size S batch) (length (seg_mem g))"
  have w: "write_in_place W batch (sa_schema S batch) ?n g = (Inr (Some (off, len)), g')"
    using store nd by (auto simp: allocate_and_write_def split: prod.splits)
  obtain r out where s: "write_stream_into W batch (sa_schema S batch) ?n = (r, out)" by force
  obtain p mem k where n: "?n \<noteq> 0" and a: "allocate (seg_mem g) ?n = (Some p, mem)" and r: "r = Inr k"
    using w s by (auto simp: write_in_place_def Let_def split: prod.splits if_splits option.splits sum.splits)
  obtain g1 where "write_in_place W batch (sa_schema S batch) ?n g = (Inr (Some (p, k)), g1)"
    "shm_attach (seg_mem g1) = shm_attach (seg_mem g)"
    using write_in_place_stored [OF inv tw reserve_size_dvd n a s [unfolded r]] by blast
  then show ?thesis using w by simp
qed


section \<open>A concrete exchange\<close>

definition cursor :: "nat \<Rightarrow> chunked_writer \<Rightarrow> bool" where
  "cursor c cw =
     (w_script (cw_inner cw) = [] \<and> w_flushes (cw_inner cw) = [] \<and> w_room (cw_inner cw) = Some c
      \<and> 0 < cw_limit cw)"

lemma cursor_write:
  assumes "cursor c cw" "length (cw_out cw) + length buf \<le> c"
  shows "\<exists>cw'. chunked_write buf cw = (Inr (min (length buf) (cw_limit cw)), cw') \<and> cursor c cw'
    \<and> cw_out cw' = cw_out cw @ take (min (length buf) (cw_limit cw)) buf"
  using assms by (auto simp: cursor_def chunked_write_def write_call_def accepted_def Let_def)

lemma cursor_write_all:
  "cursor c cw \<Longrightarrow> length (cw_out cw) + length buf \<le> c \<Longrightarrow>
     \<exists>cw'. write_all buf cw = (Inr (), cw') \<and> cursor c cw' \<and> cw_out cw' = cw_out cw @ buf"
proof (induction "length buf" arbitrary: buf cw rule: less_induct)
  case less
  show ?case
  proof (cases "buf = []")
    case True
    then show ?thesis using less.prems by (simp add: write_all.simps)
  next
    case False
    let ?k = "min (length buf) (cw_limit cw)"
    obtain cw1 where w: "chunked_write buf cw = (Inr ?k, cw1)" "cursor c cw1"
      "cw_out cw1 = cw_out cw @ take ?k buf"
      using cursor_write [OF less.prems] by blast
    have k: "0 < ?k" using False less.prems(1) by (simp add: cursor_def)
    then have "length (drop ?k buf) < length buf" using False by simp
    moreover have "length (cw_out cw1) + length (drop ?k buf) \<le> c" using w(3) less.prems(2) by simp
    ultimately obtain cw' where "write_all (drop ?k buf) cw1 = (Inr (), cw')" "cursor c cw'"
      "cw_out cw' = cw_out cw1 @ drop ?k buf"
      using less.hyps w(2) by blast
    moreover have "take ?k buf @ drop ?k buf = buf" by (rule append_take_drop_id)
    ultimately show ?thesis
      using w False k by (simp add: write_all.simps [of buf cw]) 
  qed
qed

definition demo_frame :: "header_type \<Rightarrow> nat \<Rightarrow> fb_message" where
  "demo_frame t n =
     \<lparr> fb_version = 4, fb_header_type = t, fb_body_length = int n, fb_custom_metadata = None,
       fb_schema_fields = None, fb_dictionary = None,
       fb_record_batch = Some \<lparr> rb_length = 1, rb_nodes = Some [], rb_buffers = Some [], rb_variadic = None \<rparr> \<rparr>"

definition demo_encoder :: "(unit, bytes, unit) arrow_writer_api" where
  "demo_encoder =
     (demo_writer_api (demo_frame HT_Schema 0))\<lparr> aw_num_columns := \<lambda>_. 2,
        aw_encode := \<lambda>b _. (Inr ([], \<lparr> ed_ipc_message = [2], ed_arrow_data = b \<rparr>), ()) \<rparr>"

definition demo_decoder :: "(unit, bytes, unit) arrow_api" where
  "demo_decoder =
     \<lparr> root_as_message = \<lambda>bs. Inr (if hd bs = 1 then demo_frame HT_Schema 0 else demo_frame HT_Record_Batch 1),
       fb_to_schema = \<lambda>_. Done (), read_dictionary = \<lambda>_ _ _ _. Done (Inr ()),
       read_record_batch = \<lambda>body _ _ _. Done (Inr body), no_dictionaries = () \<rparr>"

definition demo_arrays :: "(unit, bytes) shm_api" where
  "demo_arrays =
     \<lparr> sa_schema = \<lambda>_. (), sa_dictionary_fields = \<lambda>_. [False], sa_num_rows = length,
       sa_memory_size = \<lambda>_. 0, sa_column_sizes = \<lambda>b. [length b], sa_try_empty = \<lambda>_. Inr [],
       sa_stream_bytes = \<lambda>_ _. Inl ''unsupported'', sa_schema_stream = \<lambda>_. Inl ''unsupported'',
       sa_open_stream = \<lambda>_. Inl ''unsupported'' \<rparr>"

definition demo_segment :: shm_segment where
  "demo_segment =
     \<lparr> seg_name = ''/demo'',
       seg_mem = (case shm_initialize (replicate (HEADER_SIZE + 640) 0) of Inr m \<Rightarrow> m | Inl _ \<Rightarrow> []) \<rparr>"

lemma demo_segment_facts:
  "seg_inv demo_segment" "slots (seg_mem demo_segment) = Map.empty"
  "length (seg_mem demo_segment) = HEADER_SIZE + 640" "shm_attach (seg_mem demo_segment) = Done (Inr ())"
proof -
  have "seg_ok (replicate (HEADER_SIZE + 640) 0)" by (simp add: seg_ok_def layout_defs u64_max_def)
  then obtain m where "shm_initialize (replicate (HEADER_SIZE + 640) 0) = Inr m" "alloc_inv m"
    "slots m = Map.empty" "length m = HEADER_SIZE + 640" "shm_attach m = Done (Inr ())"
    using initialize_Inr [of "replicate (HEADER_SIZE + 640) 0"] by (metis length_replicate)
  then show "seg_inv demo_segment" "slots (seg_mem demo_segment) = Map.empty"
    "length (seg_mem demo_segment) = HEADER_SIZE + 640" "shm_attach (seg_mem demo_segment) = Done (Inr ())"
    by (simp_all add: demo_segment_def seg_inv_def aligned_def)
qed

lemma demo_through_writer: "through_writer demo_encoder"
  by (auto simp: through_writer_def demo_encoder_def demo_writer_api_def split: prod.splits dest: write_all_room)

lemma demo_write_message:
  "write_message demo_encoder enc cw =
     (case write_all (encapsulate (ed_ipc_message enc) (ed_arrow_data enc)) cw of
        (res, cw') \<Rightarrow> (map_err (\<lambda>e. rpc_of_arrow (err_msg e)) res, cw'))"
  by (auto simp: write_message_def demo_encoder_def demo_writer_api_def map_err_def
      split: prod.splits sum.splits)

lemma demo_encoder_simps:
  "aw_num_columns demo_encoder b = 2"
  "aw_encode demo_encoder b t = (Inr ([], \<lparr> ed_ipc_message = [2], ed_arrow_data = b \<rparr>), ())"
  "aw_schema_to_bytes demo_encoder s t = (\<lparr> ed_ipc_message = [1], ed_arrow_data = [] \<rparr>, ())"
  by (simp_all add: demo_encoder_def demo_writer_api_def)

lemma demo_stream_written: "\<exists>k out. write_stream_into demo_encoder [9] () 640 = (Inr k, out)"
proof -
  let ?w = "\<lparr> w_script = [], w_out = [], w_calls = [], w_flushes = [], w_room = Some 640 \<rparr>"
  have c0: "cursor 640 (chunked_new ?w)" "cw_out (chunked_new ?w) = []"
    by (simp_all add: cursor_def chunked_new_def MAX_WRITE_CHUNK_def)
  obtain cw1 where 1: "write_all (encapsulate [1] []) (chunked_new ?w) = (Inr (), cw1)" "cursor 640 cw1"
    "cw_out cw1 = encapsulate [1] []"
    using cursor_write_all [OF c0(1), of "encapsulate [1] []"] c0(2) by (auto simp: encapsulate_def)
  obtain cw2 where 2: "write_all (encapsulate [2] [9]) cw1 = (Inr (), cw2)" "cursor 640 cw2"
    "cw_out cw2 = cw_out cw1 @ encapsulate [2] [9]"
    using cursor_write_all [OF 1(2), of "encapsulate [2] [9]"] 1(3) by (auto simp: encapsulate_def)
  obtain cw3 where 3: "write_all CONTINUATION_MARKER cw2 = (Inr (), cw3)" "cursor 640 cw3"
    "cw_out cw3 = cw_out cw2 @ CONTINUATION_MARKER"
    using cursor_write_all [OF 2(2), of CONTINUATION_MARKER] 1(3) 2(3) by (auto simp: encapsulate_def)
  obtain cw4 where 4: "write_all [0, 0, 0, 0] cw3 = (Inr (), cw4)" "cursor 640 cw4"
    using cursor_write_all [OF 3(2), of "[0, 0, 0, 0]"] 1(3) 2(3) 3(3) by (auto simp: encapsulate_def)
  define sw where "sw = \<lparr> sw_writer = cw1, sw_schema = (), sw_tracker = (), sw_finished = False \<rparr>"
  have "stream_writer_new demo_encoder ?w () = (Inr sw, cw1)"
    using 1(1) by (simp add: stream_writer_new_def demo_write_message sw_def demo_encoder_simps)
  moreover have "stream_write demo_encoder [9] None sw = (Inr (), sw\<lparr> sw_writer := cw2 \<rparr>)"
    using 2(1)
    by (simp add: stream_write_def write_single_large_binary_direct_def demo_write_message sw_def
        demo_encoder_simps)
  moreover have "\<exists>sw'. stream_finish (sw\<lparr> sw_writer := cw2 \<rparr>) = (Inr (), sw')"
    using 3(1) 4 by (simp add: stream_finish_def sw_def chunked_flush_def flush_call_def cursor_def)
  ultimately show ?thesis by (auto simp: write_stream_into_def)
qed

lemma demo_stored: "\<exists>off len g'. allocate_and_write demo_encoder demo_arrays [9] demo_segment
    = (Done (Inr (Some (off, len))), g')"
proof -
  have tab: "read_allocs (seg_mem demo_segment) = []"
    using demo_segment_facts(2) by (simp add: slots_def)
  have res: "reserve_size 0 (length (seg_mem demo_segment)) = 640"
    by (simp add: demo_segment_facts(3) reserve_size_def Let_def saturating_add_def saturating_mul_def
        align_ipc_allocation_def SHM_ALIGNMENT_def checked_add_def u64_max_def)
  have "fst (allocate (seg_mem demo_segment) 640) = Some HEADER_SIZE"
    by (simp add: allocate_def tab demo_segment_facts(3) MAX_ALLOCS_val)
  then obtain mem where a: "allocate (seg_mem demo_segment) 640 = (Some HEADER_SIZE, mem)"
    by (metis prod.collapse)
  obtain k out where s: "write_stream_into demo_encoder [9] () 640 = (Inr k, out)"
    using demo_stream_written by blast
  have "SHM_ALIGNMENT dvd 640" by (simp add: SHM_ALIGNMENT_def)
  then obtain g' where "write_in_place demo_encoder [9] () 640 demo_segment = (Inr (Some (HEADER_SIZE, k)), g')"
    using write_in_place_stored [OF demo_segment_facts(1) demo_through_writer _ _ a s] by auto
  then show ?thesis
    using res by (simp add: allocate_and_write_def demo_arrays_def schema_has_dictionary_def)
qed

theorem frame_range_stays_inside_witness:
  "\<exists>f. ipc_frame_range (\<lambda>_. Inr (demo_frame HT_Schema 2)) (encapsulate [1] [8, 9]) 0 10 = Inr (Some f)
     \<and> fr_next f \<le> 11"
proof -
  have "frame_ok (\<lambda>_. Inr (demo_frame HT_Schema 2)) 10 ([1], [8, 9])"
    by (simp add: frame_ok_def demo_frame_def u32_max_def)
  then obtain f where f: "ipc_frame_range (\<lambda>_. Inr (demo_frame HT_Schema 2)) (encapsulate [1] [8, 9]) 0 10 = Inr (Some f)"
    using frame_range_encapsulated [of "encapsulate [1] [8, 9]" "[]" "[1]" "[8, 9]" "[]" _ 10 10]
    by (auto simp: encapsulate_def u64_max_def)
  then show ?thesis
    using frame_range_stays_inside [OF f] by (auto simp: encapsulate_def)
qed

theorem segment_write_refines_put_witness:
  "\<exists>off len g'. allocate_and_write demo_encoder demo_arrays [9] demo_segment = (Done (Inr (Some (off, len))), g')
     \<and> seg_inv g' \<and> 64 dvd off \<and> heap demo_segment off = None \<and> heap g' off \<noteq> None"
proof -
  obtain off len g' where s: "allocate_and_write demo_encoder demo_arrays [9] demo_segment
      = (Done (Inr (Some (off, len))), g')"
    using demo_stored by blast
  then show ?thesis
    using segment_write_refines_put [OF demo_segment_facts(1) demo_through_writer s] by auto
qed

lemma demo_codec:
  "encodes_as demo_encoder [9] () ([1], []) ([2], [9])"
  "decodes_to demo_decoder ([1], []) ([2], [9]) () [9]"
proof -
  have w: "writes_encapsulated demo_encoder enc 0" for enc
    using demo_writer_api_laws(2) [of "demo_frame HT_Schema 0" enc]
    by (simp add: writes_encapsulated_def demo_encoder_def)
  then show "encodes_as demo_encoder [9] () ([1], []) ([2], [9])"
    unfolding encodes_as_def
    by (intro conjI exI [of _ "\<lparr> ed_ipc_message = [1], ed_arrow_data = [] \<rparr>"]
        exI [of _ "\<lparr> ed_ipc_message = [2], ed_arrow_data = [9] \<rparr>"] exI [of _ "()"] exI [of _ "0 :: nat"])
      (simp_all add: demo_encoder_simps)
  show "decodes_to demo_decoder ([1], []) ([2], [9]) () [9]"
    by (simp add: decodes_to_def frame_ok_def demo_decoder_def demo_frame_def MAX_IPC_SCHEMA_BYTES_def
        MAX_IPC_MESSAGE_BYTES_def u32_max_def validate_record_batch_buffers_def)
qed


section \<open>Dictionary batches\<close>

lemma IPC_EOS_eos: "IPC_EOS = eos_marker" "length IPC_EOS = 8"
  by (simp_all add: IPC_EOS_def eos_marker_def CONTINUATION_MARKER_def le_bytes_0 replicate_4)

lemma skip_encapsulated:
  assumes "frame_ok rootf cap (msg, body)" "length (encapsulate msg body @ rest) \<le> u64_max"
  shows "skip_one_ipc_message rootf (encapsulate msg body @ rest) = Inr (length (encapsulate msg body))"
proof -
  let ?b = "encapsulate msg body @ rest"
  obtain fb where fb: "rootf msg = Inr fb" "fb_body_length fb = int (length body)" "0 < length msg"
    "length msg \<le> u32_max"
    using assms(1) by (auto simp: frame_ok_def split: sum.splits)
  have sl: "take 4 ?b = [0xFF, 0xFF, 0xFF, 0xFF]" "subslice 4 8 ?b = le_bytes 4 (length msg)"
    "subslice 8 (8 + length msg) ?b = msg"
    by (simp_all add: encapsulate_def subslice_def CONTINUATION_MARKER_def)
  have "length ?b = 8 + length msg + length body + length rest" by (simp add: encapsulate_def)
  then have "8 + length msg + length body < 2 ^ 64" "int (length body) mod 2 ^ 64 = int (length body)"
    using assms(2) by (simp_all add: u64_max_def)
  moreover have "\<not> length ?b < 8 + length msg" "\<not> length ?b < 8" by (simp_all add: encapsulate_def)
  ultimately show ?thesis
    using sl fb le4_round [OF fb(4)]
    by (simp add: skip_one_ipc_message_def Let_def) (simp add: encapsulate_def)
qed

text \<open>C24. A dictionary batch is stored without its schema message and end marker, and reading it back hands
  the library reader exactly the stream the library writer produced, provided a schema-only stream
  starts with the same schema message.
\<close>
theorem dictionary_stream_restored:
  assumes "schema_has_dictionary S schema"
    and "sa_stream_bytes S batch schema = Inr (encapsulate smsg sbody @ middle @ IPC_EOS)"
    and "sa_schema_stream S schema = Inr (encapsulate smsg sbody @ IPC_EOS)"
    and "frame_ok rootf cap (smsg, sbody)" "length (encapsulate smsg sbody @ middle @ IPC_EOS) \<le> u64_max"
  shows "serialize_for_shm S rootf batch schema = Done (Inr middle)
    \<and> deserialize_from_shm S middle schema = first_batch S (encapsulate smsg sbody @ middle @ IPC_EOS)"
proof
  show "serialize_for_shm S rootf batch schema = Done (Inr middle)"
    using assms(1,2) skip_encapsulated [OF assms(4,5)]
    by (simp add: serialize_for_shm_def strip_trailing_eos_def IPC_EOS_eos(2))
  show "deserialize_from_shm S middle schema = first_batch S (encapsulate smsg sbody @ middle @ IPC_EOS)"
    using assms(1,3) by (simp add: deserialize_from_shm_def IPC_EOS_eos(2))
qed

theorem dictionary_stream_restored_witness:
  "let S = demo_arrays\<lparr> sa_dictionary_fields := \<lambda>_. [True],
         sa_stream_bytes := \<lambda>b _. Inr (encapsulate [1] [] @ b @ IPC_EOS),
         sa_schema_stream := \<lambda>_. Inr (encapsulate [1] [] @ IPC_EOS) \<rparr>
   in serialize_for_shm S (\<lambda>_. Inr (demo_frame HT_Schema 0)) [5, 6] () = Done (Inr [5, 6])"
proof -
  let ?S = "demo_arrays\<lparr> sa_dictionary_fields := \<lambda>_. [True],
      sa_stream_bytes := \<lambda>b _. Inr (encapsulate [1] [] @ b @ IPC_EOS),
      sa_schema_stream := \<lambda>_. Inr (encapsulate [1] [] @ IPC_EOS) \<rparr>"
  have "schema_has_dictionary ?S ()" by (simp add: schema_has_dictionary_def)
  moreover have "frame_ok (\<lambda>_. Inr (demo_frame HT_Schema 0)) 10 ([1], [])"
    by (simp add: frame_ok_def demo_frame_def u32_max_def)
  moreover have "length (encapsulate [1] [] @ [5, 6] @ IPC_EOS) \<le> u64_max"
    by (simp add: encapsulate_def IPC_EOS_eos(2) u64_max_def)
  ultimately show ?thesis
    unfolding Let_def using dictionary_stream_restored [of ?S "()" "[5, 6]" "[1]" "[]" "[5, 6]"] by simp
qed

section \<open>The connection cache\<close>

fun refresh_all ::
  "(string \<Rightarrow> nat \<Rightarrow> bytes rpc_result) \<Rightarrow> metadata list \<Rightarrow> connection_shm \<Rightarrow> connection_shm outcome" where
  "refresh_all os [] c = Done c"
| "refresh_all os (md # mds) c =
     (case connection_refresh os md c of Panic \<Rightarrow> Panic | Done c' \<Rightarrow> refresh_all os mds c')"

definition cache_ok :: "connection_shm \<Rightarrow> bool" where
  "cache_ok c =
     (map_option seg_name (cs_segment c) = cs_name c
      \<and> (\<forall>g. cs_segment c = Some g \<longrightarrow> shm_attach (seg_mem g) = Done (Inr ())))"

lemma connection_refresh_ok:
  assumes "cache_ok c" "connection_refresh os md c = Done c'"
  shows "cache_ok c' \<and> (cs_segment c \<noteq> None \<longrightarrow> cs_segment c' \<noteq> None)"
  using assms
  by (auto simp: connection_refresh_def maybe_attach_shm_def cache_ok_def
      split: option.splits if_splits outcome.splits sum.splits)

text \<open>Over all the requests of a connection the cached segment is the one of the cached name and has
  passed the header check, and once a segment is attached no later request, malformed or not, leaves
  the connection without one.
\<close>
theorem connection_cache_consistent:
  assumes "cache_ok c" "refresh_all os mds c = Done c'"
  shows "cache_ok c' \<and> (cs_segment c \<noteq> None \<longrightarrow> cs_segment c' \<noteq> None)"
  using assms
proof (induction mds arbitrary: c)
  case (Cons md mds)
  then obtain c1 where "connection_refresh os md c = Done c1" "refresh_all os mds c1 = Done c'"
    by (auto split: outcome.splits)
  then show ?case using Cons.IH [of c1] connection_refresh_ok [OF Cons.prems(1)] by blast
qed simp

theorem connection_cache_consistent_witness:
  "\<exists>c. refresh_all (\<lambda>_ _. Inr (seg_mem demo_segment))
         [[(SHM_SEGMENT_NAME_KEY, ''/demo''), (SHM_SEGMENT_SIZE_KEY, show_nat 66176)],
          [(SHM_SEGMENT_NAME_KEY, ''/other'')]]
         \<lparr> cs_name = None, cs_segment = None \<rparr> = Done c
     \<and> cache_ok c \<and> cs_name c = Some ''/demo''"
proof -
  let ?os = "\<lambda>_ _. Inr (seg_mem demo_segment)"
  let ?md = "[(SHM_SEGMENT_NAME_KEY, ''/demo''), (SHM_SEGMENT_SIZE_KEY, show_nat 66176)]"
  let ?c = "\<lparr> cs_name = Some ''/demo'', cs_segment = Some \<lparr> seg_name = ''/demo'', seg_mem = seg_mem demo_segment \<rparr> \<rparr>"
  have "parse_unsigned u64_max (show_nat 66176) = Some 66176"
    by (rule parse_unsigned_show_nat) (simp add: u64_max_def)
  then have 1: "connection_refresh ?os ?md \<lparr> cs_name = None, cs_segment = None \<rparr> = Done ?c"
    by (simp add: connection_refresh_def maybe_attach_shm_def md_get_def key_defs demo_segment_facts(4))
  have 2: "connection_refresh ?os [(SHM_SEGMENT_NAME_KEY, ''/other'')] ?c = Done ?c"
    by (simp add: connection_refresh_def maybe_attach_shm_def md_get_def key_defs)
  have "refresh_all ?os [?md, [(SHM_SEGMENT_NAME_KEY, ''/other'')]] \<lparr> cs_name = None, cs_segment = None \<rparr> = Done ?c"
    by (simp add: 1 2)
  moreover from connection_cache_consistent [OF _ this] have "cache_ok ?c"
    by (simp add: cache_ok_def)
  ultimately show ?thesis by auto
qed

end
