(* ===== verification/Crypto.thy ===== *)
theory Crypto
  imports Rust_Str Error_Model
begin

text \<open>
  The sealed envelope of \<^verbatim>\<open>vgi-rpc/src/crypto.rs\<close> and the hexadecimal helpers of \<^verbatim>\<open>wire.rs\<close> and
  \<^verbatim>\<open>sticky.rs\<close>. SHA-256, the AEAD cipher and the base64 engines come from third-party crates and are
  the record \<open>token_crypto\<close>; nonces, drawn at random by the code, are arguments. What the code relies
  on is stated by predicates on the record: \<open>aead_ok\<close> is the functional contract of an AEAD (a
  ciphertext opens to exactly the message it encrypts and carries a tag), \<open>aad_binding\<close> the ideal
  form of its authenticity (a ciphertext belongs to one key and one associated data), \<open>base64_ok\<close>
  the round trip of the base64 engines and the form of
  unpadded base64url text.
\<close>

section \<open>The crates\<close>

record token_crypto =
  tc_sha256 :: "bytes \<Rightarrow> bytes"
  tc_encrypt :: "bytes \<Rightarrow> bytes \<Rightarrow> bytes \<Rightarrow> bytes \<Rightarrow> bytes"
  tc_decrypt :: "bytes \<Rightarrow> bytes \<Rightarrow> bytes \<Rightarrow> bytes \<Rightarrow> bytes option"
  tc_b64_encode :: "bytes \<Rightarrow> string"
  tc_b64_decode :: "string \<Rightarrow> bytes option"
  tc_b64_nopad_decode :: "string \<Rightarrow> bytes option"
  tc_b64url_encode :: "bytes \<Rightarrow> string"
  tc_b64url_decode :: "string \<Rightarrow> bytes option"
  tc_b64url_lenient :: "string \<Rightarrow> bytes option"

text \<open>
  \<^verbatim>\<open>tc_b64\<close> is the standard engine, \<^verbatim>\<open>tc_b64_nopad_decode\<close> its decoder for unpadded text, \<^verbatim>\<open>tc_b64url\<close> the unpadded URL-safe one and \<^verbatim>\<open>tc_b64url_lenient\<close>
  its decoder with non-zero trailing bits allowed. The cipher takes key, nonce, associated data and
  message.
\<close>

definition KEY_LEN :: nat where "KEY_LEN = 32"
definition NONCE_LEN :: nat where "NONCE_LEN = 24"
definition TAG_LEN :: nat where "TAG_LEN = 16"
definition VERSION_LEN :: nat where "VERSION_LEN = 1"
definition MIN_TOKEN_LEN :: nat where "MIN_TOKEN_LEN = VERSION_LEN + NONCE_LEN + TAG_LEN"

lemmas token_lengths = KEY_LEN_def NONCE_LEN_def TAG_LEN_def VERSION_LEN_def MIN_TOKEN_LEN_def

definition aead_ok :: "token_crypto \<Rightarrow> bool" where
  "aead_ok T =
     ((\<forall>k n a c m. tc_decrypt T k n a c = Some m \<longleftrightarrow> c = tc_encrypt T k n a m)
      \<and> (\<forall>k n a m. TAG_LEN \<le> length (tc_encrypt T k n a m)))"

definition aad_binding :: "token_crypto \<Rightarrow> bool" where
  "aad_binding T =
     (\<forall>k n a m k' a' m'. tc_encrypt T k n a m = tc_encrypt T k' n a' m' \<longrightarrow> k = k' \<and> a = a')"

text \<open>The alphabet of unpadded base64url: \<^verbatim>\<open>is_ascii_alphanumeric\<close>, \<^verbatim>\<open>-\<close> and \<^verbatim>\<open>_\<close>.\<close>

definition b64url_char :: "char \<Rightarrow> bool" where
  "b64url_char c =
     (let n = of_char c :: nat in
      (48 \<le> n \<and> n \<le> 57) \<or> (65 \<le> n \<and> n \<le> 90) \<or> (97 \<le> n \<and> n \<le> 122)
      \<or> c = CHR ''-'' \<or> c = CHR ''_'')"

definition base64_ok :: "token_crypto \<Rightarrow> bool" where
  "base64_ok T =
     ((\<forall>bs. tc_b64_decode T (tc_b64_encode T bs) = Some bs)
      \<and> (\<forall>bs. tc_b64url_decode T (tc_b64url_encode T bs) = Some bs)
      \<and> (\<forall>bs. tc_b64url_lenient T (tc_b64url_encode T bs) = Some bs)
      \<and> (\<forall>bs. list_all b64url_char (tc_b64url_encode T bs))
      \<and> (\<forall>bs. length (tc_b64url_encode T bs) mod 4 \<noteq> 1)
      \<and> (\<forall>bs. tc_b64url_encode T bs = [] \<longleftrightarrow> bs = []))"

section \<open>The envelope\<close>

definition normalize_key :: "token_crypto \<Rightarrow> bytes \<Rightarrow> bytes" where
  "normalize_key T key = (if length key = KEY_LEN then key else tc_sha256 T key)"

definition seal_bytes_with_nonce ::
  "token_crypto \<Rightarrow> bytes \<Rightarrow> bytes \<Rightarrow> bytes \<Rightarrow> 8 word \<Rightarrow> bytes \<Rightarrow> bytes" where
  "seal_bytes_with_nonce T payload key aad version nonce =
     version # nonce @ tc_encrypt T (normalize_key T key) nonce aad payload"

text \<open>\<^verbatim>\<open>seal_bytes\<close> is the same with the nonce drawn by the caller's random source.\<close>

definition open_bytes :: "token_crypto \<Rightarrow> bytes \<Rightarrow> bytes \<Rightarrow> bytes \<Rightarrow> 8 word \<Rightarrow> bytes option" where
  "open_bytes T token key aad version =
     (if length token < MIN_TOKEN_LEN \<or> hd token \<noteq> version then None
      else
        let nonce = subslice VERSION_LEN (VERSION_LEN + NONCE_LEN) token;
            ciphertext = drop (VERSION_LEN + NONCE_LEN) token
        in tc_decrypt T (normalize_key T key) nonce aad ciphertext)"

definition seal_base64 ::
  "token_crypto \<Rightarrow> bytes \<Rightarrow> bytes \<Rightarrow> bytes \<Rightarrow> 8 word \<Rightarrow> bytes \<Rightarrow> string" where
  "seal_base64 T payload key aad version nonce =
     tc_b64_encode T (seal_bytes_with_nonce T payload key aad version nonce)"

definition open_base64 :: "token_crypto \<Rightarrow> string \<Rightarrow> bytes \<Rightarrow> bytes \<Rightarrow> 8 word \<Rightarrow> bytes option" where
  "open_base64 T token key aad version =
     Option.bind (tc_b64_decode T token) (\<lambda>raw. open_bytes T raw key aad version)"

section \<open>Hexadecimal\<close>

definition hex_digit :: "nat \<Rightarrow> char" where
  "hex_digit n = ''0123456789abcdef'' ! n"

definition bytes_to_hex :: "bytes \<Rightarrow> string" where
  "bytes_to_hex bs =
     concat (map (\<lambda>b. [hex_digit (unat (drop_bit 4 b)), hex_digit (unat (and b 0x0f))]) bs)"

definition hex_val :: "char \<Rightarrow> nat option" where
  "hex_val c =
     (let n = of_char c :: nat in
      if 48 \<le> n \<and> n \<le> 57 then Some (n - 48)
      else if 97 \<le> n \<and> n \<le> 102 then Some (n - 87)
      else if 65 \<le> n \<and> n \<le> 70 then Some (n - 55)
      else None)"

text \<open>\<^verbatim>\<open>u8::from_str_radix(s, 16)\<close> on two characters; a leading plus sign is accepted.\<close>

fun hex_pair :: "char \<Rightarrow> char \<Rightarrow> 8 word option" where
  "hex_pair c d =
     (if c = CHR ''+'' then map_option word_of_nat (hex_val d)
      else Option.bind (hex_val c) (\<lambda>h. map_option (\<lambda>l. word_of_nat (16 * h + l)) (hex_val d)))"

fun hex_bytes :: "string \<Rightarrow> bytes option" where
  "hex_bytes [] = Some []"
| "hex_bytes [c] = None"
| "hex_bytes (c # d # s) = Option.bind (hex_pair c d) (\<lambda>b. map_option ((#) b) (hex_bytes s))"

section \<open>Facts about the envelope\<close>

lemma open_bytes_iff:
  assumes "aead_ok T"
  shows "open_bytes T token key aad version = Some payload \<longleftrightarrow>
    (\<exists>nonce. length nonce = NONCE_LEN \<and> token = seal_bytes_with_nonce T payload key aad version nonce)"
proof
  assume o: "open_bytes T token key aad version = Some payload"
  then have len: "MIN_TOKEN_LEN \<le> length token" "hd token = version"
    by (auto simp: open_bytes_def split: if_splits)
  let ?n = "subslice 1 25 token"
  have c: "drop 25 token = tc_encrypt T (normalize_key T key) ?n aad payload"
    using o assms len by (auto simp: open_bytes_def aead_ok_def token_lengths Let_def split: if_splits)
  have "token = hd token # ?n @ drop 25 token"
    using len(1) by (cases token) (auto simp: subslice_def token_lengths append_take_drop_id)
  then have "token = seal_bytes_with_nonce T payload key aad version ?n"
    using c len(2) by (simp add: seal_bytes_with_nonce_def)
  moreover have "length ?n = NONCE_LEN" using len(1) by (simp add: token_lengths)
  ultimately show "\<exists>nonce. length nonce = NONCE_LEN \<and> token = seal_bytes_with_nonce T payload key aad version nonce"
    by blast
next
  assume "\<exists>nonce. length nonce = NONCE_LEN \<and> token = seal_bytes_with_nonce T payload key aad version nonce"
  then obtain nonce where n: "length nonce = NONCE_LEN"
    "token = version # nonce @ tc_encrypt T (normalize_key T key) nonce aad payload"
    by (auto simp: seal_bytes_with_nonce_def)
  have "TAG_LEN \<le> length (tc_encrypt T (normalize_key T key) nonce aad payload)"
    "tc_decrypt T (normalize_key T key) nonce aad (tc_encrypt T (normalize_key T key) nonce aad payload) = Some payload"
    using assms by (auto simp: aead_ok_def)
  then show "open_bytes T token key aad version = Some payload"
    using n by (simp add: open_bytes_def token_lengths subslice_def)
qed

lemma open_sealed:
  "aead_ok T \<Longrightarrow> length nonce = NONCE_LEN \<Longrightarrow>
     open_bytes T (seal_bytes_with_nonce T payload key aad version nonce) key aad version = Some payload"
  using open_bytes_iff by blast

text \<open>With the ideal authenticity an envelope opens under one associated data only.\<close>

lemma open_other_aad:
  assumes "aead_ok T" "aad_binding T" "length nonce = NONCE_LEN" "aad \<noteq> aad'"
  shows "open_bytes T (seal_bytes_with_nonce T payload key aad version nonce) key' aad' version' = None"
proof (rule ccontr)
  assume "open_bytes T (seal_bytes_with_nonce T payload key aad version nonce) key' aad' version' \<noteq> None"
  then obtain m n' where n': "length n' = NONCE_LEN"
    "seal_bytes_with_nonce T payload key aad version nonce = seal_bytes_with_nonce T m key' aad' version' n'"
    using open_bytes_iff [OF assms(1)] by auto
  then have "nonce = n'"
    "tc_encrypt T (normalize_key T key) nonce aad payload = tc_encrypt T (normalize_key T key') n' aad' m"
    using assms(3) by (auto simp: seal_bytes_with_nonce_def)
  then show False using assms(2,4) unfolding aad_binding_def by metis
qed

section \<open>Facts about hexadecimal\<close>

lemma hex_val_digit: "n < 16 \<Longrightarrow> hex_val (hex_digit n) = Some n"
proof -
  have "\<forall>n \<in> set [0..<16]. hex_val (hex_digit n) = Some n"
    by (simp add: hex_val_def hex_digit_def upt_rec numeral_eq_Suc)
  then show "n < 16 \<Longrightarrow> hex_val (hex_digit n) = Some n" by simp
qed

lemma nibbles:
  fixes b :: "8 word"
  shows "unat (drop_bit 4 b) < 16" "unat (and b 0x0f) < 16"
    "16 * unat (drop_bit 4 b) + unat (and b 0x0f) = unat b"
proof -
  have "and n 15 = n mod 16" for n :: nat
    using take_bit_eq_mask [of 4 n] by (simp add: take_bit_eq_mod mask_eq_exp_minus_1)
  then have m: "unat (and b 0x0f) = unat b mod 16"
    by (simp add: unsigned_and_eq)
  have d: "unat (drop_bit 4 b) = unat b div 16"
    by (subst unat_drop_bit_eq) (simp add: drop_bit_eq_div)
  have "unat b div 16 < 16" using unat_byte_less [of b] by (simp add: less_mult_imp_div_less del: unat_byte_less)
  then show "unat (drop_bit 4 b) < 16" "unat (and b 0x0f) < 16"
    "16 * unat (drop_bit 4 b) + unat (and b 0x0f) = unat b"
    by (simp_all add: m d)
qed

lemma hex_digit_plus: "n < 16 \<Longrightarrow> hex_digit n \<noteq> CHR ''+''"
  using hex_val_digit [of n] by (auto simp: hex_val_def)

lemma hex_pair_nibbles:
  "hex_pair (hex_digit (unat (drop_bit 4 b))) (hex_digit (unat (and b 0x0f))) = Some (b :: 8 word)"
proof -
  have "word_of_nat (16 * unat (drop_bit 4 b) + unat (and b 0x0f)) = b"
    unfolding nibbles(3) by simp
  then show ?thesis
    using hex_digit_plus [OF nibbles(1) [of b]] hex_val_digit [OF nibbles(1) [of b]]
      hex_val_digit [OF nibbles(2) [of b]]
    by (simp only: hex_pair.simps if_False bind.simps option.map)
qed

lemma hex_bytes_to_hex: "hex_bytes (bytes_to_hex bs) = Some bs"
  by (induction bs) (simp_all add: bytes_to_hex_def hex_pair_nibbles del: hex_pair.simps)

lemma length_bytes_to_hex [simp]: "length (bytes_to_hex bs) = 2 * length bs"
  by (induction bs) (simp_all add: bytes_to_hex_def)

lemma bytes_to_hex_alnum: "c \<in> set (bytes_to_hex bs) \<Longrightarrow> hex_val c \<noteq> None"
  using hex_val_digit nibbles by (induction bs) (auto simp: bytes_to_hex_def)

section \<open>A model of the crates\<close>

text \<open>
  An instance of the record for which all the laws hold: the ciphertext spells out key and associated
  data, and base64 is replaced by hexadecimal.
\<close>

definition framed :: "bytes \<Rightarrow> bytes" where
  "framed bs = replicate (length bs) 1 @ 0 # bs"

lemma framed_inject: "framed a @ x = framed b @ y \<longleftrightarrow> a = b \<and> x = y"
proof
  assume e: "framed a @ x = framed b @ y"
  have tw: "takeWhile (\<lambda>b. b = 1) (framed c @ z) = replicate (length c) 1" for c z
    by (simp add: framed_def takeWhile_append takeWhile_replicate)
  have "length a = length b"
    using arg_cong [OF e, of "\<lambda>l. length (takeWhile (\<lambda>b. b = 1) l)"] by (simp only: tw length_replicate)
  then show "a = b \<and> x = y" using e by (simp add: framed_def)
qed simp

definition demo_seal :: "bytes \<Rightarrow> bytes \<Rightarrow> bytes \<Rightarrow> bytes \<Rightarrow> bytes" where
  "demo_seal k n a m = replicate 16 0 @ framed k @ framed a @ m"

definition demo_crypto :: token_crypto where
  "demo_crypto =
     \<lparr> tc_sha256 = \<lambda>bs. take 32 (bs @ replicate 32 0), tc_encrypt = demo_seal,
       tc_decrypt = (\<lambda>k n a c.
         let header = demo_seal k n a [] in
         if take (length header) c = header then Some (drop (length header) c) else None),
       tc_b64_encode = bytes_to_hex, tc_b64_decode = hex_bytes,
       tc_b64_nopad_decode = hex_bytes,
       tc_b64url_encode = bytes_to_hex, tc_b64url_decode = hex_bytes, tc_b64url_lenient = hex_bytes \<rparr>"

lemma demo_crypto_laws: "aead_ok demo_crypto" "aad_binding demo_crypto" "base64_ok demo_crypto"
proof -
  have h: "demo_seal k n a m = demo_seal k n a [] @ m" for k n a m
    by (simp add: demo_seal_def)
  have d: "tc_decrypt demo_crypto k n a c = Some m \<longleftrightarrow> c = tc_encrypt demo_crypto k n a m" for k n a c m
    unfolding demo_crypto_def token_crypto.simps Let_def h [of k n a m]
    by (metis append_eq_conv_conj append_take_drop_id option.distinct(1) option.inject)
  have "16 \<le> length (tc_encrypt demo_crypto k n a m)" for k n a m
    by (simp add: demo_crypto_def demo_seal_def)
  then show "aead_ok demo_crypto" using d by (simp add: aead_ok_def TAG_LEN_def)
  show "aad_binding demo_crypto"
    by (auto simp: aad_binding_def demo_crypto_def demo_seal_def framed_inject)
  have "b64url_char c" if "c \<in> set (bytes_to_hex bs)" for c bs
    using bytes_to_hex_alnum [OF that]
    by (auto simp: hex_val_def b64url_char_def Let_def split: if_splits)
  moreover have "bytes_to_hex bs = [] \<longleftrightarrow> bs = []" for bs
    by (cases bs) (simp_all add: bytes_to_hex_def)
  moreover have "length (bytes_to_hex bs) mod 4 \<noteq> 1" for bs
    unfolding length_bytes_to_hex by presburger
  ultimately show "base64_ok demo_crypto"
    by (simp add: base64_ok_def demo_crypto_def hex_bytes_to_hex list_all_iff)
qed

text \<open>C25. An envelope opens exactly when it is one that sealing that payload under the same key, associated
  data and version byte produces for some nonce: sealed payloads come back unchanged, and whatever
  else is presented (too short, another version, altered) is refused.
\<close>
theorem envelope_opens_iff_sealed:
  assumes "aead_ok T"
  shows "open_bytes T token key aad version = Some payload \<longleftrightarrow>
    (\<exists>nonce. length nonce = NONCE_LEN \<and> token = seal_bytes_with_nonce T payload key aad version nonce)"
  by (rule open_bytes_iff [OF assms])

theorem envelope_opens_iff_sealed_witness:
  "open_bytes demo_crypto (seal_bytes_with_nonce demo_crypto [1, 2] [3] [4] 1 (replicate 24 0)) [3] [4] 1 = Some [1, 2]"
  using envelope_opens_iff_sealed [OF demo_crypto_laws(1), of _ "[3]" "[4]" 1 "[1, 2]"]
  by (metis NONCE_LEN_def length_replicate)

end
