(* ===== verification/Auth.thy ===== *)
theory Auth
  imports Rust_Str Error_Model "HOL-Library.Multiset"
begin

text \<open>
  Authentication: the context and request of \<^verbatim>\<open>vgi-rpc/src/auth/mod.rs\<close>, the composition of
  authenticators, and the bearer authenticators of \<^verbatim>\<open>auth/bearer.rs\<close>. An authenticator is a function
  from a request to a result; the result is inside \<^typ>\<open>'a outcome\<close>, because the extraction of the
  bearer token slices the header at a byte offset and panics when that is inside a character.
\<close>

section \<open>Contexts and requests\<close>

record auth_context =
  ac_domain :: string
  ac_authenticated :: bool
  ac_principal :: string
  ac_claims :: "(string \<times> string) list"

definition anonymous :: auth_context where
  "anonymous = \<lparr> ac_domain = [], ac_authenticated = False, ac_principal = [], ac_claims = [] \<rparr>"

definition for_principal :: "string \<Rightarrow> string \<Rightarrow> auth_context" where
  "for_principal d p =
     \<lparr> ac_domain = d, ac_authenticated = True, ac_principal = p, ac_claims = [] \<rparr>"

definition require_authenticated :: "auth_context \<Rightarrow> unit rpc_result" where
  "require_authenticated ctx =
     (if ac_authenticated ctx then Inr () else Inl (permission_error ''authentication required''))"

definition with_claim :: "string \<Rightarrow> string \<Rightarrow> auth_context \<Rightarrow> auth_context" where
  "with_claim k v ctx = ctx\<lparr> ac_claims := obj_insert k v (ac_claims ctx) \<rparr>"

record auth_request =
  ar_method :: string
  ar_headers :: "(string \<times> string) list"
  ar_peer_addr :: "string option"

definition anonymous_pipe :: "string \<Rightarrow> auth_request" where
  "anonymous_pipe method_name = \<lparr> ar_method = method_name, ar_headers = [], ar_peer_addr = None \<rparr>"

definition header :: "auth_request \<Rightarrow> string \<Rightarrow> string option" where
  "header req name =
     map_option snd (find (\<lambda>(k, _). eq_ignore_ascii_case k name) (ar_headers req))"

type_synonym auth_result = "auth_context rpc_result"
type_synonym authenticate = "auth_request \<Rightarrow> auth_result outcome"

section \<open>Composition\<close>

definition chain_authenticate :: "authenticate \<Rightarrow> authenticate \<Rightarrow> authenticate" where
  "chain_authenticate a b req =
     on_done (a req) (\<lambda>r.
       case r of
         Inl e \<Rightarrow> Done (Inl e)
       | Inr first \<Rightarrow> if ac_authenticated first then Done (Inr first) else b req)"

definition chain_all :: "authenticate list \<Rightarrow> authenticate option" where
  "chain_all cbs =
     (case cbs of [] \<Rightarrow> None | cb # rest \<Rightarrow> Some (foldl chain_authenticate cb rest))"

section \<open>Bearer tokens\<close>

text \<open>A byte offset where a string slice may begin or end.\<close>

definition is_char_boundary :: "string \<Rightarrow> nat \<Rightarrow> bool" where
  "is_char_boundary s n =
     (n = 0 \<or> n = length s \<or> (n < length s \<and> \<not> cont (byte_of (s ! n))))"

definition extract_bearer :: "auth_request \<Rightarrow> string option outcome" where
  "extract_bearer req =
     (case header req ''authorization'' of
        None \<Rightarrow> Done None
      | Some h \<Rightarrow>
          let n = length ''Bearer '' in
          if n < length h then
            if \<not> is_char_boundary h n then Panic
            else if eq_ignore_ascii_case (take n h) ''Bearer '' then
              let tok = trim (drop n h) in
              Done (if tok \<noteq> [] then Some tok else None)
            else Done None
          else Done None)"

definition bearer_authenticate :: "(string \<Rightarrow> auth_context option) \<Rightarrow> authenticate" where
  "bearer_authenticate validator req =
     on_done (extract_bearer req) (\<lambda>t.
       case t of
         None \<Rightarrow> Done (Inr anonymous)
       | Some token \<Rightarrow> Done (Inr (case validator token of None \<Rightarrow> anonymous | Some ctx \<Rightarrow> ctx)))"

definition constant_time_eq :: "bytes \<Rightarrow> bytes \<Rightarrow> bool" where
  "constant_time_eq a b =
     (if length a \<noteq> length b then False
      else foldl (\<lambda>diff (x, y). or diff (xor x y)) 0 (zip a b) = 0)"

text \<open>
  The static table: \<^verbatim>\<open>tokens\<close> lists the entries of the hash map in its (unspecified) iteration order.
\<close>

definition static_lookup :: "(bytes \<times> auth_context) list \<Rightarrow> string \<Rightarrow> auth_context option" where
  "static_lookup encoded tok =
     foldl (\<lambda>found (known, ctx).
              if constant_time_eq (as_bytes tok) known \<and> found = None then Some ctx else found)
       None encoded"

definition bearer_authenticate_static :: "(string \<times> auth_context) list \<Rightarrow> authenticate" where
  "bearer_authenticate_static tokens =
     bearer_authenticate (static_lookup (map (\<lambda>(k, v). (as_bytes k, v)) tokens))"

section \<open>Facts\<close>

lemma xor_eq_0_iff_eq: "xor x y = 0 \<longleftrightarrow> x = (y :: 8 word)"
  by (auto simp: bit_eq_iff bit_simps)

lemma or_xor_fold_eq_0:
  "length a = length b \<Longrightarrow>
   foldl (\<lambda>diff (x, y). or diff (xor x y)) (d :: 8 word) (zip a b) = 0 \<longleftrightarrow> d = 0 \<and> a = b"
  by (induction a b arbitrary: d rule: list_induct2) (auto simp: or_eq_0_iff xor_eq_0_iff_eq)

lemma constant_time_eq_iff [simp]: "constant_time_eq a b \<longleftrightarrow> a = b"
  by (auto simp: constant_time_eq_def or_xor_fold_eq_0)

lemma static_lookup_found:
  "foldl (\<lambda>found (known, ctx).
            if n = known \<and> found = None then Some ctx else found) (Some c) es = Some c"
  by (induction es) auto

lemma static_lookup_map_of: "static_lookup es tok = map_of es (as_bytes tok)"
  unfolding static_lookup_def
  by (induction es) (auto simp: static_lookup_found)

lemma map_of_as_bytes: "map_of (map (\<lambda>(k, v). (as_bytes k, v)) ts) (as_bytes tok) = map_of ts tok"
  by (induction ts) (auto simp: inj_as_bytes)

text \<open>
  A chain answers with the first member that fails, panics or authenticates, and with the answer of its
  last member when every one before it was anonymous.
\<close>

fun first_answer :: "authenticate list \<Rightarrow> auth_request \<Rightarrow> auth_result outcome" where
  "first_answer [] req = Done (Inr anonymous)"
| "first_answer [cb] req = cb req"
| "first_answer (cb # cbs) req =
     (case cb req of
        Done (Inr ctx) \<Rightarrow> if ac_authenticated ctx then Done (Inr ctx) else first_answer cbs req
      | r \<Rightarrow> r)"

lemma chain_authenticate_assoc:
  "chain_authenticate (chain_authenticate a b) c = chain_authenticate a (chain_authenticate b c)"
  by (rule ext) (simp add: chain_authenticate_def on_done_def split: outcome.split sum.split)

lemma foldl_chain:
  "foldl chain_authenticate (chain_authenticate a b) cbs =
   chain_authenticate a (foldl chain_authenticate b cbs)"
  by (induction cbs arbitrary: b) (simp_all add: chain_authenticate_assoc)

lemma chain_first_answer: "foldl chain_authenticate cb cbs req = first_answer (cb # cbs) req"
  by (induction cbs arbitrary: cb)
    (simp_all add: foldl_chain, simp add: chain_authenticate_def on_done_def split: outcome.split sum.split)

lemma extract_bearer_ascii:
  assumes "header req ''authorization'' = Some h" "is_ascii h"
  shows "extract_bearer req \<noteq> Panic"
proof -
  have "\<not> cont (byte_of (h ! n))" if "n < length h" for n
    using assms(2) that byte_of_less [of "h ! n"]
    by (auto simp: is_ascii_def cont_def list_all_length not_le)
  then show ?thesis
    using assms(1) by (simp add: extract_bearer_def is_char_boundary_def Let_def)
qed

section \<open>Properties\<close>

text \<open>C26. Folding authenticators into one chain gives the authenticator that answers with the first member
  that rejects, reports an outage or authenticates, and with the last member's answer otherwise; an
  empty list gives none.
\<close>
theorem chain_all_first_answer:
  "chain_all cbs = (if cbs = [] then None else Some (first_answer cbs))"
  by (cases cbs) (auto simp: chain_all_def chain_first_answer fun_eq_iff)

text \<open>C27. The static bearer authenticator, whose comparison accumulates differences instead of stopping at
  the first one, accepts exactly the configured tokens, each with its own context, for every iteration
  order of the table; every other token is anonymous.
\<close>
theorem static_bearer_exact:
  assumes "distinct (map fst tokens)" "mset order = mset tokens"
    and "extract_bearer req = Done (Some tok)"
  shows "bearer_authenticate_static order req =
    Done (Inr (case map_of tokens tok of None \<Rightarrow> anonymous | Some ctx \<Rightarrow> ctx))"
proof -
  have "distinct (map fst order)"
    using assms(1) mset_eq_imp_distinct_iff [of "map fst order" "map fst tokens"] assms(2)
    unfolding mset_map by simp
  then have "map_of order = map_of tokens"
    using assms(1) mset_eq_setD [OF assms(2)] by (simp only: map_of_inject_set)
  then show ?thesis
    using assms(3)
    by (simp add: bearer_authenticate_static_def bearer_authenticate_def static_lookup_map_of map_of_as_bytes)
qed

definition demo_bearer_request :: auth_request where
  "demo_bearer_request =
     \<lparr> ar_method = ''m'', ar_headers = [(''Authorization'', ''bearer s3cret'')], ar_peer_addr = None \<rparr>"

lemma demo_bearer: "extract_bearer demo_bearer_request = Done (Some ''s3cret'')"
proof -
  have "trim ''s3cret'' = ''s3cret''"
    by (rule trim_graph) (simp add: graph_char_def)
  moreover have "header demo_bearer_request ''authorization'' = Some ''bearer s3cret''"
    "eq_ignore_ascii_case ''bearer '' ''Bearer ''" "is_char_boundary ''bearer s3cret'' 7"
    by code_simp+
  ultimately show ?thesis
    by (simp add: extract_bearer_def numeral_eq_Suc)
qed

theorem static_bearer_exact_witness:
  "bearer_authenticate_static
       [(''other'', for_principal ''bearer'' ''bob''), (''s3cret'', for_principal ''bearer'' ''alice'')]
       demo_bearer_request =
     Done (Inr (for_principal ''bearer'' ''alice''))"
  using static_bearer_exact
    [of "[(''s3cret'', for_principal ''bearer'' ''alice''), (''other'', for_principal ''bearer'' ''bob'')]"
        "[(''other'', for_principal ''bearer'' ''bob''), (''s3cret'', for_principal ''bearer'' ''alice'')]",
     OF _ _ demo_bearer]
  by simp

end
