(* ===== verification/Grants.thy ===== *)
theory Grants
  imports Crypto Auth
begin

text \<open>
  Sealed grants, \<^verbatim>\<open>vgi-rpc/src/grants.rs\<close>: the key configuration and its parsing, the binary payload,
  minting and verification. The clock is a rational number of seconds, as the \<^verbatim>\<open>f64\<close> of the code
  denotes it; conversions from \<^verbatim>\<open>i64\<close> and the additions of the lifetime check round as doubles do.
  The random grant id and nonce are arguments.
\<close>

section \<open>Double arithmetic on the clock\<close>

text \<open>
  Finite doubles are multiples of \<open>2 ^ -1074\<close>, so a sum is rounded by rounding an integer to 53
  significant bits. Overflow to infinity is out of reach of clock values.
\<close>

definition f64_round :: "rat \<Rightarrow> rat" where
  "f64_round r = f64_of_int \<lfloor>r * 2 ^ 1074\<rfloor> / 2 ^ 1074"

definition f64_add :: "rat \<Rightarrow> rat \<Rightarrow> rat" where
  "f64_add a b = f64_round (a + b)"

definition f64_as_i64 :: "rat \<Rightarrow> int" where
  "f64_as_i64 r = isaturate (if r < 0 then \<lceil>r\<rceil> else \<lfloor>r\<rfloor>)"

definition i64_wrap :: "int \<Rightarrow> int" where
  "i64_wrap x = (x + 2 ^ 63) mod 2 ^ 64 - 2 ^ 63"

definition parse_i64 :: "string \<Rightarrow> int option" where
  "parse_i64 s =
     (case s of
        CHR ''-'' # cs \<Rightarrow>
          if cs = [] then None else map_option (\<lambda>n. - int n) (parse_digits (2 ^ 63) 0 cs)
      | _ \<Rightarrow> map_option int (parse_unsigned (2 ^ 63 - 1) s))"

section \<open>Constants and errors\<close>

definition GRANT_TOKEN_PREFIX :: string where "GRANT_TOKEN_PREFIX = ''vgig1.''"
definition GRANT_KEYS_ENV :: string where "GRANT_KEYS_ENV = ''VGI_RPC_GRANT_KEYS''"
definition GRANT_AUDIENCE_ENV :: string where "GRANT_AUDIENCE_ENV = ''VGI_RPC_GRANT_AUDIENCE''"
definition GRANT_MAX_TTL_ENV :: string where "GRANT_MAX_TTL_ENV = ''VGI_RPC_GRANT_MAX_TTL_SECONDS''"
definition DEFAULT_MAX_TTL_SECONDS :: int where "DEFAULT_MAX_TTL_SECONDS = 7 * 24 * 3600"
definition DEFAULT_CLOCK_SKEW_SECONDS :: int where "DEFAULT_CLOCK_SKEW_SECONDS = 60"
definition MAX_GRANT_TOKEN_CHARS :: nat where "MAX_GRANT_TOKEN_CHARS = 4096"
definition KID_LEN :: nat where "KID_LEN = 8"
definition ENVELOPE_VERSION :: byte where "ENVELOPE_VERSION = 1"
definition KID_DOMAIN :: bytes where "KID_DOMAIN = as_bytes ''vgi_rpc.grant.kid.v1'' @ [0]"
definition AAD_DOMAIN :: bytes where "AAD_DOMAIN = as_bytes ''vgi_rpc.grant.v1'' @ [0]"
definition MAX_FIELD :: nat where "MAX_FIELD = 0xFFFF"

record grant_invalid =
  gi_detail :: string
  gi_expired :: bool

definition grant_invalid_new :: "string \<Rightarrow> grant_invalid" where
  "grant_invalid_new detail = \<lparr> gi_detail = detail, gi_expired = False \<rparr>"

definition grant_invalid_lifetime :: "string \<Rightarrow> grant_invalid" where
  "grant_invalid_lifetime detail = \<lparr> gi_detail = detail, gi_expired = True \<rparr>"

section \<open>Keys\<close>

definition grant_key_id :: "token_crypto \<Rightarrow> bytes \<Rightarrow> bytes" where
  "grant_key_id T key = take KID_LEN (tc_sha256 T (KID_DOMAIN @ key))"

record grant_keys =
  gk_keys :: "bytes list"
  gk_audience :: string
  gk_max_ttl :: int
  gk_skew :: int

definition grant_keys_new ::
  "token_crypto \<Rightarrow> bytes list \<Rightarrow> string \<Rightarrow> int \<Rightarrow> int \<Rightarrow> grant_keys rpc_result" where
  "grant_keys_new T keys audience max_ttl skew =
     and_then (ensure (list_all (\<lambda>k. length k = KEY_LEN) keys)
       (value_error (''every grant key must be exactly '' @ show_nat KEY_LEN @ '' bytes''))) (\<lambda>_.
     and_then (ensure (keys \<noteq> []) (value_error ''grant configuration needs at least one key'')) (\<lambda>_.
     and_then (ensure (length (remdups (map (grant_key_id T) keys)) = length keys)
       (value_error ''grant keys must be distinct'')) (\<lambda>_.
     and_then (ensure (0 < max_ttl) (value_error ''max_ttl_seconds must be positive'')) (\<lambda>_.
     and_then (ensure (0 \<le> skew) (value_error ''clock_skew_seconds must not be negative'')) (\<lambda>_.
     and_then (ensure (length audience \<le> MAX_FIELD) (value_error ''audience is too long'')) (\<lambda>_.
       Inr \<lparr> gk_keys = keys, gk_audience = audience, gk_max_ttl = max_ttl, gk_skew = skew \<rparr>))))))"

text \<open>\<^verbatim>\<open>parse\<close> decodes the key texts in order, the first bad one being reported by its number.\<close>

definition strip_padding :: "string \<Rightarrow> string" where
  "strip_padding s = rev (dropWhile (\<lambda>c. c = CHR ''='') (rev s))"

fun parse_grant_keys :: "token_crypto \<Rightarrow> nat \<Rightarrow> string list \<Rightarrow> bytes list rpc_result" where
  "parse_grant_keys T index [] = Inr []"
| "parse_grant_keys T index (t # ts) =
     (case tc_b64_nopad_decode T (strip_padding (trim t)) of
        None \<Rightarrow> Inl (value_error (''grant key #'' @ show_nat (index + 1) @ '' is not valid base64''))
      | Some key \<Rightarrow>
          if length key \<noteq> KEY_LEN then
            Inl (value_error (''grant key #'' @ show_nat (index + 1) @ '' decodes to ''
                  @ show_nat (length key) @ '' bytes; exactly '' @ show_nat KEY_LEN @ '' are required''))
          else and_then (parse_grant_keys T (index + 1) ts) (\<lambda>keys. Inr (key # keys)))"

definition grant_keys_parse :: "token_crypto \<Rightarrow> string list \<Rightarrow> string \<Rightarrow> int \<Rightarrow> grant_keys rpc_result" where
  "grant_keys_parse T encoded audience max_ttl =
     and_then (parse_grant_keys T 0 encoded) (\<lambda>keys.
       grant_keys_new T keys audience max_ttl DEFAULT_CLOCK_SKEW_SECONDS)"

definition grant_keys_from_lookup ::
  "token_crypto \<Rightarrow> (string \<Rightarrow> string option) \<Rightarrow> grant_keys option rpc_result" where
  "grant_keys_from_lookup T get =
     (let raw = case_option [] id (get GRANT_KEYS_ENV) in
      if trim raw = [] then Inr None
      else
        let ttl_raw = trim (case_option [] id (get GRANT_MAX_TTL_ENV)) in
        and_then
          (if ttl_raw = [] then Inr DEFAULT_MAX_TTL_SECONDS
           else ok_or (value_error (GRANT_MAX_TTL_ENV @ ''='' @ debug_str ttl_raw @ '' is not an integer''))
             (parse_i64 ttl_raw)) (\<lambda>max_ttl.
        and_then
          (grant_keys_parse T (filter (\<lambda>p. trim p \<noteq> []) (split_on CHR '','' raw))
             (case_option [] id (get GRANT_AUDIENCE_ENV)) max_ttl) (\<lambda>keys. Inr (Some keys))))"

definition grant_keys_from_cli_or_env ::
  "token_crypto \<Rightarrow> (string \<Rightarrow> string option) \<Rightarrow> string list \<Rightarrow> grant_keys option rpc_result" where
  "grant_keys_from_cli_or_env T env cli_keys =
     (if cli_keys = [] then grant_keys_from_lookup T env
      else grant_keys_from_lookup T
        (\<lambda>name. if name = GRANT_KEYS_ENV then Some (join '','' cli_keys) else env name))"

definition grant_aad :: "grant_keys \<Rightarrow> bytes \<Rightarrow> bytes" where
  "grant_aad gk kid = AAD_DOMAIN @ kid @ as_bytes (gk_audience gk)"

section \<open>The payload\<close>

record grant_claims =
  gc_principal :: string
  gc_scopes :: "string list"
  gc_purpose :: string
  gc_grant_id :: string
  gc_issued_at :: int
  gc_expires_at :: int

definition pack_text :: "string \<Rightarrow> bytes \<Rightarrow> bytes rpc_result" where
  "pack_text v out =
     (if MAX_FIELD < length v then Inl (value_error ''grant field longer than 65535 bytes'')
      else Inr (out @ le_bytes 2 (length v) @ as_bytes v))"

fun pack_texts :: "string list \<Rightarrow> bytes \<Rightarrow> bytes rpc_result" where
  "pack_texts [] out = Inr out"
| "pack_texts (v # vs) out = and_then (pack_text v out) (pack_texts vs)"

definition encode_payload :: "grant_claims \<Rightarrow> bytes rpc_result" where
  "encode_payload c =
     (if MAX_FIELD < length (gc_scopes c) then Inl (value_error ''too many scopes'')
      else
        and_then (pack_text (gc_grant_id c) (i64_le_bytes (gc_issued_at c) @ i64_le_bytes (gc_expires_at c))) (\<lambda>out.
        and_then (pack_text (gc_principal c) out) (\<lambda>out.
        and_then (pack_text (gc_purpose c) out) (\<lambda>out.
          pack_texts (gc_scopes c) (out @ le_bytes 2 (length (gc_scopes c)))))))"

text \<open>The cursor is the part of the payload that is still to be read.\<close>

type_synonym 'a cursor_result = "grant_invalid + ('a \<times> bytes)"

definition cursor_take :: "nat \<Rightarrow> bytes \<Rightarrow> bytes cursor_result" where
  "cursor_take n c =
     (if n \<le> length c then Inr (take n c, drop n c)
      else Inl (grant_invalid_new ''grant payload is truncated''))"

definition cursor_i64 :: "bytes \<Rightarrow> int cursor_result" where
  "cursor_i64 c = and_then (cursor_take 8 c) (\<lambda>(chunk, c). Inr (of_i64_le chunk, c))"

definition cursor_u16 :: "bytes \<Rightarrow> nat cursor_result" where
  "cursor_u16 c = and_then (cursor_take 2 c) (\<lambda>(chunk, c). Inr (of_le chunk, c))"

definition cursor_text :: "bytes \<Rightarrow> string cursor_result" where
  "cursor_text c =
     and_then (cursor_u16 c) (\<lambda>(len, c).
     and_then (cursor_take len c) (\<lambda>(chunk, c).
     and_then (ok_or (grant_invalid_new ''grant payload is not UTF-8'') (from_utf8 chunk)) (\<lambda>s.
       Inr (s, c))))"

primrec cursor_texts :: "nat \<Rightarrow> bytes \<Rightarrow> string list cursor_result" where
  "cursor_texts 0 c = Inr ([], c)"
| "cursor_texts (Suc n) c =
     and_then (cursor_text c) (\<lambda>(s, c). and_then (cursor_texts n c) (\<lambda>(ss, c). Inr (s # ss, c)))"

definition decode_payload :: "bytes \<Rightarrow> grant_invalid + grant_claims" where
  "decode_payload payload =
     and_then (cursor_i64 payload) (\<lambda>(issued_at, c).
     and_then (cursor_i64 c) (\<lambda>(expires_at, c).
     and_then (cursor_text c) (\<lambda>(grant_id, c).
     and_then (cursor_text c) (\<lambda>(principal_name, c).
     and_then (cursor_text c) (\<lambda>(purpose, c).
     and_then (cursor_u16 c) (\<lambda>(cnt, c).
     and_then (cursor_texts cnt c) (\<lambda>(scopes, c).
       if c \<noteq> [] then Inl (grant_invalid_new ''grant payload has trailing bytes'')
       else Inr \<lparr> gc_principal = principal_name, gc_scopes = scopes, gc_purpose = purpose,
              gc_grant_id = grant_id, gc_issued_at = issued_at, gc_expires_at = expires_at \<rparr>)))))))"

definition b64url_strict :: "token_crypto \<Rightarrow> string \<Rightarrow> grant_invalid + bytes" where
  "b64url_strict T text =
     (if text = [] \<or> \<not> list_all b64url_char text \<or> length text mod 4 = 1
      then Inl (grant_invalid_new ''grant token is not unpadded base64url'')
      else case tc_b64url_lenient T text of
        None \<Rightarrow> Inl (grant_invalid_new ''grant token is not unpadded base64url'')
      | Some raw \<Rightarrow>
          if tc_b64url_encode T raw \<noteq> text
          then Inl (grant_invalid_new ''grant token is not canonical base64url'')
          else Inr raw)"

section \<open>Minting and verification\<close>

record mint_overrides =
  mo_now :: "int option"
  mo_grant_id :: "string option"
  mo_nonce :: "bytes option"

text \<open>What the process supplies where nothing is overridden: its clock and the random bytes drawn.\<close>

record mint_draw =
  md_clock :: rat
  md_id_bytes :: bytes
  md_nonce :: bytes

definition mint_grant_token ::
  "token_crypto \<Rightarrow> grant_keys \<Rightarrow> mint_draw \<Rightarrow> string \<Rightarrow> string list \<Rightarrow> string \<Rightarrow> int \<Rightarrow> mint_overrides
   \<Rightarrow> (string \<times> grant_claims) rpc_result" where
  "mint_grant_token T gk draw principal_name scopes purpose ttl ovr =
     (if ttl \<le> 0 then Inl (value_error ''ttl_seconds must be positive'')
      else
        let issued_at = (case mo_now ovr of Some n \<Rightarrow> n | None \<Rightarrow> f64_as_i64 (md_clock draw));
            claims = \<lparr> gc_principal = principal_name, gc_scopes = scopes, gc_purpose = purpose,
              gc_grant_id = (case mo_grant_id ovr of Some g \<Rightarrow> g | None \<Rightarrow> bytes_to_hex (md_id_bytes draw)),
              gc_issued_at = issued_at,
              gc_expires_at = i64_wrap (issued_at + min ttl (gk_max_ttl gk)) \<rparr>;
            key = gk_keys gk ! 0;
            kid = grant_key_id T key
        in and_then (encode_payload claims) (\<lambda>payload.
             let nonce = (case mo_nonce ovr of Some n \<Rightarrow> n | None \<Rightarrow> md_nonce draw);
                 envelope = seal_bytes_with_nonce T payload key (grant_aad gk kid) ENVELOPE_VERSION nonce
             in Inr (GRANT_TOKEN_PREFIX @ tc_b64url_encode T (kid @ envelope), claims)))"

definition verify_lifetime :: "grant_keys \<Rightarrow> rat \<Rightarrow> grant_claims \<Rightarrow> grant_invalid + grant_claims" where
  "verify_lifetime gk current claims =
     (if gc_principal claims = [] then Inl (grant_invalid_new ''grant names no principal'')
      else if gc_expires_at claims \<le> gc_issued_at claims
        \<or> gk_max_ttl gk < isaturate (gc_expires_at claims - gc_issued_at claims)
      then Inl (grant_invalid_new ''grant lifetime exceeds this deployment's maximum'')
      else if f64_add current (f64_of_int (gk_skew gk)) < f64_of_int (gc_issued_at claims)
      then Inl (grant_invalid_lifetime ''grant is not yet valid'')
      else if f64_add (f64_of_int (gc_expires_at claims)) (f64_of_int (gk_skew gk)) \<le> current
      then Inl (grant_invalid_lifetime ''grant has expired'')
      else Inr claims)"

definition verify_grant_token ::
  "token_crypto \<Rightarrow> grant_keys \<Rightarrow> string \<Rightarrow> rat \<Rightarrow> grant_invalid + grant_claims" where
  "verify_grant_token T gk token current =
     (if \<not> prefix GRANT_TOKEN_PREFIX token then Inl (grant_invalid_new ''not a sealed grant'')
      else if MAX_GRANT_TOKEN_CHARS < length token
      then Inl (grant_invalid_new ''grant token is too long'')
      else
        and_then (b64url_strict T (drop (length GRANT_TOKEN_PREFIX) token)) (\<lambda>raw.
          if length raw < KID_LEN then Inl (grant_invalid_new ''grant token is truncated'')
          else
            let kid = take KID_LEN raw; envelope = drop KID_LEN raw in
            case find (\<lambda>k. grant_key_id T k = kid) (gk_keys gk) of
              None \<Rightarrow> Inl (grant_invalid_new
                ''grant was sealed with a key this deployment does not hold'')
            | Some key \<Rightarrow>
                and_then
                  (ok_or (grant_invalid_new ''grant failed verification'')
                    (open_bytes T envelope key (grant_aad gk kid) ENVELOPE_VERSION)) (\<lambda>payload.
                and_then (decode_payload payload) (verify_lifetime gk current))))"

section \<open>Facts about rounding\<close>

lemma excess_bits_shift: "k < 2 ^ 53 \<Longrightarrow> excess_bits (k * 2 ^ m) \<le> m"
  by (induction m) (simp_all add: excess_bits.simps [of "k * 2"] excess_bits.simps)

lemma round_nat_shift:
  assumes "k < 2 ^ 53"
  shows "round_nat (k * 2 ^ m) = k * 2 ^ m"
proof -
  have "2 ^ excess_bits (k * 2 ^ m) dvd k * 2 ^ m"
    using excess_bits_shift [OF assms, of m] by (simp add: le_imp_power_dvd)
  then show ?thesis
    by (simp add: round_nat_def Let_def mod_eq_0_iff_dvd)
qed

lemma f64_of_int_shift:
  assumes "\<bar>k\<bar> < 2 ^ 53"
  shows "f64_of_int (k * 2 ^ m) = of_int (k * 2 ^ m)"
proof -
  have "nat k < 2 ^ 53" "nat (- k) < 2 ^ 53"
    using assms by (simp_all add: nat_less_iff)
  moreover have j: "nat (j * 2 ^ m) = nat j * 2 ^ m" for j
    by (cases "0 \<le> j") (simp_all add: nat_mult_distrib nat_power_eq mult_nonpos_nonneg)
  ultimately have "round_nat (nat (k * 2 ^ m)) = nat k * 2 ^ m" "round_nat (nat (- (k * 2 ^ m))) = nat (- k) * 2 ^ m"
    using round_nat_shift [of "nat k" m] round_nat_shift [of "nat (- k)" m] j [of "- k"]
    by simp_all
  then show ?thesis
    by (auto simp: f64_of_int_def not_less mult_less_0_iff)
qed

lemma f64_add_int:
  assumes "\<bar>a\<bar> < 2 ^ 52" "\<bar>b\<bar> < 2 ^ 52"
  shows "f64_add (of_int a) (of_int b) = of_int (a + b)"
proof -
  have "\<bar>a + b\<bar> < 2 ^ 53"
    using assms by simp
  moreover have "\<lfloor>(of_int a + of_int b :: rat) * 2 ^ m\<rfloor> = (a + b) * 2 ^ m" for m
    by (metis floor_of_int of_int_add of_int_mult of_int_numeral of_int_power)
  ultimately show ?thesis
    unfolding f64_add_def f64_round_def by (simp only: f64_of_int_shift) simp
qed

section \<open>Facts about the payload\<close>

lemma i64_le_bytes_of:
  assumes "length c = 8"
  shows "i64_le_bytes (of_i64_le c) = c" "i64_min \<le> of_i64_le c" "of_i64_le c \<le> i64_max"
proof -
  have b: "of_le c < 2 ^ 64"
    using of_le_bound [of c] assms by simp
  have "nat (of_i64_le c mod 2 ^ 64) = of_le c"
    using b by (auto simp: of_i64_le_def Let_def)
  then show "i64_le_bytes (of_i64_le c) = c"
    using le_bytes_of_le [of c] assms by (simp add: i64_le_bytes_def)
  show "i64_min \<le> of_i64_le c" "of_i64_le c \<le> i64_max"
    using b by (auto simp: of_i64_le_def Let_def i64_min_def i64_max_def)
qed

definition i64_ok :: "int \<Rightarrow> bool" where
  "i64_ok x = (i64_min \<le> x \<and> x \<le> i64_max)"

lemma cursor_take_Inr:
  "cursor_take n c = Inr (chunk, r) \<longleftrightarrow> c = chunk @ r \<and> length chunk = n"
  by (auto simp: cursor_take_def)

lemma cursor_i64_Inr: "cursor_i64 c = Inr (x, r) \<longleftrightarrow> i64_ok x \<and> c = i64_le_bytes x @ r"
  unfolding cursor_i64_def and_then_Inr_iff
  by (auto simp: cursor_take_Inr i64_ok_def i64_le_bytes_of of_i64_le_bytes)

lemma cursor_u16_Inr: "cursor_u16 c = Inr (n, r) \<longleftrightarrow> n \<le> MAX_FIELD \<and> c = le_bytes 2 n @ r"
proof -
  have "le_bytes 2 (of_le ch) = ch" "of_le ch \<le> MAX_FIELD" if "length ch = 2" for ch
    using that le_bytes_of_le [of ch] of_le_bound [of ch] by (simp_all add: MAX_FIELD_def)
  moreover have "of_le (le_bytes 2 n) = n" if "n \<le> MAX_FIELD"
    using that by (intro of_le_le_bytes) (simp add: MAX_FIELD_def)
  ultimately show ?thesis
    unfolding cursor_u16_def and_then_Inr_iff by (auto simp: cursor_take_Inr)
qed

definition text_bytes :: "string \<Rightarrow> bytes" where
  "text_bytes s = le_bytes 2 (length s) @ as_bytes s"

definition text_ok :: "string \<Rightarrow> bool" where
  "text_ok s = (str_ok s \<and> length s \<le> MAX_FIELD)"

lemma pack_text_Inr: "pack_text v out = Inr r \<longleftrightarrow> length v \<le> MAX_FIELD \<and> r = out @ text_bytes v"
  by (auto simp: pack_text_def text_bytes_def)

lemma pack_texts_Inr:
  "pack_texts vs out = Inr r \<longleftrightarrow>
     list_all (\<lambda>v. length v \<le> MAX_FIELD) vs \<and> r = out @ concat (map text_bytes vs)"
  by (induction vs arbitrary: out) (auto simp: and_then_Inr_iff pack_text_Inr)

lemma cursor_text_Inr: "cursor_text c = Inr (s, r) \<longleftrightarrow> text_ok s \<and> c = text_bytes s @ r"
proof -
  have "from_utf8 chunk = Some s \<longleftrightarrow> chunk = as_bytes s \<and> str_ok s" for chunk
    using from_utf8_SomeD by auto
  then show ?thesis
    unfolding cursor_text_def and_then_Inr_iff
    by (auto simp: and_then_Inr_iff cursor_u16_Inr cursor_take_Inr ok_or_Inr_iff text_ok_def text_bytes_def
        split: prod.splits)
qed

lemma cursor_texts_Inr:
  "cursor_texts n c = Inr (ss, r) \<longleftrightarrow>
     length ss = n \<and> list_all text_ok ss \<and> c = concat (map text_bytes ss) @ r"
proof (induction n arbitrary: c ss)
  case (Suc n)
  then show ?case
    by (cases ss) (auto simp: and_then_Inr_iff cursor_text_Inr split: prod.splits)
qed auto

lemma cursor_reads:
  "i64_ok x \<Longrightarrow> cursor_i64 (i64_le_bytes x @ r) = Inr (x, r)"
  "text_ok s \<Longrightarrow> cursor_text (text_bytes s @ r) = Inr (s, r)"
  "n \<le> MAX_FIELD \<Longrightarrow> cursor_u16 (le_bytes 2 n @ r) = Inr (n, r)"
  "list_all text_ok ss \<Longrightarrow> cursor_texts (length ss) (concat (map text_bytes ss)) = Inr (ss, [])"
  by (simp_all add: cursor_i64_Inr cursor_text_Inr cursor_u16_Inr cursor_texts_Inr)

definition claims_ok :: "grant_claims \<Rightarrow> bool" where
  "claims_ok c =
     (i64_ok (gc_issued_at c) \<and> i64_ok (gc_expires_at c) \<and> text_ok (gc_grant_id c)
      \<and> text_ok (gc_principal c) \<and> text_ok (gc_purpose c) \<and> length (gc_scopes c) \<le> MAX_FIELD
      \<and> list_all text_ok (gc_scopes c))"

lemma decode_payload_Inr: "decode_payload p = Inr c \<longleftrightarrow> claims_ok c \<and> encode_payload c = Inr p"
proof
  assume "decode_payload p = Inr c"
  then show "claims_ok c \<and> encode_payload c = Inr p"
    unfolding decode_payload_def and_then_Inr_iff
    by (auto simp: and_then_Inr_iff cursor_i64_Inr cursor_text_Inr cursor_u16_Inr cursor_texts_Inr claims_ok_def
        encode_payload_def pack_text_Inr pack_texts_Inr text_ok_def list_all_iff split: if_splits)
next
  assume a: "claims_ok c \<and> encode_payload c = Inr p"
  then have p: "p = i64_le_bytes (gc_issued_at c) @ i64_le_bytes (gc_expires_at c) @ text_bytes (gc_grant_id c)
      @ text_bytes (gc_principal c) @ text_bytes (gc_purpose c) @ le_bytes 2 (length (gc_scopes c))
      @ concat (map text_bytes (gc_scopes c)) @ []"
    by (auto simp: encode_payload_def and_then_Inr_iff pack_text_Inr pack_texts_Inr split: if_splits)
  show "decode_payload p = Inr c"
    using a unfolding p claims_ok_def decode_payload_def
    by (simp add: cursor_reads)
qed

section \<open>Facts about verification\<close>

definition sha256_ok :: "token_crypto \<Rightarrow> bool" where
  "sha256_ok T = (\<forall>bs. length (tc_sha256 T bs) = 32)"

lemma b64url_strict_Inr:
  assumes "base64_ok T"
  shows "b64url_strict T t = Inr raw \<longleftrightarrow> raw \<noteq> [] \<and> t = tc_b64url_encode T raw"
proof
  have e: "tc_b64url_encode T raw = [] \<longleftrightarrow> raw = []"
    using assms by (simp add: base64_ok_def)
  assume "b64url_strict T t = Inr raw"
  then have "t \<noteq> []" "t = tc_b64url_encode T raw"
    by (simp_all add: b64url_strict_def split: if_split_asm option.split_asm)
  then show "raw \<noteq> [] \<and> t = tc_b64url_encode T raw"
    using e by simp
next
  have "list_all b64url_char (tc_b64url_encode T raw)" "length (tc_b64url_encode T raw) mod 4 \<noteq> 1"
    "tc_b64url_encode T raw = [] \<longleftrightarrow> raw = []" "tc_b64url_lenient T (tc_b64url_encode T raw) = Some raw"
    using assms unfolding base64_ok_def by blast+
  then show "b64url_strict T t = Inr raw" if "raw \<noteq> [] \<and> t = tc_b64url_encode T raw"
    using that by (simp add: b64url_strict_def)
qed

lemma grant_keys_new_Inr:
  "grant_keys_new T ks aud ttl skew = Inr gk \<longleftrightarrow>
     ks \<noteq> [] \<and> list_all (\<lambda>k. length k = KEY_LEN) ks \<and> distinct (map (grant_key_id T) ks)
     \<and> 0 < ttl \<and> 0 \<le> skew \<and> length aud \<le> MAX_FIELD
     \<and> gk = \<lparr> gk_keys = ks, gk_audience = aud, gk_max_ttl = ttl, gk_skew = skew \<rparr>"
proof -
  have "length (remdups (map (grant_key_id T) ks)) = length ks \<longleftrightarrow> distinct (map (grant_key_id T) ks)"
    by (metis length_map length_remdups_eq remdups_id_iff_distinct)
  then show ?thesis
    unfolding grant_keys_new_def by (auto simp: and_then_Inr_iff ensure_Inr_iff)
qed

lemma grant_keys_new_facts:
  assumes "grant_keys_new T ks aud ttl skew = Inr gk"
  shows "gk_keys gk = ks" "gk_audience gk = aud" "gk_max_ttl gk = ttl" "gk_skew gk = skew"
    "distinct (map (grant_key_id T) (gk_keys gk))" "ks \<noteq> []" "0 < ttl" "0 \<le> skew"
  using assms by (simp_all add: grant_keys_new_Inr)

lemma find_distinct:
  "distinct (map f xs) \<Longrightarrow> x \<in> set xs \<Longrightarrow> find (\<lambda>y. f y = f x) xs = Some x"
  by (induction xs) (auto simp: rev_image_eqI)

definition grant_text :: "token_crypto \<Rightarrow> grant_keys \<Rightarrow> bytes \<Rightarrow> bytes \<Rightarrow> bytes \<Rightarrow> string" where
  "grant_text T gk key nonce payload =
     GRANT_TOKEN_PREFIX @ tc_b64url_encode T
       (grant_key_id T key
        @ seal_bytes_with_nonce T payload key (grant_aad gk (grant_key_id T key)) ENVELOPE_VERSION nonce)"

definition lifetime_ok :: "grant_keys \<Rightarrow> rat \<Rightarrow> grant_claims \<Rightarrow> bool" where
  "lifetime_ok gk current c =
     (gc_principal c \<noteq> [] \<and> gc_issued_at c < gc_expires_at c
      \<and> isaturate (gc_expires_at c - gc_issued_at c) \<le> gk_max_ttl gk
      \<and> f64_of_int (gc_issued_at c) \<le> f64_add current (f64_of_int (gk_skew gk))
      \<and> current < f64_add (f64_of_int (gc_expires_at c)) (f64_of_int (gk_skew gk)))"

lemma verify_lifetime_Inr: "verify_lifetime gk current c = Inr c' \<longleftrightarrow> c' = c \<and> lifetime_ok gk current c"
  by (auto simp: verify_lifetime_def lifetime_ok_def)

lemma length_grant_key_id: "sha256_ok T \<Longrightarrow> length (grant_key_id T key) = KID_LEN"
  by (simp add: grant_key_id_def sha256_ok_def KID_LEN_def)

lemma verify_text:
  assumes "base64_ok T" "sha256_ok T" "distinct (map (grant_key_id T) (gk_keys gk))" "key \<in> set (gk_keys gk)"
    and "length (grant_text T gk' key nonce payload) \<le> MAX_GRANT_TOKEN_CHARS"
  shows "verify_grant_token T gk (grant_text T gk' key nonce payload) current =
    and_then (ok_or (grant_invalid_new ''grant failed verification'')
      (open_bytes T
        (seal_bytes_with_nonce T payload key (grant_aad gk' (grant_key_id T key)) ENVELOPE_VERSION nonce)
        key (grant_aad gk (grant_key_id T key)) ENVELOPE_VERSION))
      (\<lambda>p. and_then (decode_payload p) (verify_lifetime gk current))"
proof -
  let ?raw = "grant_key_id T key
    @ seal_bytes_with_nonce T payload key (grant_aad gk' (grant_key_id T key)) ENVELOPE_VERSION nonce"
  have "b64url_strict T (tc_b64url_encode T ?raw) = Inr ?raw"
    using assms(1) by (simp add: b64url_strict_Inr seal_bytes_with_nonce_def)
  moreover have "find (\<lambda>k. grant_key_id T k = grant_key_id T key) (gk_keys gk) = Some key"
    using assms(3,4) by (rule find_distinct)
  moreover have "\<not> MAX_GRANT_TOKEN_CHARS < length (GRANT_TOKEN_PREFIX @ tc_b64url_encode T ?raw)"
    using assms(5) by (simp add: grant_text_def)
  ultimately show ?thesis
    using length_grant_key_id [OF assms(2), of key]
    unfolding verify_grant_token_def grant_text_def by (simp add: Let_def)
qed

lemma verify_accepted:
  assumes "aead_ok T" "base64_ok T" and v: "verify_grant_token T gk token current = Inr c"
  obtains key nonce payload where "key \<in> set (gk_keys gk)" "length nonce = NONCE_LEN"
    "token = grant_text T gk key nonce payload" "decode_payload payload = Inr c" "lifetime_ok gk current c"
    "length token \<le> MAX_GRANT_TOKEN_CHARS"
proof -
  from v have pre: "prefix GRANT_TOKEN_PREFIX token" "length token \<le> MAX_GRANT_TOKEN_CHARS"
    by (auto simp: verify_grant_token_def split: if_splits)
  from pre(1) obtain body where body: "token = GRANT_TOKEN_PREFIX @ body"
    by (auto simp: prefix_def)
  with v pre(2) obtain raw where raw: "b64url_strict T body = Inr raw" "KID_LEN \<le> length raw"
    and rest: "(case find (\<lambda>k. grant_key_id T k = take KID_LEN raw) (gk_keys gk) of
        None \<Rightarrow> Inl (grant_invalid_new ''grant was sealed with a key this deployment does not hold'')
      | Some key \<Rightarrow> and_then (ok_or (grant_invalid_new ''grant failed verification'')
          (open_bytes T (drop KID_LEN raw) key (grant_aad gk (take KID_LEN raw)) ENVELOPE_VERSION)) (\<lambda>payload.
          and_then (decode_payload payload) (verify_lifetime gk current))) = Inr c"
    unfolding verify_grant_token_def by (auto simp: and_then_Inr_iff Let_def split: if_splits)
  then obtain key where key: "find (\<lambda>k. grant_key_id T k = take KID_LEN raw) (gk_keys gk) = Some key"
    by (auto split: option.splits)
  then have kid: "key \<in> set (gk_keys gk)" "grant_key_id T key = take KID_LEN raw"
    by (auto simp: find_Some_iff)
  from rest key obtain p where p: "open_bytes T (drop KID_LEN raw) key (grant_aad gk (take KID_LEN raw)) ENVELOPE_VERSION = Some p"
    "decode_payload p = Inr c" "lifetime_ok gk current c"
    by (auto simp: and_then_Inr_iff ok_or_Inr_iff verify_lifetime_Inr)
  from p(1) obtain nonce where n: "length nonce = NONCE_LEN"
    "drop KID_LEN raw = seal_bytes_with_nonce T p key (grant_aad gk (grant_key_id T key)) ENVELOPE_VERSION nonce"
    using open_bytes_iff [OF assms(1)] kid(2) by metis
  have "token = grant_text T gk key nonce p"
    using body raw(1) append_take_drop_id [of KID_LEN raw]
    unfolding grant_text_def b64url_strict_Inr [OF assms(2)] n(2) kid(2) [symmetric] by metis
  with that kid(1) n(1) p(2,3) pre(2) show thesis by blast
qed

lemma verify_Inr_iff:
  assumes "aead_ok T" "base64_ok T" "sha256_ok T"
    and "grant_keys_new T keys aud ttl skew = Inr gk"
  shows "verify_grant_token T gk token current = Inr c \<longleftrightarrow>
    (\<exists>key\<in>set keys. \<exists>nonce payload. length nonce = NONCE_LEN
        \<and> token = grant_text T gk key nonce payload \<and> encode_payload c = Inr payload)
    \<and> claims_ok c \<and> lifetime_ok gk current c \<and> length token \<le> MAX_GRANT_TOKEN_CHARS"
    (is "?v \<longleftrightarrow> ?r")
proof
  assume ?v
  then obtain key nonce p where "key \<in> set (gk_keys gk)" "length nonce = NONCE_LEN"
    "token = grant_text T gk key nonce p" "decode_payload p = Inr c" "lifetime_ok gk current c"
    "length token \<le> MAX_GRANT_TOKEN_CHARS"
    by (rule verify_accepted [OF assms(1,2)])
  then show ?r
    unfolding decode_payload_Inr grant_keys_new_facts(1) [OF assms(4)] by blast
next
  assume r: ?r
  then obtain key nonce p where k: "key \<in> set (gk_keys gk)" "length nonce = NONCE_LEN"
    "token = grant_text T gk key nonce p" "decode_payload p = Inr c"
    unfolding decode_payload_Inr grant_keys_new_facts(1) [OF assms(4)] by blast
  have "length (grant_text T gk key nonce p) \<le> MAX_GRANT_TOKEN_CHARS" "lifetime_ok gk current c"
    using r unfolding k(3) by blast+
  note verify_text [OF assms(2,3) grant_keys_new_facts(5) [OF assms(4)] k(1) this(1), of current] this(2)
  then have "verify_grant_token T gk (grant_text T gk key nonce p) current = Inr c"
    using k(4) by (simp only: open_sealed [OF assms(1) k(2)] ok_or_simps and_then_simps verify_lifetime_Inr)
  then show ?v
    unfolding k(3) .
qed

text \<open>What a successful mint produces.\<close>

lemma mint_Inr:
  assumes "mint_grant_token T gk draw who scopes why t ovr = Inr (token, c)"
  obtains payload where "encode_payload c = Inr payload"
    "token = grant_text T gk (gk_keys gk ! 0) (case mo_nonce ovr of Some n \<Rightarrow> n | None \<Rightarrow> md_nonce draw) payload"
    "0 < t" "gc_principal c = who" "gc_scopes c = scopes" "gc_purpose c = why"
    "gc_expires_at c = i64_wrap (gc_issued_at c + min t (gk_max_ttl gk))"
  using assms
  by (auto simp: mint_grant_token_def Let_def and_then_Inr_iff grant_text_def split: if_split_asm)

lemma encode_payload_fits:
  assumes "encode_payload c = Inr p"
  shows "length (gc_scopes c) \<le> MAX_FIELD" "length (gc_grant_id c) \<le> MAX_FIELD"
    "length (gc_principal c) \<le> MAX_FIELD" "length (gc_purpose c) \<le> MAX_FIELD"
    "list_all (\<lambda>v. length v \<le> MAX_FIELD) (gc_scopes c)"
  using assms
  by (auto simp: encode_payload_def and_then_Inr_iff pack_text_Inr pack_texts_Inr split: if_split_asm)

definition clock_range :: "int \<Rightarrow> bool" where
  "clock_range x = (0 \<le> x \<and> x < 2 ^ 51)"

lemma i64_wrap_id: "i64_ok x \<Longrightarrow> i64_wrap x = x"
  by (simp add: i64_wrap_def i64_ok_def i64_min_def i64_max_def)

lemma lifetime_of_mint:
  assumes "clock_range (gc_issued_at c)" "clock_range (gk_max_ttl gk)" "clock_range (gk_skew gk)"
    and "0 < t" "0 < gk_max_ttl gk" "gc_expires_at c = i64_wrap (gc_issued_at c + min t (gk_max_ttl gk))"
    and "clock_range now" "gc_issued_at c - gk_skew gk \<le> now" "now < gc_expires_at c + gk_skew gk"
    and "gc_principal c \<noteq> []"
  shows "lifetime_ok gk (of_int now) c" "i64_ok (gc_issued_at c)" "i64_ok (gc_expires_at c)"
    "gc_expires_at c = gc_issued_at c + min t (gk_max_ttl gk)"
proof -
  let ?m = "min t (gk_max_ttl gk)"
  have m: "0 < ?m" "?m \<le> gk_max_ttl gk" "?m < 2 ^ 51"
    using assms(2,4,5) by (auto simp: clock_range_def)
  have "i64_ok (gc_issued_at c + ?m)"
    using assms(1) m by (auto simp: clock_range_def i64_ok_def i64_min_def i64_max_def)
  then show e: "gc_expires_at c = gc_issued_at c + ?m" and "i64_ok (gc_expires_at c)"
    using assms(6) by (simp_all add: i64_wrap_id)
  show "i64_ok (gc_issued_at c)"
    using assms(1) by (simp add: clock_range_def i64_ok_def i64_min_def i64_max_def)
  have f: "f64_of_int x = of_int x" if "0 \<le> x" "x < 2 ^ 52" for x
    using that by (intro f64_of_int_exact) simp
  have r: "0 \<le> gc_issued_at c" "gc_issued_at c < 2 ^ 51" "0 \<le> gk_skew gk" "gk_skew gk < 2 ^ 51"
    "0 \<le> now" "now < 2 ^ 51" "0 \<le> gc_expires_at c" "gc_expires_at c < 2 ^ 52"
    using assms(1,3,7) m by (simp_all add: clock_range_def e)
  have a: "f64_add (of_int now) (f64_of_int (gk_skew gk)) = of_int (now + gk_skew gk)"
    "f64_add (f64_of_int (gc_expires_at c)) (f64_of_int (gk_skew gk)) = of_int (gc_expires_at c + gk_skew gk)"
    "f64_of_int (gc_issued_at c) = of_int (gc_issued_at c)"
    using r by (simp_all add: f f64_add_int del: of_int_add)
  have "isaturate ?m = ?m"
    using m by (simp add: isaturate_def i64_min_def i64_max_def)
  then show "lifetime_ok gk (of_int now) c"
    unfolding lifetime_ok_def a of_int_le_iff of_int_less_iff using assms(8,9,10) m e by simp
qed

lemma mint_other_audience:
  assumes "aead_ok T" "base64_ok T" "sha256_ok T" "aad_binding T"
    and "distinct (map (grant_key_id T) (gk_keys gk'))" "key \<in> set (gk_keys gk')" "length nonce = NONCE_LEN"
    and "length (grant_text T gk key nonce p) \<le> MAX_GRANT_TOKEN_CHARS" "gk_audience gk' \<noteq> gk_audience gk"
  shows "verify_grant_token T gk' (grant_text T gk key nonce p) current =
    Inl (grant_invalid_new ''grant failed verification'')"
proof -
  have "grant_aad gk kid \<noteq> grant_aad gk' kid" for kid
    using assms(9) by (simp add: grant_aad_def inj_as_bytes)
  then show ?thesis
    by (simp add: verify_text [OF assms(2,3,5,6,8)] open_other_aad [OF assms(1,4,7)])
qed

section \<open>A concrete deployment\<close>

definition demo_grant_keys :: grant_keys where
  "demo_grant_keys = \<lparr> gk_keys = [replicate 32 7], gk_audience = ''a'', gk_max_ttl = 3600, gk_skew = 60 \<rparr>"

definition demo_grant_claims :: grant_claims where
  "demo_grant_claims = \<lparr> gc_principal = ''alice'', gc_scopes = [''read''], gc_purpose = ''job'',
     gc_grant_id = ''g'', gc_issued_at = 1000, gc_expires_at = 1600 \<rparr>"

definition demo_grant_payload :: bytes where
  "demo_grant_payload =
     i64_le_bytes 1000 @ i64_le_bytes 1600 @ text_bytes ''g'' @ text_bytes ''alice'' @ text_bytes ''job''
     @ le_bytes 2 1 @ text_bytes ''read''"

definition demo_grant_token :: string where
  "demo_grant_token = grant_text demo_crypto demo_grant_keys (replicate 32 7) (replicate 24 0) demo_grant_payload"

definition demo_overrides :: mint_overrides where
  "demo_overrides = \<lparr> mo_now = Some 1000, mo_grant_id = Some ''g'', mo_nonce = Some (replicate 24 0) \<rparr>"

definition demo_draw :: mint_draw where
  "demo_draw = \<lparr> md_clock = 0, md_id_bytes = [], md_nonce = [] \<rparr>"

lemma demo_sha256: "sha256_ok demo_crypto"
  by (auto simp: sha256_ok_def demo_crypto_def)

lemma demo_grant_keys_new: "grant_keys_new demo_crypto [replicate 32 7] ''a'' 3600 60 = Inr demo_grant_keys"
  by (simp add: grant_keys_new_Inr demo_grant_keys_def KEY_LEN_def MAX_FIELD_def)

lemma demo_encode: "encode_payload demo_grant_claims = Inr demo_grant_payload"
  by (simp add: encode_payload_def demo_grant_claims_def demo_grant_payload_def pack_text_def text_bytes_def MAX_FIELD_def)

lemma demo_claims_ok: "claims_ok demo_grant_claims"
proof -
  have "list_all str_ok [''alice'', ''read'', ''job'', ''g'']"
    by (simp add: str_ok_ascii is_ascii_def)
  then show ?thesis
    by (simp add: claims_ok_def demo_grant_claims_def text_ok_def i64_ok_def i64_min_def i64_max_def MAX_FIELD_def)
qed

lemma length_demo_token: "length demo_grant_token \<le> MAX_GRANT_TOKEN_CHARS"
  by (simp add: demo_grant_token_def grant_text_def demo_crypto_def seal_bytes_with_nonce_def demo_seal_def
      framed_def normalize_key_def KEY_LEN_def grant_key_id_def KID_LEN_def grant_aad_def AAD_DOMAIN_def
      demo_grant_keys_def demo_grant_payload_def text_bytes_def GRANT_TOKEN_PREFIX_def MAX_GRANT_TOKEN_CHARS_def
      as_bytes_def)

lemma demo_lifetime: "lifetime_ok demo_grant_keys 1000 demo_grant_claims"
  using lifetime_of_mint(1) [of demo_grant_claims demo_grant_keys 600 1000]
  by (simp add: demo_grant_claims_def demo_grant_keys_def clock_range_def i64_wrap_def)

lemma demo_mint:
  "mint_grant_token demo_crypto demo_grant_keys demo_draw ''alice'' [''read''] ''job'' 600 demo_overrides =
     Inr (demo_grant_token, demo_grant_claims)"
proof -
  have "i64_wrap 1600 = 1600"
    by (simp add: i64_wrap_def)
  moreover have "\<lparr> gc_principal = ''alice'', gc_scopes = [''read''], gc_purpose = ''job'',
     gc_grant_id = ''g'', gc_issued_at = 1000, gc_expires_at = 1600 \<rparr> = demo_grant_claims"
    by (simp add: demo_grant_claims_def)
  ultimately show ?thesis
    by (simp add: mint_grant_token_def demo_overrides_def demo_grant_keys_def demo_encode demo_grant_token_def
        grant_text_def Let_def)
qed

section \<open>Properties\<close>

text \<open>C28. A deployment accepts exactly the tokens that encode claims within its limits, sealed under one of
  its keys for its audience: verification has no other spelling of a token, no other payload and no
  other lifetime. The bounds of the lifetime are those of the rounded clock arithmetic.
\<close>
theorem grant_accepted_iff:
  assumes "aead_ok T" "base64_ok T" "sha256_ok T"
    and "grant_keys_new T keys aud ttl skew = Inr gk"
  shows "verify_grant_token T gk token current = Inr c \<longleftrightarrow>
    (\<exists>key\<in>set keys. \<exists>nonce payload. length nonce = NONCE_LEN
        \<and> token = grant_text T gk key nonce payload \<and> encode_payload c = Inr payload)
    \<and> claims_ok c \<and> lifetime_ok gk current c \<and> length token \<le> MAX_GRANT_TOKEN_CHARS"
  by (rule verify_Inr_iff [OF assms])

theorem grant_accepted_iff_witness:
  "verify_grant_token demo_crypto demo_grant_keys demo_grant_token 1000 = Inr demo_grant_claims
     \<and> gc_principal demo_grant_claims = ''alice''"
  using grant_accepted_iff [OF demo_crypto_laws(1,3) demo_sha256 demo_grant_keys_new,
      of demo_grant_token 1000 demo_grant_claims]
    demo_encode demo_claims_ok demo_lifetime length_demo_token
  by (auto simp: demo_grant_token_def demo_grant_claims_def NONCE_LEN_def intro!: exI [of _ "replicate 24 0"])



end
