(* ===== verification/Identity.thy ===== *)
theory Identity
  imports Grants
begin

text \<open>
  The identity protocol, \<^verbatim>\<open>vgi-rpc/src/token_identity.rs\<close> (who may resolve an opaque credential, who may
  mint a grant), and the authenticators that accept its credentials, \<^verbatim>\<open>auth/identity_bearer.rs\<close>. The
  worker's hooks are functions: a resolver from a credential to a result, a minter from the caller and
  the request to a result; a minter also receives the clock and the random bytes that the framework's
  own minter draws. Reading a decimal as a double is the argument \<open>parse_f64\<close>, printing and reading JSON
  text the arguments \<open>show_json\<close> and \<open>parse_json\<close>. Logging is not modelled.
\<close>

section \<open>Constants and values\<close>

definition MAX_TOKEN_BYTES :: nat where "MAX_TOKEN_BYTES = 4096"
definition DEFAULT_MAX_AUTH_AGE_SECONDS :: rat where "DEFAULT_MAX_AUTH_AGE_SECONDS = 900"
definition DEFAULT_IDENTITY_RETRY_AFTER_SECONDS :: nat where "DEFAULT_IDENTITY_RETRY_AFTER_SECONDS = 5"
definition DEFAULT_INTROSPECT_TTL_SECONDS :: nat where "DEFAULT_INTROSPECT_TTL_SECONDS = 300"
definition DEFAULT_AUTH_RETRY_AFTER_SECONDS :: nat where "DEFAULT_AUTH_RETRY_AFTER_SECONDS = 5"

definition INTROSPECT_TOKEN_METHOD :: string where "INTROSPECT_TOKEN_METHOD = ''introspect_token''"
definition ISSUE_GRANT_METHOD :: string where "ISSUE_GRANT_METHOD = ''issue_grant''"

record token_identity =
  ti_principal :: string
  ti_token_name :: string
  ti_ttl_seconds :: "nat option"

type_synonym token_resolver = "string \<Rightarrow> token_identity option rpc_result"

definition token_identity_new :: "string \<Rightarrow> token_identity" where
  "token_identity_new p = \<lparr> ti_principal = p, ti_token_name = [], ti_ttl_seconds = None \<rparr>"

definition with_token_name :: "string \<Rightarrow> token_identity \<Rightarrow> token_identity" where
  "with_token_name name ti = ti\<lparr> ti_token_name := name \<rparr>"

definition with_ttl_seconds :: "nat \<Rightarrow> token_identity \<Rightarrow> token_identity" where
  "with_ttl_seconds ttl ti = ti\<lparr> ti_ttl_seconds := Some ttl \<rparr>"

definition token_digest :: "token_crypto \<Rightarrow> string \<Rightarrow> string" where
  "token_digest T token = bytes_to_hex (tc_sha256 T (as_bytes token))"

definition is_jws_shaped :: "string \<Rightarrow> bool" where
  "is_jws_shaped token =
     (case split_on CHR ''.'' token of
        [a, b, c] \<Rightarrow> a \<noteq> [] \<and> b \<noteq> [] \<and> list_all b64url_char a \<and> list_all b64url_char b
          \<and> list_all b64url_char c
      | _ \<Rightarrow> False)"

section \<open>Errors\<close>

definition ERROR_KIND_INTROSPECTION_REFUSED :: string where
  "ERROR_KIND_INTROSPECTION_REFUSED = ''introspection_refused''"
definition ERROR_KIND_TOKEN_UNRESOLVED :: string where "ERROR_KIND_TOKEN_UNRESOLVED = ''token_unresolved''"
definition ERROR_KIND_STALE_AUTH :: string where "ERROR_KIND_STALE_AUTH = ''stale_auth''"
definition ERROR_KIND_GRANT_REFUSED :: string where "ERROR_KIND_GRANT_REFUSED = ''grant_refused''"
definition ERROR_KIND_IDENTITY_UNAVAILABLE :: string where
  "ERROR_KIND_IDENTITY_UNAVAILABLE = ''identity_unavailable''"

definition introspection_refused :: "string \<Rightarrow> rpc_error" where
  "introspection_refused detail =
     with_status PermissionDenied ERROR_KIND_INTROSPECTION_REFUSED (permission_error detail)"

definition token_unresolved :: rpc_error where
  "token_unresolved = with_status NotFound ERROR_KIND_TOKEN_UNRESOLVED (value_error ''unresolved'')"

definition stale_auth :: "string \<Rightarrow> rpc_error" where
  "stale_auth detail = with_status Unauthenticated ERROR_KIND_STALE_AUTH (permission_error detail)"

definition grant_refused :: "string \<Rightarrow> rpc_error" where
  "grant_refused detail = with_status PermissionDenied ERROR_KIND_GRANT_REFUSED (permission_error detail)"

definition identity_unavailable :: "string \<Rightarrow> rpc_error" where
  "identity_unavailable detail =
     with_status Unavailable ERROR_KIND_IDENTITY_UNAVAILABLE
       (with_retry_after DEFAULT_IDENTITY_RETRY_AFTER_SECONDS (auth_unavailable detail))"

definition as_unavailable :: "rpc_error \<Rightarrow> rpc_error" where
  "as_unavailable err =
     (let retry = (case e_retry_after err of Some r \<Rightarrow> r | None \<Rightarrow> DEFAULT_IDENTITY_RETRY_AFTER_SECONDS) in
      with_status Unavailable ERROR_KIND_IDENTITY_UNAVAILABLE
        (with_retry_after retry (auth_unavailable (e_message err))))"

section \<open>Grants as the framework issues them\<close>

record issued_grant =
  ig_token :: string
  ig_expires_at_micros :: int
  ig_grant_id :: string

definition issued_grant_new :: "string \<Rightarrow> int \<Rightarrow> issued_grant" where
  "issued_grant_new token micros =
     \<lparr> ig_token = token, ig_expires_at_micros = micros, ig_grant_id = [] \<rparr>"

definition with_grant_id :: "string \<Rightarrow> issued_grant \<Rightarrow> issued_grant" where
  "with_grant_id g ig = ig\<lparr> ig_grant_id := g \<rparr>"

type_synonym grant_minter =
  "mint_draw \<Rightarrow> string \<Rightarrow> string \<Rightarrow> string list \<Rightarrow> int \<Rightarrow> issued_grant rpc_result"

definition no_overrides :: mint_overrides where
  "no_overrides = \<lparr> mo_now = None, mo_grant_id = None, mo_nonce = None \<rparr>"

definition sealed_mint_grant :: "token_crypto \<Rightarrow> grant_keys \<Rightarrow> grant_minter" where
  "sealed_mint_grant T keys draw who purpose scopes ttl =
     (if ttl \<le> 0 then Inl (grant_refused ''ttl_seconds must be positive'')
      else
        and_then
          (map_err (\<lambda>e. grant_refused (e_message e))
            (mint_grant_token T keys draw who scopes purpose ttl no_overrides)) (\<lambda>(token, claims).
          Inr (with_grant_id (gc_grant_id claims)
                (issued_grant_new token (isaturate (gc_expires_at claims * 1000000))))))"

section \<open>Guards\<close>

text \<open>An allowlist without a usable entry is a panic at construction.\<close>

definition normalise_principals :: "string list \<Rightarrow> string set outcome" where
  "normalise_principals ps =
     (let allowed = set (filter (\<lambda>p. p \<noteq> []) ps) in if allowed = {} then Panic else Done allowed)"

definition check_introspector :: "auth_context \<Rightarrow> string set \<Rightarrow> string rpc_result" where
  "check_introspector ctx ps =
     (if \<not> ac_authenticated ctx \<or> ac_principal ctx \<notin> ps
      then Inl (introspection_refused ''caller is not an introspector'')
      else Inr (ac_principal ctx))"

definition reject_jws_shaped :: "string \<Rightarrow> unit rpc_result" where
  "reject_jws_shaped token =
     (let candidate = trim token in
      if candidate = [] \<or> MAX_TOKEN_BYTES < length token \<or> is_jws_shaped candidate
      then Inl token_unresolved else Inr ())"

text \<open>\<^verbatim>\<open>{:.0}\<close> of a non-negative double: the nearest integer, ties to even.\<close>

definition show_f64_0 :: "rat \<Rightarrow> string" where
  "show_f64_0 r =
     (let q = \<lfloor>r\<rfloor>; d = r - of_int q in
      show_int (if d < 1 / 2 \<or> (d = 1 / 2 \<and> even q) then q else q + 1))"

definition check_freshness_at ::
  "(string \<Rightarrow> f64 option) \<Rightarrow> auth_context \<Rightarrow> rat \<Rightarrow> rat \<Rightarrow> rat rpc_result" where
  "check_freshness_at parse_f64 ctx max_age now =
     (if \<not> ac_authenticated ctx \<or> ac_principal ctx = [] then Inl (stale_auth ''caller is not authenticated'')
      else case map_of (ac_claims ctx) ''auth_time'' of
        None \<Rightarrow> Inl (stale_auth
          ''credential carries no auth_time; only a recently authenticated user may mint a grant'')
      | Some raw \<Rightarrow>
          (case parse_f64 (trim raw) of
             Some (Fin auth_time) \<Rightarrow>
               let age = f64_add now (- auth_time) in
               if max_age < age
               then Inl (stale_auth (''last authentication was '' @ show_f64_0 age
                 @ ''s ago, which exceeds the '' @ show_f64_0 max_age
                 @ ''s ceiling for minting a grant; re-authenticate''))
               else Inr auth_time
           | _ \<Rightarrow> Inl (stale_auth ''credential carries an unusable auth_time'')))"

section \<open>The implementation\<close>

record identity_impl =
  ii_resolve_token :: "token_resolver option"
  ii_mint_grant :: "grant_minter option"
  ii_grant_keys :: "grant_keys option"
  ii_principals :: "string set"
  ii_default_ttl_seconds :: nat
  ii_max_auth_age :: rat

record identity_builder =
  ib_resolve_token :: "token_resolver option"
  ib_mint_grant :: "grant_minter option"
  ib_grant_keys :: "grant_keys option"
  ib_principals :: "string list"
  ib_default_ttl_seconds :: "nat option"
  ib_max_auth_age :: "rat option"

definition identity_build :: "token_crypto \<Rightarrow> identity_builder \<Rightarrow> identity_impl outcome" where
  "identity_build T b =
     on_done
       (if ib_resolve_token b \<noteq> None then normalise_principals (ib_principals b) else Done {}) (\<lambda>ps.
     Done \<lparr> ii_resolve_token = ib_resolve_token b,
       ii_mint_grant =
         (case ib_mint_grant b of
            Some m \<Rightarrow> Some m
          | None \<Rightarrow> map_option (sealed_mint_grant T) (ib_grant_keys b)),
       ii_grant_keys = ib_grant_keys b, ii_principals = ps,
       ii_default_ttl_seconds =
         (case ib_default_ttl_seconds b of Some t \<Rightarrow> t | None \<Rightarrow> DEFAULT_INTROSPECT_TTL_SECONDS),
       ii_max_auth_age =
         (case ib_max_auth_age b of Some a \<Rightarrow> a | None \<Rightarrow> DEFAULT_MAX_AUTH_AGE_SECONDS) \<rparr>)"

definition offered_methods :: "identity_impl \<Rightarrow> string set" where
  "offered_methods impl =
     (if ii_resolve_token impl \<noteq> None then {INTROSPECT_TOKEN_METHOD} else {})
     \<union> (if ii_mint_grant impl \<noteq> None then {ISSUE_GRANT_METHOD} else {})"

definition introspect_token :: "identity_impl \<Rightarrow> string \<Rightarrow> auth_context \<Rightarrow> token_identity rpc_result" where
  "introspect_token impl token ctx =
     (case ii_resolve_token impl of
        None \<Rightarrow> Inl (introspection_refused ''this worker does not resolve credentials'')
      | Some resolve \<Rightarrow>
          and_then (check_introspector ctx (ii_principals impl)) (\<lambda>caller.
          and_then (reject_jws_shaped token) (\<lambda>_.
          case resolve token of
            Inr (Some identity) \<Rightarrow> Inr identity
          | Inr None \<Rightarrow> Inl token_unresolved
          | Inl err \<Rightarrow> Inl (as_unavailable err))))"

definition issue_grant ::
  "(string \<Rightarrow> f64 option) \<Rightarrow> identity_impl \<Rightarrow> mint_draw \<Rightarrow> string \<Rightarrow> string list \<Rightarrow> int \<Rightarrow> auth_context
   \<Rightarrow> issued_grant rpc_result" where
  "issue_grant parse_f64 impl draw purpose scopes ttl ctx =
     (case ii_mint_grant impl of
        None \<Rightarrow> Inl (grant_refused ''this worker does not mint grants'')
      | Some mint \<Rightarrow>
          and_then (check_freshness_at parse_f64 ctx (ii_max_auth_age impl) (md_clock draw)) (\<lambda>_.
          map_err (\<lambda>err. if is_auth_unavailable err then as_unavailable err else err)
            (mint draw (ac_principal ctx) purpose scopes ttl)))"

definition ttl_for :: "identity_impl \<Rightarrow> token_identity \<Rightarrow> int" where
  "ttl_for impl ti =
     i64_wrap (int (case ti_ttl_seconds ti of Some t \<Rightarrow> t | None \<Rightarrow> ii_default_ttl_seconds impl))"

section \<open>The bearer authenticators\<close>

definition GRANT_AUTH_DOMAIN :: string where "GRANT_AUTH_DOMAIN = ''grant''"
definition TOKEN_AUTH_DOMAIN :: string where "TOKEN_AUTH_DOMAIN = ''token''"
definition GRANT_SCOPES_CLAIM :: string where "GRANT_SCOPES_CLAIM = ''scopes''"

definition grant_scopes :: "(string \<Rightarrow> json option) \<Rightarrow> auth_context \<Rightarrow> string list" where
  "grant_scopes parse_json ctx =
     (if ac_domain ctx \<noteq> GRANT_AUTH_DOMAIN then []
      else
        case Option.bind (map_of (ac_claims ctx) GRANT_SCOPES_CLAIM) parse_json of
          Some (JArr vs) \<Rightarrow> (case all_some (map as_str vs) of Some ss \<Rightarrow> ss | None \<Rightarrow> [])
        | _ \<Rightarrow> [])"

definition grant_context :: "(json \<Rightarrow> string) \<Rightarrow> grant_claims \<Rightarrow> auth_context" where
  "grant_context show_json c =
     \<lparr> ac_domain = GRANT_AUTH_DOMAIN, ac_authenticated = True, ac_principal = gc_principal c,
       ac_claims = obj_of [(''grant_id'', gc_grant_id c), (''purpose'', gc_purpose c),
         (GRANT_SCOPES_CLAIM, show_json (JArr (map JStr (gc_scopes c))))] \<rparr>"

definition grant_authenticate ::
  "token_crypto \<Rightarrow> (json \<Rightarrow> string) \<Rightarrow> rat \<Rightarrow> grant_keys \<Rightarrow> authenticate" where
  "grant_authenticate T show_json now keys req =
     on_done (extract_bearer req) (\<lambda>t.
       case t of
         None \<Rightarrow> Done (Inr anonymous)
       | Some token \<Rightarrow>
           if \<not> prefix GRANT_TOKEN_PREFIX token then Done (Inr anonymous)
           else case verify_grant_token T keys token now of
             Inr claims \<Rightarrow> Done (Inr (grant_context show_json claims))
           | Inl invalid \<Rightarrow> Done (Inl (auth_failure
               (if gi_expired invalid then ExpiredCredential else InvalidCredential)
               (''sealed grant rejected: '' @ gi_detail invalid))))"

definition token_context :: "token_identity \<Rightarrow> auth_context" where
  "token_context ti =
     \<lparr> ac_domain = TOKEN_AUTH_DOMAIN, ac_authenticated = True, ac_principal = ti_principal ti,
       ac_claims = [(''token_name'', ti_token_name ti)] \<rparr>"

definition resolve_token_authenticate :: "token_resolver \<Rightarrow> authenticate" where
  "resolve_token_authenticate resolve req =
     on_done (extract_bearer req) (\<lambda>t.
       case t of
         None \<Rightarrow> Done (Inr anonymous)
       | Some token \<Rightarrow>
           if prefix GRANT_TOKEN_PREFIX token \<or> is_err (reject_jws_shaped token)
           then Done (Inr anonymous)
           else case resolve token of
             Inr (Some identity) \<Rightarrow> Done (Inr (token_context identity))
           | Inr None \<Rightarrow> Done (Inr anonymous)
           | Inl err \<Rightarrow>
               let retry = (case e_retry_after err of Some r \<Rightarrow> r | None \<Rightarrow> DEFAULT_AUTH_RETRY_AFTER_SECONDS)
               in Done (Inl (with_retry_after retry
                    (auth_unavailable
                      (if is_auth_unavailable err then e_message err else ''identity lookup failed'')))))"

fun try_members :: "authenticate list \<Rightarrow> auth_request \<Rightarrow> auth_context option rpc_result outcome" where
  "try_members [] req = Done (Inr None)"
| "try_members (cb # cbs) req =
     on_done (cb req) (\<lambda>r.
       case r of
         Inl e \<Rightarrow> Done (Inl e)
       | Inr ctx \<Rightarrow> if ac_authenticated ctx then Done (Inr (Some ctx)) else try_members cbs req)"

definition after_deployment ::
  "authenticate list \<Rightarrow> rpc_error option \<Rightarrow> auth_request \<Rightarrow> auth_result outcome" where
  "after_deployment ms refusal req =
     on_done (try_members ms req) (\<lambda>r.
       case r of
         Inl e \<Rightarrow> Done (Inl e)
       | Inr (Some ctx) \<Rightarrow> Done (Inr ctx)
       | Inr None \<Rightarrow>
           (case refusal of
              Some e \<Rightarrow> Done (Inl e)
            | None \<Rightarrow>
                if header req ''authorization'' \<noteq> None
                then Done (Inl (auth_failure InvalidCredential ''bearer credential not accepted''))
                else Done (Inr anonymous)))"

definition identity_members ::
  "token_crypto \<Rightarrow> (json \<Rightarrow> string) \<Rightarrow> rat \<Rightarrow> grant_keys option \<Rightarrow> token_resolver option \<Rightarrow> authenticate list" where
  "identity_members T show_json now gks res =
     (case gks of None \<Rightarrow> [] | Some keys \<Rightarrow> [grant_authenticate T show_json now keys])
     @ (case res of None \<Rightarrow> [] | Some r \<Rightarrow> [resolve_token_authenticate r])"

definition compose_identity_authenticate ::
  "token_crypto \<Rightarrow> (json \<Rightarrow> string) \<Rightarrow> rat \<Rightarrow> authenticate option \<Rightarrow> grant_keys option \<Rightarrow> token_resolver option
   \<Rightarrow> authenticate option" where
  "compose_identity_authenticate T show_json now deployment gks res =
     (let ms = identity_members T show_json now gks res in
      if ms = [] then deployment
      else Some (\<lambda>req.
        case deployment of
          None \<Rightarrow> after_deployment ms None req
        | Some first \<Rightarrow>
            on_done (first req) (\<lambda>r.
              case r of
                Inr ctx \<Rightarrow> if ac_authenticated ctx then Done (Inr ctx) else after_deployment ms None req
              | Inl err \<Rightarrow>
                  if is_auth_unavailable err then Done (Inl err)
                  else after_deployment ms (Some err) req)))"

section \<open>Facts about padding\<close>

definition prefix_free :: "'a list list \<Rightarrow> bool" where
  "prefix_free ws = (\<forall>v\<in>set ws. v \<noteq> [] \<and> (\<forall>w\<in>set ws. prefix v w \<longrightarrow> v = w))"

lemma white_space_prefix_free: "prefix_free white_space" "prefix_free (map rev white_space)"
  by (simp_all add: prefix_free_def white_space_def of_bytes_def char_of_byte_def)

lemma strip_prefixes_step:
  assumes "prefix_free ws" "w \<in> set ws"
  shows "strip_prefixes ws (w @ s) = strip_prefixes ws s"
proof -
  obtain v where v: "find (\<lambda>w'. w' \<noteq> [] \<and> prefix w' (w @ s)) ws = Some v"
    using assms find_None_iff [of "\<lambda>w'. w' \<noteq> [] \<and> prefix w' (w @ s)" ws]
    by (cases "find (\<lambda>w'. w' \<noteq> [] \<and> prefix w' (w @ s)) ws") (auto simp: prefix_free_def)
  then have "v \<in> set ws" "prefix v (w @ s)"
    by (auto simp: find_Some_iff)
  then have "v = w"
    using assms prefix_same_cases [of v "w @ s" w] unfolding prefix_free_def by auto
  then show ?thesis
    using v by (subst strip_prefixes.simps) simp
qed

lemma strip_prefixes_concat:
  "prefix_free ws \<Longrightarrow> set pre \<subseteq> set ws \<Longrightarrow> strip_prefixes ws (concat pre @ s) = strip_prefixes ws s"
  by (induction pre) (simp_all add: strip_prefixes_step)

lemma strip_prefixes_head:
  assumes "s \<noteq> []" "\<And>w. w \<in> set ws \<Longrightarrow> w \<noteq> [] \<and> hd w \<noteq> hd s"
  shows "strip_prefixes ws s = s"
proof (rule strip_prefixes_none)
  fix w assume "w \<in> set ws"
  then show "\<not> prefix w s"
    using assms(2) [of w] by (auto simp: prefix_def)
qed

lemma trim_padded:
  assumes "s \<noteq> []" "list_all graph_char s" "set pre \<subseteq> set white_space" "set post \<subseteq> set white_space"
  shows "trim (concat pre @ s @ concat post) = s"
proof -
  have g: "graph_char (hd s)" "graph_char (last s)"
    using assms(1,2) by (simp_all add: list_all_iff)
  have "strip_prefixes white_space (s @ concat post) = s @ concat post"
    using assms(1) g(1) white_space_ends by (intro strip_prefixes_head) auto
  then have "trim_start (concat pre @ s @ concat post) = s @ concat post"
    unfolding trim_start_def by (simp only: strip_prefixes_concat [OF white_space_prefix_free(1) assms(3)])
  moreover have "strip_prefixes (map rev white_space) (rev s) = rev s"
    using assms(1) g(2) white_space_ends by (intro strip_prefixes_head) (auto simp: hd_rev)
  then have "trim_end (s @ concat post) = s"
    using image_mono [OF assms(4), of rev]
      strip_prefixes_concat [OF white_space_prefix_free(2), of "map rev (rev post)" "rev s"]
    by (simp add: trim_end_def rev_concat rev_map)
  ultimately show ?thesis
    by (simp add: trim_def)
qed

lemma set_split_on: "x \<in> set s \<Longrightarrow> x = c \<or> (\<exists>p\<in>set (split_on c s). x \<in> set p)"
  by (induction s) (auto split: list.splits)

lemma jws_graph:
  assumes "is_jws_shaped s"
  shows "s \<noteq> []" "list_all graph_char s"
proof -
  obtain a b c where abc: "split_on CHR ''.'' s = [a, b, c]"
    "list_all b64url_char a" "list_all b64url_char b" "list_all b64url_char c"
    using assms by (auto simp: is_jws_shaped_def split: list.split_asm)
  then show "s \<noteq> []" by auto
  have "graph_char x" if "b64url_char x" for x
    using that by (auto simp: graph_char_def b64url_char_def Let_def)
  then show "list_all graph_char s"
    using abc set_split_on [of _ s "CHR ''.''"] by (fastforce simp: list_all_iff graph_char_def)
qed

lemma jws_rejected:
  assumes "is_jws_shaped s" "set pre \<subseteq> set white_space" "set post \<subseteq> set white_space"
  shows "reject_jws_shaped (concat pre @ s @ concat post) = Inl token_unresolved"
  using trim_padded [OF jws_graph [OF assms(1)] assms(2,3)] assms(1)
  by (simp add: reject_jws_shaped_def Let_def)

section \<open>Facts about the authenticators\<close>

lemma no_auth_time:
  "map_of (ac_claims (grant_context show_json c)) ''auth_time'' = None"
  "map_of (ac_claims (token_context ti)) ''auth_time'' = None"
  by (simp_all add: grant_context_def token_context_def map_of_obj_of GRANT_SCOPES_CLAIM_def)

lemma grant_authenticate_accepts:
  assumes "grant_authenticate T show_json now keys req = Done (Inr ctx)" "ac_authenticated ctx"
  obtains token c where "extract_bearer req = Done (Some token)" "verify_grant_token T keys token now = Inr c"
    "ctx = grant_context show_json c"
proof -
  obtain t where t: "extract_bearer req = Done t"
    using assms(1) by (auto simp: grant_authenticate_def on_done_Done_iff)
  show thesis
    using assms that
    by (cases t) (auto simp: grant_authenticate_def t anonymous_def split: if_split_asm sum.split_asm)
qed

lemma resolve_token_accepts:
  assumes "resolve_token_authenticate r req = Done (Inr ctx)" "ac_authenticated ctx"
  obtains token ti where "extract_bearer req = Done (Some token)" "\<not> prefix GRANT_TOKEN_PREFIX token"
    "reject_jws_shaped token = Inr ()" "r token = Inr (Some ti)" "ctx = token_context ti"
proof -
  obtain t where t: "extract_bearer req = Done t"
    using assms(1) by (auto simp: resolve_token_authenticate_def on_done_Done_iff)
  show thesis
    using assms that
    by (cases t) (auto simp: resolve_token_authenticate_def t anonymous_def is_err_def Let_def
        split: if_split_asm sum.split_asm option.split_asm)
qed

lemma try_members_Some:
  "try_members ms req = Done (Inr (Some ctx)) \<Longrightarrow>
     ac_authenticated ctx \<and> (\<exists>m\<in>set ms. m req = Done (Inr ctx))"
  by (induction ms) (auto simp: on_done_def split: outcome.split_asm sum.split_asm if_split_asm)

lemma after_deployment_accepts:
  assumes "after_deployment ms refusal req = Done (Inr ctx)" "ac_authenticated ctx"
  shows "\<exists>m\<in>set ms. m req = Done (Inr ctx)"
proof -
  have "try_members ms req = Done (Inr (Some ctx))"
    using assms
    by (auto simp: after_deployment_def on_done_def anonymous_def
        split: outcome.split_asm sum.split_asm option.split_asm if_split_asm)
  then show ?thesis
    using try_members_Some by blast
qed

text \<open>What an identity member can be the answer of.\<close>

definition vouched ::
  "token_crypto \<Rightarrow> (json \<Rightarrow> string) \<Rightarrow> rat \<Rightarrow> grant_keys option \<Rightarrow> token_resolver option \<Rightarrow> auth_request
   \<Rightarrow> auth_context \<Rightarrow> bool" where
  "vouched T show_json now gks res req ctx =
     (\<exists>token. extract_bearer req = Done (Some token) \<and>
        ((\<exists>keys c. gks = Some keys \<and> verify_grant_token T keys token now = Inr c \<and> ctx = grant_context show_json c)
         \<or> (\<exists>r ti. res = Some r \<and> \<not> prefix GRANT_TOKEN_PREFIX token \<and> reject_jws_shaped token = Inr ()
              \<and> r token = Inr (Some ti) \<and> ctx = token_context ti)))"

lemma members_vouch:
  assumes "after_deployment (identity_members T show_json now gks res) refusal req = Done (Inr ctx)"
    and "ac_authenticated ctx"
  shows "vouched T show_json now gks res req ctx"
proof -
  obtain m where m: "m \<in> set (identity_members T show_json now gks res)" "m req = Done (Inr ctx)"
    using after_deployment_accepts [OF assms] by blast
  then consider keys where "gks = Some keys" "m = grant_authenticate T show_json now keys"
    | r where "res = Some r" "m = resolve_token_authenticate r"
    by (auto simp: identity_members_def split: option.splits)
  then show ?thesis
  proof cases
    case 1
    with m(2) assms(2) show ?thesis
      unfolding vouched_def by (metis grant_authenticate_accepts)
  next
    case 2
    with m(2) assms(2) show ?thesis
      unfolding vouched_def by (metis resolve_token_accepts)
  qed
qed

lemma compose_accepts:
  assumes "compose_identity_authenticate T show_json now dep gks res = Some f"
    and "f req = Done (Inr ctx)" "ac_authenticated ctx"
  shows "(\<exists>d. dep = Some d \<and> d req = Done (Inr ctx)) \<or> vouched T show_json now gks res req ctx"
proof (cases "identity_members T show_json now gks res = []")
  case True
  then show ?thesis
    using assms(1,2) by (simp add: compose_identity_authenticate_def)
next
  case False
  then show ?thesis
    using assms
    by (auto simp: compose_identity_authenticate_def on_done_def Let_def dest: members_vouch
        split: option.split_asm outcome.split_asm sum.split_asm if_split_asm)
qed

lemma vouched_cannot_mint:
  assumes "vouched T show_json now gks res req ctx"
  shows "\<exists>detail. check_freshness_at parse_f64 ctx max_age clock = Inl (stale_auth detail)"
proof -
  have "map_of (ac_claims ctx) ''auth_time'' = None"
    using assms unfolding vouched_def by (auto simp: no_auth_time)
  then show ?thesis
    by (auto simp: check_freshness_at_def)
qed

section \<open>A concrete worker\<close>

definition demo_resolver :: token_resolver where
  "demo_resolver t = Inr (if t = ''s3cret'' then Some (token_identity_new ''bob'') else None)"

definition demo_identity :: identity_impl where
  "demo_identity = \<lparr> ii_resolve_token = Some demo_resolver, ii_mint_grant = None, ii_grant_keys = None,
     ii_principals = {''proxy''}, ii_default_ttl_seconds = 300, ii_max_auth_age = 900 \<rparr>"

lemma demo_admissible: "reject_jws_shaped ''s3cret'' = Inr ()" "is_jws_shaped ''a.b.c''"
proof -
  have "trim ''s3cret'' = ''s3cret''"
    by (rule trim_graph) (simp add: graph_char_def)
  then show "reject_jws_shaped ''s3cret'' = Inr ()"
    by (simp add: reject_jws_shaped_def is_jws_shaped_def MAX_TOKEN_BYTES_def)
  show "is_jws_shaped ''a.b.c''"
    by (simp add: is_jws_shaped_def b64url_char_def)
qed

lemma demo_composed:
  obtains f where "compose_identity_authenticate demo_crypto (\<lambda>_. []) 0 None None (Some demo_resolver) = Some f"
    "f demo_bearer_request = Done (Inr (token_context (token_identity_new ''bob'')))"
proof -
  have "resolve_token_authenticate demo_resolver demo_bearer_request = Done (Inr (token_context (token_identity_new ''bob'')))"
    by (simp add: resolve_token_authenticate_def demo_bearer demo_admissible GRANT_TOKEN_PREFIX_def demo_resolver_def)
  then have "after_deployment [resolve_token_authenticate demo_resolver] None demo_bearer_request =
      Done (Inr (token_context (token_identity_new ''bob'')))"
    by (simp add: after_deployment_def token_context_def)
  then show thesis
    using that by (simp add: compose_identity_authenticate_def identity_members_def)
qed

section \<open>Properties\<close>

text \<open>C30. Only an allowlisted caller learns anything from introspection: everyone else gets one refusal,
  whatever the credential. For an allowlisted caller an identity is returned only when the resolver gave
  it for exactly the credential presented; a credential that is unknown, blank or too long, or a JWS with
  any white space around it, gets one and the same answer, and the JWS is refused whatever the resolver
  would have said.
\<close>
theorem introspection_discloses_nothing:
  assumes "ii_resolve_token impl = Some resolve"
  shows "(\<not> (ac_authenticated ctx \<and> ac_principal ctx \<in> ii_principals impl) \<longrightarrow>
      introspect_token impl token ctx = Inl (introspection_refused ''caller is not an introspector''))
    \<and> (ac_authenticated ctx \<and> ac_principal ctx \<in> ii_principals impl \<longrightarrow>
      (introspect_token impl token ctx = Inr ti \<longrightarrow> resolve token = Inr (Some ti))
      \<and> (resolve token = Inr None \<or> trim token = [] \<or> MAX_TOKEN_BYTES < length token \<longrightarrow>
          introspect_token impl token ctx = Inl token_unresolved)
      \<and> (is_jws_shaped s \<and> set pre \<subseteq> set white_space \<and> set post \<subseteq> set white_space \<longrightarrow>
          introspect_token impl (concat pre @ s @ concat post) ctx = Inl token_unresolved))"
  using assms jws_rejected [of s pre post]
  by (auto simp: introspect_token_def check_introspector_def reject_jws_shaped_def Let_def
      split: sum.splits option.splits)

theorem introspection_discloses_nothing_witness:
  "introspect_token demo_identity ''s3cret'' anonymous =
      Inl (introspection_refused ''caller is not an introspector'')
    \<and> introspect_token demo_identity '' a.b.c'' (for_principal ''mtls'' ''proxy'') = Inl token_unresolved"
proof -
  have r: "ii_resolve_token demo_identity = Some demo_resolver"
    by (simp add: demo_identity_def)
  have "char_of (32 :: nat) = CHR '' ''"
    by code_simp
  then have "'' '' \<in> set white_space"
    by (simp add: white_space_def of_bytes_def char_of_byte_def)
  then show ?thesis
    using introspection_discloses_nothing [OF r, of anonymous "''s3cret''"] demo_admissible(2)
      introspection_discloses_nothing [OF r, of "for_principal ''mtls'' ''proxy''" _ _ "''a.b.c''" "['' '']" "[]"]
    by (simp add: anonymous_def for_principal_def demo_identity_def)
qed

text \<open>C31. Every context that the composed authenticator returns as authenticated comes from the deployment's
  own authenticator, from a sealed grant of this deployment that verifies now, or from the worker's
  resolver, asked about a credential that is neither a grant nor a JWS.
\<close>
theorem authenticated_only_by_a_source:
  assumes "compose_identity_authenticate T show_json now dep gks res = Some f"
    and "f req = Done (Inr ctx)" "ac_authenticated ctx"
  shows "(\<exists>d. dep = Some d \<and> d req = Done (Inr ctx)) \<or> vouched T show_json now gks res req ctx"
  by (rule compose_accepts [OF assms])

theorem authenticated_only_by_a_source_witness:
  "vouched demo_crypto (\<lambda>_. []) 0 None (Some demo_resolver) demo_bearer_request
     (token_context (token_identity_new ''bob''))"
proof -
  obtain f where f: "compose_identity_authenticate demo_crypto (\<lambda>_. []) 0 None None (Some demo_resolver) = Some f"
    "f demo_bearer_request = Done (Inr (token_context (token_identity_new ''bob'')))"
    by (rule demo_composed)
  show ?thesis
    using authenticated_only_by_a_source [OF f] by (simp add: token_context_def)
qed

text \<open>C32. Grants never mint grants: a caller whom only the identity members accept, by a sealed grant or by
  a resolved token, is refused a new grant by every implementation, whatever its minter, its age ceiling
  and its clock.
\<close>
theorem grants_never_mint_grants:
  assumes "compose_identity_authenticate T show_json now dep gks res = Some f"
    and "f req = Done (Inr ctx)" "ac_authenticated ctx" "\<nexists>d. dep = Some d \<and> d req = Done (Inr ctx)"
  shows "\<exists>detail. issue_grant parse_f64 impl draw purpose scopes ttl ctx =
    Inl (if ii_mint_grant impl = None then grant_refused detail else stale_auth detail)"
proof -
  obtain detail where "check_freshness_at parse_f64 ctx (ii_max_auth_age impl) (md_clock draw) = Inl (stale_auth detail)"
    using compose_accepts [OF assms(1-3)] assms(4) vouched_cannot_mint by blast
  then show ?thesis
    by (auto simp: issue_grant_def split: option.split)
qed

theorem grants_never_mint_grants_witness:
  "\<exists>detail. issue_grant (\<lambda>_. Some (Fin 0)) (demo_identity\<lparr> ii_mint_grant := Some (sealed_mint_grant demo_crypto demo_grant_keys) \<rparr>)
     demo_draw ''job'' [] 600 (token_context (token_identity_new ''bob'')) = Inl (stale_auth detail)"
proof -
  obtain f where f: "compose_identity_authenticate demo_crypto (\<lambda>_. []) 0 None None (Some demo_resolver) = Some f"
    "f demo_bearer_request = Done (Inr (token_context (token_identity_new ''bob'')))"
    by (rule demo_composed)
  have "ac_authenticated (token_context (token_identity_new ''bob''))"
    by (simp add: token_context_def)
  from grants_never_mint_grants [OF f this, of "\<lambda>_. Some (Fin 0)"
      "demo_identity\<lparr> ii_mint_grant := Some (sealed_mint_grant demo_crypto demo_grant_keys) \<rparr>" demo_draw "''job''" "[]" 600]
  show ?thesis
    by simp
qed

end
