(* ===== verification/Sticky.thy ===== *)
theory Sticky
  imports Crypto Auth "HOL-Library.AList"
begin

text \<open>
  Sticky sessions, \<^verbatim>\<open>vgi-rpc/src/sticky.rs\<close>: the sealed session token, the registry of live sessions, the
  sink through which one request opens and closes a session, and the resolution of the session headers,
  with the parts of \<^verbatim>\<open>http.rs\<close> that call them. Session states are values of a type parameter. Instants
  are natural numbers (nanoseconds), as are the seconds of the system clock; both clocks and the random
  bytes drawn are arguments. The hash map of sessions is an association list, each operation of the
  registry one atomic step, as its lock makes it.
\<close>

section \<open>Tokens\<close>

definition TOKEN_VERSION :: byte where "TOKEN_VERSION = 1"
definition SESSION_ID_LEN :: nat where "SESSION_ID_LEN = 12"

definition evidence_binding :: "auth_context \<Rightarrow> string option" where
  "evidence_binding ctx =
     (case map_of (ac_claims ctx) ''peer_evidence_binding'' of
        Some v \<Rightarrow> if v \<noteq> [] then Some v else None
      | None \<Rightarrow> None)"

definition compute_session_aad :: "auth_context \<Rightarrow> bytes" where
  "compute_session_aad ctx =
     (let bnd = evidence_binding ctx;
          pre = (if bnd \<noteq> None then as_bytes ''vgi_rpc.session.v2'' @ [0]
                 else as_bytes ''vgi_rpc.session.v1'' @ [0]);
          tail = (case bnd of None \<Rightarrow> [] | Some b \<Rightarrow> 0 # as_bytes b)
      in if \<not> ac_authenticated ctx then pre @ (0 # as_bytes ''anonymous'') @ tail
         else pre @ (1 # as_bytes (ac_domain ctx)) @ (0 # as_bytes (ac_principal ctx)) @ tail)"

definition NUL :: char where "NUL = char_of (0 :: nat)"

definition principal_key :: "auth_context \<Rightarrow> string" where
  "principal_key ctx =
     (let bnd = (case evidence_binding ctx of None \<Rightarrow> [] | Some b \<Rightarrow> b) in
      if \<not> ac_authenticated ctx then
        (if bnd = [] then NUL # ''anonymous'' else NUL # ''anonymous'' @ NUL # bnd)
      else
        let key = ac_domain ctx @ NUL # ac_principal ctx in
        if bnd = [] then key else key @ NUL # bnd)"

definition session_plaintext :: "nat \<Rightarrow> string \<Rightarrow> bytes \<Rightarrow> nat \<Rightarrow> bytes" where
  "session_plaintext created server_id sid expires_at =
     le_bytes 8 created @ word_of_nat (length server_id) # as_bytes server_id @ sid @ le_bytes 8 expires_at"

definition seal_session_token ::
  "token_crypto \<Rightarrow> nat \<Rightarrow> bytes \<Rightarrow> string \<Rightarrow> bytes \<Rightarrow> nat \<Rightarrow> bytes \<Rightarrow> bytes \<Rightarrow> string" where
  "seal_session_token T unix_now nonce server_id sid expires_at key aad =
     tc_b64url_encode T
       (seal_bytes_with_nonce T (session_plaintext unix_now server_id sid expires_at) key aad TOKEN_VERSION nonce)"

definition token_lost :: rpc_error where
  "token_lost = session_lost_error ''session token verification failed''"

definition open_session_token ::
  "token_crypto \<Rightarrow> string \<Rightarrow> bytes \<Rightarrow> bytes \<Rightarrow> (string \<times> bytes \<times> nat) rpc_result" where
  "open_session_token T token key aad =
     and_then (ok_or token_lost (tc_b64url_decode T token)) (\<lambda>raw.
     and_then (ok_or token_lost (open_bytes T raw key aad TOKEN_VERSION)) (\<lambda>plaintext.
       if length plaintext < 9 then Inl token_lost
       else
         let sid_pos = 9 + unat (plaintext ! 8);
             end_pos = sid_pos + SESSION_ID_LEN + 8
         in if length plaintext \<noteq> end_pos then Inl token_lost
            else Inr (from_utf8_lossy (subslice 9 sid_pos plaintext),
                      subslice sid_pos (sid_pos + SESSION_ID_LEN) plaintext,
                      of_le (subslice (sid_pos + SESSION_ID_LEN) end_pos plaintext))))"

section \<open>The registry\<close>

record 'st session_entry =
  se_state :: 'st
  se_expires_at :: nat
  se_principal_key :: string

record 'st session_registry =
  sr_default_ttl :: nat
  sr_entries :: "(bytes \<times> 'st session_entry) list"
  sr_draining :: bool

definition registry_new :: "nat \<Rightarrow> 'st session_registry" where
  "registry_new ttl = \<lparr> sr_default_ttl = ttl, sr_entries = [], sr_draining = False \<rparr>"

definition set_draining :: "bool \<Rightarrow> 'st session_registry \<Rightarrow> 'st session_registry" where
  "set_draining b reg = reg\<lparr> sr_draining := b \<rparr>"

definition registry_open ::
  "nat \<Rightarrow> nat \<Rightarrow> bytes \<Rightarrow> 'st \<Rightarrow> nat option \<Rightarrow> string \<Rightarrow> 'st session_registry
   \<Rightarrow> (bytes \<times> nat) rpc_result \<times> 'st session_registry" where
  "registry_open now unix_now sid st ttl pkey reg =
     (if sr_draining reg then
        (Inl (server_draining_error (''server is draining '' @ em_dash @ '' new sessions are rejected'')), reg)
      else
        let effective = (case ttl of Some t \<Rightarrow> t | None \<Rightarrow> sr_default_ttl reg);
            e = \<lparr> se_state = st, se_expires_at = now + effective, se_principal_key = pkey \<rparr>
        in (Inr (sid, (unix_now + effective div 1000000000) mod 2 ^ 64),
            reg\<lparr> sr_entries := AList.update sid e (sr_entries reg) \<rparr>))"

definition registry_get ::
  "nat \<Rightarrow> bytes \<Rightarrow> string \<Rightarrow> 'st session_registry \<Rightarrow> 'st option \<times> 'st session_registry" where
  "registry_get now sid pkey reg =
     (case map_of (sr_entries reg) sid of
        None \<Rightarrow> (None, reg)
      | Some e \<Rightarrow>
          if se_expires_at e < now then (None, reg\<lparr> sr_entries := AList.delete sid (sr_entries reg) \<rparr>)
          else if se_principal_key e \<noteq> pkey then (None, reg)
          else (Some (se_state e), reg))"

definition registry_close :: "bytes \<Rightarrow> 'st session_registry \<Rightarrow> bool \<times> 'st session_registry" where
  "registry_close sid reg =
     (map_of (sr_entries reg) sid \<noteq> None, reg\<lparr> sr_entries := AList.delete sid (sr_entries reg) \<rparr>)"

definition drain_expired :: "nat \<Rightarrow> 'st session_registry \<Rightarrow> nat \<times> 'st session_registry" where
  "drain_expired now reg =
     (let expired = map fst (filter (\<lambda>(_, e). se_expires_at e < now) (sr_entries reg)) in
      (length expired, reg\<lparr> sr_entries := fold AList.delete expired (sr_entries reg) \<rparr>))"

definition registry_shutdown :: "'st session_registry \<Rightarrow> 'st session_registry" where
  "registry_shutdown reg = reg\<lparr> sr_entries := [] \<rparr>"

definition registry_len :: "'st session_registry \<Rightarrow> nat" where
  "registry_len reg = length (sr_entries reg)"

section \<open>The sink of a request\<close>

record 'st sticky_context =
  sc_registry :: "'st session_registry"
  sc_token_key :: bytes
  sc_echo_headers :: "(string \<times> string) list"
  sc_server_id :: string

definition sticky_context_new :: "bytes \<Rightarrow> nat \<Rightarrow> (string \<times> string) list \<Rightarrow> string \<Rightarrow> 'st sticky_context" where
  "sticky_context_new key ttl echo server_id =
     \<lparr> sc_registry = registry_new ttl, sc_token_key = key, sc_echo_headers = echo, sc_server_id = server_id \<rparr>"

record 'st sticky_sink =
  sk_aad :: bytes
  sk_principal_key :: string
  sk_accept_opens :: bool
  sk_current_state :: "'st option"
  sk_current_sid :: "string option"
  sk_mint_token :: "string option"
  sk_closed :: bool

text \<open>The session id is hexadecimal text made by the framework, so every slice is at a character boundary.\<close>

definition hex_to_sid :: "string \<Rightarrow> bytes option" where
  "hex_to_sid hex = (if length hex \<noteq> SESSION_ID_LEN * 2 then None else hex_bytes hex)"

text \<open>What an open draws: the two clocks (the seconds twice), the session id and the nonce.\<close>

record session_draw =
  sd_instant :: nat
  sd_unix_open :: nat
  sd_unix_seal :: nat
  sd_sid :: bytes
  sd_nonce :: bytes

definition sink_open ::
  "token_crypto \<Rightarrow> session_draw \<Rightarrow> 'st \<Rightarrow> nat option \<Rightarrow> 'st sticky_context \<Rightarrow> 'st sticky_sink
   \<Rightarrow> unit rpc_result \<times> 'st sticky_context \<times> 'st sticky_sink" where
  "sink_open T d st ttl ctx sink =
     (case registry_open (sd_instant d) (sd_unix_open d) (sd_sid d) st ttl (sk_principal_key sink) (sc_registry ctx) of
        (Inl e, reg) \<Rightarrow> (Inl e, ctx\<lparr> sc_registry := reg \<rparr>, sink)
      | (Inr (sid, expires_at), reg) \<Rightarrow>
          let token = seal_session_token T (sd_unix_seal d) (sd_nonce d) (sc_server_id ctx) sid expires_at
                        (sc_token_key ctx) (sk_aad sink)
          in (Inr (), ctx\<lparr> sc_registry := reg \<rparr>,
              sink\<lparr> sk_current_state := Some st, sk_current_sid := Some (bytes_to_hex sid),
                    sk_mint_token := Some token, sk_closed := False \<rparr>))"

definition sink_close ::
  "'st sticky_context \<Rightarrow> 'st sticky_sink \<Rightarrow> bool \<times> 'st sticky_context \<times> 'st sticky_sink" where
  "sink_close ctx sink =
     (let (hit, reg) =
            (case Option.bind (sk_current_sid sink) hex_to_sid of
               Some sid \<Rightarrow> registry_close sid (sc_registry ctx)
             | None \<Rightarrow> (False, sc_registry ctx))
      in (hit, ctx\<lparr> sc_registry := reg \<rparr>, sink\<lparr> sk_closed := True, sk_current_state := None \<rparr>))"

datatype 'st sticky_resolution = Sink "'st sticky_sink" | Lost rpc_error

text \<open>The session header as the code looks at it: trimmed, and absent when blank.\<close>

definition presented :: "string option \<Rightarrow> string option" where
  "presented hdr =
     (case map_option trim hdr of Some t \<Rightarrow> if t \<noteq> [] then Some t else None | None \<Rightarrow> None)"

definition new_sink :: "auth_context \<Rightarrow> bool \<Rightarrow> 'st option \<Rightarrow> string option \<Rightarrow> 'st sticky_sink" where
  "new_sink auth accept st sid =
     \<lparr> sk_aad = compute_session_aad auth, sk_principal_key = principal_key auth, sk_accept_opens = accept,
       sk_current_state = st, sk_current_sid = sid, sk_mint_token = None, sk_closed = False \<rparr>"

definition resolve ::
  "token_crypto \<Rightarrow> nat \<Rightarrow> 'st sticky_context \<Rightarrow> auth_context \<Rightarrow> bool \<Rightarrow> string option
   \<Rightarrow> 'st sticky_resolution \<times> 'st sticky_context" where
  "resolve T now ctx auth accept hdr =
     (case presented hdr of
        None \<Rightarrow> (Sink (new_sink auth accept None None), ctx)
      | Some token \<Rightarrow>
          (case open_session_token T token (sc_token_key ctx) (compute_session_aad auth) of
             Inl e \<Rightarrow> (Lost e, ctx)
           | Inr (server_id, sid, _) \<Rightarrow>
               if server_id \<noteq> sc_server_id ctx then
                 (Lost (session_lost_error
                    ''session token was issued by a different worker (server_id mismatch)''), ctx)
               else
                 case registry_get now sid (principal_key auth) (sc_registry ctx) of
                   (Some st, reg) \<Rightarrow>
                     (Sink (new_sink auth accept (Some st) (Some (bytes_to_hex sid))), ctx\<lparr> sc_registry := reg \<rparr>)
                 | (None, reg) \<Rightarrow>
                     (Lost (session_lost_error ''session not found, expired, or principal mismatch''),
                      ctx\<lparr> sc_registry := reg \<rparr>)))"

datatype delete_outcome = Idempotent | Closed

definition handle_delete ::
  "token_crypto \<Rightarrow> nat \<Rightarrow> 'st sticky_context \<Rightarrow> auth_context \<Rightarrow> string option
   \<Rightarrow> delete_outcome \<times> 'st sticky_context" where
  "handle_delete T now ctx auth hdr =
     (case presented hdr of
        None \<Rightarrow> (Idempotent, ctx)
      | Some token \<Rightarrow>
          (case open_session_token T token (sc_token_key ctx) (compute_session_aad auth) of
             Inl e \<Rightarrow> (Idempotent, ctx)
           | Inr (server_id, sid, _) \<Rightarrow>
               if server_id \<noteq> sc_server_id ctx then (Idempotent, ctx)
               else
                 case registry_get now sid (principal_key auth) (sc_registry ctx) of
                   (None, reg) \<Rightarrow> (Idempotent, ctx\<lparr> sc_registry := reg \<rparr>)
                 | (Some _, reg) \<Rightarrow> (Closed, ctx\<lparr> sc_registry := snd (registry_close sid reg) \<rparr>)))"

section \<open>The HTTP side\<close>

definition SESSION_HEADER :: string where "SESSION_HEADER = ''vgi-session''"
definition SESSION_ACCEPT_HEADER :: string where "SESSION_ACCEPT_HEADER = ''vgi-session-accept''"
definition SESSION_CLOSE_HEADER :: string where "SESSION_CLOSE_HEADER = ''vgi-session-close''"
definition ECHO_HEADER_PREFIX :: string where "ECHO_HEADER_PREFIX = ''vgi-echo-''"

text \<open>The request headers are a lookup that yields the values that are visible ASCII.\<close>

definition sticky_for_request ::
  "token_crypto \<Rightarrow> nat \<Rightarrow> 'st sticky_context \<Rightarrow> auth_context \<Rightarrow> (string \<Rightarrow> string option)
   \<Rightarrow> 'st sticky_resolution \<times> 'st sticky_context" where
  "sticky_for_request T now ctx auth get =
     (let accept = (case get SESSION_ACCEPT_HEADER of
                      Some s \<Rightarrow> eq_ignore_ascii_case (trim s) ''true'' | None \<Rightarrow> False)
      in resolve T now ctx auth accept (get SESSION_HEADER))"

text \<open>
  The response headers are an association list; \<open>name_ok\<close> and \<open>value_ok\<close> say what the HTTP library accepts; it
  keeps header names in lower case.
\<close>

definition stamp_session_headers ::
  "(string \<Rightarrow> bool) \<Rightarrow> (string \<Rightarrow> bool) \<Rightarrow> 'st sticky_context \<Rightarrow> 'st sticky_sink
   \<Rightarrow> (string \<times> string) list \<Rightarrow> (string \<times> string) list" where
  "stamp_session_headers name_ok value_ok ctx sink hs =
     (let hs = (case sk_mint_token sink of
          None \<Rightarrow> hs
        | Some token \<Rightarrow>
            fold (\<lambda>(name, v) hs.
                if name_ok (ECHO_HEADER_PREFIX @ name) \<and> value_ok v
                then AList.update (to_ascii_lowercase (ECHO_HEADER_PREFIX @ name)) v hs else hs)
              (sc_echo_headers ctx)
              (if value_ok token then AList.update SESSION_HEADER token hs else hs))
      in if sk_closed sink then AList.update SESSION_CLOSE_HEADER ''true'' hs else hs)"

definition delete_response :: "delete_outcome \<Rightarrow> nat \<times> (string \<times> string) list" where
  "delete_response r =
     (case r of Idempotent \<Rightarrow> (200, []) | Closed \<Rightarrow> (204, [(SESSION_CLOSE_HEADER, ''true'')]))"

section \<open>Runs of the registry\<close>

text \<open>One entry per event that the workers, the reaper and the operator can cause, in the order of the lock.\<close>

datatype 'st registry_event =
    Opened nat nat bytes 'st "nat option" string
  | Looked nat bytes string
  | ClosedSid bytes
  | Reaped nat
  | DrainSet bool
  | ShutDown

fun registry_step :: "'st registry_event \<Rightarrow> 'st session_registry \<Rightarrow> 'st session_registry" where
  "registry_step (Opened now unix_now sid st ttl pkey) reg = snd (registry_open now unix_now sid st ttl pkey reg)"
| "registry_step (Looked now sid pkey) reg = snd (registry_get now sid pkey reg)"
| "registry_step (ClosedSid sid) reg = snd (registry_close sid reg)"
| "registry_step (Reaped now) reg = snd (drain_expired now reg)"
| "registry_step (DrainSet b) reg = set_draining b reg"
| "registry_step ShutDown reg = registry_shutdown reg"

fun event_time :: "'st registry_event \<Rightarrow> nat" where
  "event_time (Opened now _ _ _ _ _) = now"
| "event_time (Looked now _ _) = now"
| "event_time (Reaped now) = now"
| "event_time _ = 0"

fun event_names :: "'st registry_event \<Rightarrow> bytes set" where
  "event_names (Opened _ _ sid _ _ _) = {sid}"
| "event_names (ClosedSid sid) = {sid}"
| "event_names ShutDown = UNIV"
| "event_names _ = {}"

definition live :: "'st session_registry \<Rightarrow> nat \<Rightarrow> bytes \<Rightarrow> 'st session_entry option" where
  "live reg now sid =
     (case map_of (sr_entries reg) sid of
        Some e \<Rightarrow> if se_expires_at e < now then None else Some e
      | None \<Rightarrow> None)"

definition registry_ok :: "'st session_registry \<Rightarrow> bool" where
  "registry_ok reg = distinct (map fst (sr_entries reg))"

text \<open>
  A store whose entries are seen through a view that only ages: every step keeps the invariant, and a
  step that does not name an entry does not change what the view shows of it, at the time of the step
  and after.
\<close>

locale session_store =
  fixes inv :: "'r \<Rightarrow> bool"
    and view :: "'r \<Rightarrow> nat \<Rightarrow> 'k \<Rightarrow> 'e option"
    and step :: "'ev \<Rightarrow> 'r \<Rightarrow> 'r"
    and names :: "'ev \<Rightarrow> 'k set"
    and time :: "'ev \<Rightarrow> nat"
  assumes step_inv: "inv r \<Longrightarrow> inv (step ev r)"
    and step_keeps: "inv r \<Longrightarrow> k \<notin> names ev \<Longrightarrow> time ev \<le> now \<Longrightarrow> view (step ev r) now k = view r now k"
begin

lemma run_inv: "inv r \<Longrightarrow> inv (fold step evs r)"
  by (induction evs arbitrary: r) (simp_all add: step_inv)

lemma run_keeps:
  "inv r \<Longrightarrow> \<forall>ev\<in>set evs. k \<notin> names ev \<and> time ev \<le> now \<Longrightarrow> view (fold step evs r) now k = view r now k"
  by (induction evs arbitrary: r) (simp_all add: step_inv step_keeps)

end

lemma map_of_fold_delete: "map_of (fold AList.delete ks xs) = (map_of xs) |` (- set ks)"
  by (induction ks arbitrary: xs)
    (auto simp: delete_conv' restrict_map_def fun_eq_iff)

lemma distinct_fold_delete: "distinct (map fst xs) \<Longrightarrow> distinct (map fst (fold AList.delete ks xs))"
  by (induction ks arbitrary: xs) (simp_all add: distinct_delete)

lemma live_drain:
  assumes "registry_ok reg" "now' \<le> now"
  shows "live (snd (drain_expired now' reg)) now sid = live reg now sid"
proof -
  let ?ks = "map fst (filter (\<lambda>(_, e). se_expires_at e < now') (sr_entries reg))"
  have "sid \<in> set ?ks \<longleftrightarrow> (\<exists>e. map_of (sr_entries reg) sid = Some e \<and> se_expires_at e < now')"
    using assms(1) by (force simp: registry_ok_def)
  then show ?thesis
    using assms(2)
    by (auto simp: live_def drain_expired_def Let_def map_of_fold_delete restrict_map_def
        simp del: set_map split: option.split)
qed

lemma registry_ok_step: "registry_ok reg \<Longrightarrow> registry_ok (registry_step ev reg)"
  by (cases ev)
    (auto simp: registry_ok_def registry_open_def registry_get_def registry_close_def drain_expired_def
      set_draining_def registry_shutdown_def Let_def distinct_update distinct_delete distinct_fold_delete
      split: option.split)

lemma live_step:
  assumes "registry_ok reg" "sid \<notin> event_names ev" "event_time ev \<le> now"
  shows "live (registry_step ev reg) now sid = live reg now sid"
proof (cases ev)
  case (Reaped t)
  then show ?thesis
    using assms live_drain by simp
qed (use assms in \<open>auto simp: live_def registry_open_def registry_get_def registry_close_def set_draining_def
      Let_def update_conv' delete_conv' split: option.split\<close>)

interpretation sr: session_store registry_ok live registry_step event_names event_time
  by unfold_locales (simp_all add: registry_ok_step live_step)

lemma registry_get_live:
  "fst (registry_get now sid pkey reg) =
     (case live reg now sid of
        Some e \<Rightarrow> if se_principal_key e = pkey then Some (se_state e) else None
      | None \<Rightarrow> None)"
  by (auto simp: registry_get_def live_def split: option.split)

text \<open>
  The registry without eviction: entries leave it only by a close or a shutdown, and the expiry is looked
  at only when a session is asked for.
\<close>

type_synonym 'st session_spec = "(bytes \<rightharpoonup> 'st session_entry) \<times> bool"

fun spec_step :: "nat \<Rightarrow> 'st registry_event \<Rightarrow> 'st session_spec \<Rightarrow> 'st session_spec" where
  "spec_step ttl0 (Opened now unix_now sid st ttl pkey) (m, dr) =
     (if dr then m
      else m(sid \<mapsto> \<lparr> se_state = st, se_expires_at = now + (case ttl of Some t \<Rightarrow> t | None \<Rightarrow> ttl0),
              se_principal_key = pkey \<rparr>), dr)"
| "spec_step ttl0 (Looked now sid pkey) (m, dr) = (m, dr)"
| "spec_step ttl0 (ClosedSid sid) (m, dr) = (m(sid := None), dr)"
| "spec_step ttl0 (Reaped now) (m, dr) = (m, dr)"
| "spec_step ttl0 (DrainSet b) (m, dr) = (m, b)"
| "spec_step ttl0 ShutDown (m, dr) = (Map.empty, dr)"

definition spec_get :: "'st session_spec \<Rightarrow> nat \<Rightarrow> bytes \<Rightarrow> string \<Rightarrow> 'st option" where
  "spec_get sp now sid pkey =
     (case fst sp sid of
        Some e \<Rightarrow> if now \<le> se_expires_at e \<and> se_principal_key e = pkey then Some (se_state e) else None
      | None \<Rightarrow> None)"

definition simulates :: "nat \<Rightarrow> nat \<Rightarrow> 'st session_registry \<Rightarrow> 'st session_spec \<Rightarrow> bool" where
  "simulates ttl0 now reg sp =
     (registry_ok reg \<and> sr_default_ttl reg = ttl0 \<and> sr_draining reg = snd sp
      \<and> (\<forall>sid. live reg now sid =
          (case fst sp sid of Some e \<Rightarrow> if se_expires_at e < now then None else Some e | None \<Rightarrow> None)))"

lemma registry_step_flags:
  "sr_default_ttl (registry_step ev reg) = sr_default_ttl reg"
  "sr_draining (registry_step ev reg) = (case ev of DrainSet b \<Rightarrow> b | _ \<Rightarrow> sr_draining reg)"
  by (cases ev; simp add: registry_open_def registry_get_def registry_close_def drain_expired_def set_draining_def
      registry_shutdown_def Let_def split: option.split)+

lemma simulates_step:
  assumes "simulates ttl0 now reg sp" "event_time ev \<le> now"
  shows "simulates ttl0 now (registry_step ev reg) (spec_step ttl0 ev sp)"
proof -
  obtain m dr where sp: "sp = (m, dr)"
    by (cases sp)
  have "live (registry_step ev reg) now sid =
      (case fst (spec_step ttl0 ev sp) sid of
         Some e \<Rightarrow> if se_expires_at e < now then None else Some e | None \<Rightarrow> None)" for sid
  proof (cases "sid \<in> event_names ev")
    case True
    then show ?thesis
      using assms(1)
      by (cases ev) (auto simp: sp simulates_def live_def registry_open_def registry_close_def registry_shutdown_def
          Let_def update_conv' delete_conv' split: option.split)
  next
    case False
    have "fst (spec_step ttl0 ev sp) sid = m sid"
      using False by (cases ev) (auto simp: sp)
    then show ?thesis
      using assms False live_step [of reg sid ev now] by (simp add: simulates_def sp)
  qed
  moreover have "snd (spec_step ttl0 ev sp) = (case ev of DrainSet b \<Rightarrow> b | _ \<Rightarrow> dr)"
    by (cases ev) (simp_all add: sp)
  ultimately show ?thesis
    using assms(1) registry_ok_step [of reg ev]
    by (simp add: simulates_def registry_step_flags sp split: registry_event.split)
qed

lemma simulates_run:
  "simulates ttl0 now reg sp \<Longrightarrow> \<forall>ev\<in>set evs. event_time ev \<le> now \<Longrightarrow>
     simulates ttl0 now (fold registry_step evs reg) (fold (spec_step ttl0) evs sp)"
  by (induction evs arbitrary: reg sp) (simp_all add: simulates_step)

lemma simulates_get: "simulates ttl0 now reg sp \<Longrightarrow> fst (registry_get now sid pkey reg) = spec_get sp now sid pkey"
  by (auto simp: simulates_def registry_get_live spec_get_def split: option.split)

section \<open>Facts about tokens\<close>

lemma open_sealed_session:
  assumes "aead_ok T" "base64_ok T" "length nonce = NONCE_LEN"
    and "str_ok server_id" "length server_id \<le> 255" "length sid = SESSION_ID_LEN" "expires_at < 2 ^ 64"
  shows "open_session_token T (seal_session_token T u nonce server_id sid expires_at key aad) key aad =
    Inr (server_id, sid, expires_at)"
proof -
  let ?p = "session_plaintext u server_id sid expires_at"
  have len: "unat (?p ! 8) = length server_id" "length ?p = 9 + length server_id + SESSION_ID_LEN + 8"
    using assms(5,6) by (simp_all add: session_plaintext_def nth_append unat_of_nat)
  have "?p = (le_bytes 8 u @ [word_of_nat (length server_id)]) @ as_bytes server_id @ sid @ le_bytes 8 expires_at"
    by (simp add: session_plaintext_def)
  then have parts: "subslice 9 (9 + length server_id) ?p = as_bytes server_id"
    "subslice (9 + length server_id) (9 + length server_id + SESSION_ID_LEN) ?p = sid"
    "subslice (9 + length server_id + SESSION_ID_LEN) (17 + (length server_id + SESSION_ID_LEN)) ?p = le_bytes 8 expires_at"
    using assms(6) by (simp_all add: subslice_def)
  have d: "tc_b64url_decode T (tc_b64url_encode T raw) = Some raw" for raw
    using assms(2) unfolding base64_ok_def by blast
  have "of_le (le_bytes 8 expires_at) = expires_at"
    using assms(7) by (intro of_le_le_bytes) simp
  then show ?thesis
    unfolding open_session_token_def seal_session_token_def
    by (simp add: d open_sealed [OF assms(1,3)] len parts Let_def assms(4))
qed

lemma open_foreign_session:
  assumes "aead_ok T" "aad_binding T" "base64_ok T" "length nonce = NONCE_LEN" "aad \<noteq> aad'"
  shows "open_session_token T (seal_session_token T u nonce server_id sid expires_at key aad) key' aad' = Inl token_lost"
proof -
  have "tc_b64url_decode T (tc_b64url_encode T raw) = Some raw" for raw
    using assms(3) unfolding base64_ok_def by blast
  then show ?thesis
    unfolding open_session_token_def seal_session_token_def
    by (simp add: open_other_aad [OF assms(1,2,4,5)])
qed

lemma presented_token:
  assumes "base64_ok T"
  shows "presented (Some (seal_session_token T u nonce server_id sid expires_at key aad)) =
    Some (seal_session_token T u nonce server_id sid expires_at key aad)"
proof -
  let ?t = "seal_session_token T u nonce server_id sid expires_at key aad"
  have "graph_char c" if "b64url_char c" for c
    using that by (auto simp: graph_char_def b64url_char_def Let_def)
  moreover have "list_all b64url_char ?t"
    using assms unfolding base64_ok_def seal_session_token_def by blast
  ultimately have "list_all graph_char ?t"
    by (simp add: list_all_iff)
  then have "trim ?t = ?t"
    by (rule trim_graph)
  moreover have "?t \<noteq> []"
    using assms by (simp add: base64_ok_def seal_session_token_def seal_bytes_with_nonce_def)
  ultimately show ?thesis
    by (simp add: presented_def)
qed

text \<open>Whom a session belongs to: what the registry key and the associated data are computed from.\<close>

definition session_identity :: "auth_context \<Rightarrow> (string \<times> string) option \<times> string option" where
  "session_identity ctx =
     (if ac_authenticated ctx then Some (ac_domain ctx, ac_principal ctx) else None, evidence_binding ctx)"

definition nul_free :: "auth_context \<Rightarrow> bool" where
  "nul_free ctx = (NUL \<notin> set (ac_domain ctx) \<and> NUL \<notin> set (ac_principal ctx))"

lemma session_identity_cong:
  assumes "session_identity a = session_identity b"
  shows "compute_session_aad a = compute_session_aad b" "principal_key a = principal_key b"
  using assms
  by (auto simp: session_identity_def compute_session_aad_def principal_key_def Let_def split: if_split_asm)

lemma byte_of_0: "byte_of c = 0 \<longleftrightarrow> c = NUL"
proof
  assume "byte_of c = 0"
  then have "c = char_of_byte 0"
    by (metis char_of_byte_of)
  then show "c = NUL"
    by (simp add: char_of_byte_def NUL_def)
qed (simp add: byte_of_def NUL_def)

lemma split_at_0: "(0 :: byte) \<notin> set a \<Longrightarrow> 0 \<notin> set b \<Longrightarrow> a @ 0 # x = b @ 0 # y \<longleftrightarrow> a = b \<and> x = y"
proof (induction a arbitrary: b)
  case Nil
  then show ?case by (cases b) auto
next
  case (Cons c a)
  then show ?case by (cases b) auto
qed

lemma session_aad_inj:
  assumes "compute_session_aad a = compute_session_aad b" "nul_free a" "nul_free b"
  shows "session_identity a = session_identity b"
proof -
  have n: "0 \<notin> set (as_bytes s)" if "NUL \<notin> set s" for s
    using that by (auto simp: as_bytes_def byte_of_0)
  have v: "as_bytes ''vgi_rpc.session.v1'' @ 0 # x \<noteq> as_bytes ''vgi_rpc.session.v2'' @ 0 # y" for x y
    by (simp add: as_bytes_def byte_of_def)
  have "evidence_binding a \<noteq> None \<longleftrightarrow> evidence_binding b \<noteq> None"
    using assms(1) v v [symmetric] by (auto simp: compute_session_aad_def Let_def split: if_split_asm)
  then show ?thesis
    using assms n [of "ac_domain a"] n [of "ac_domain b"] n [of "ac_principal a"] n [of "ac_principal b"]
    by (cases "evidence_binding a"; cases "evidence_binding b")
      (auto simp: compute_session_aad_def session_identity_def Let_def nul_free_def split_at_0 inj_as_bytes
        split: if_split_asm)
qed

lemma sink_open_Inr:
  assumes "sink_open T d st ttl ctx sink = (Inr (), ctx', sink')"
  shows "\<not> sr_draining (sc_registry ctx)"
    "ctx' = ctx\<lparr> sc_registry := registry_step (Opened (sd_instant d) (sd_unix_open d) (sd_sid d) st ttl (sk_principal_key sink)) (sc_registry ctx) \<rparr>"
    "\<exists>e<2 ^ 64. sk_mint_token sink' =
       Some (seal_session_token T (sd_unix_seal d) (sd_nonce d) (sc_server_id ctx) (sd_sid d) e (sc_token_key ctx) (sk_aad sink))"
  using assms
  by (auto simp: sink_open_def registry_open_def Let_def simp del: power_numeral split: if_split_asm
      intro!: exI conjI [OF mod_less_divisor])

lemma live_opened:
  assumes "\<not> sr_draining reg" "now \<le> t + (case ttl of Some t \<Rightarrow> t | None \<Rightarrow> sr_default_ttl reg)"
  shows "live (registry_step (Opened t u sid st ttl pkey) reg) now sid =
    Some \<lparr> se_state = st, se_expires_at = t + (case ttl of Some t \<Rightarrow> t | None \<Rightarrow> sr_default_ttl reg), se_principal_key = pkey \<rparr>"
  using assms by (simp add: live_def registry_open_def Let_def update_conv')

lemma registry_get_hit:
  "live reg now sid = Some e \<Longrightarrow> se_principal_key e = pkey \<Longrightarrow> registry_get now sid pkey reg = (Some (se_state e), reg)"
  by (auto simp: registry_get_def live_def split: option.split_asm if_split_asm)

section \<open>A concrete worker\<close>

definition demo_sticky :: "nat sticky_context" where
  "demo_sticky = sticky_context_new (replicate 32 7) 1000 [] ''w1''"

definition demo_session_draw :: session_draw where
  "demo_session_draw = \<lparr> sd_instant = 10, sd_unix_open = 0, sd_unix_seal = 0, sd_sid = replicate 12 5,
     sd_nonce = replicate 24 0 \<rparr>"

definition demo_alice :: auth_context where
  "demo_alice = for_principal ''bearer'' ''alice''"

definition demo_opened :: "unit rpc_result \<times> nat sticky_context \<times> nat sticky_sink" where
  "demo_opened = sink_open demo_crypto demo_session_draw 42 None demo_sticky (new_sink demo_alice True None None)"

lemma demo_opened_eq: "demo_opened = (Inr (), fst (snd demo_opened), snd (snd demo_opened))"
  by (simp add: demo_opened_def sink_open_def registry_open_def demo_sticky_def sticky_context_new_def
      registry_new_def Let_def)

section \<open>Properties\<close>

text \<open>C33. A session that a request opened is found again: until it expires, whoever presents the minted token
  with the same identity gets the state back, whatever happened to the registry in between that neither
  closed that session nor reused its id; reaping, lookups by anyone and draining included.
\<close>
theorem opened_session_resolves:
  assumes "aead_ok T" "base64_ok T"
    and opn: "sink_open T d st ttl ctx (new_sink auth accept st0 sid0) = (Inr (), ctx', sink')"
    and "registry_ok (sc_registry ctx)" "str_ok (sc_server_id ctx)" "length (sc_server_id ctx) \<le> 255"
    and "length (sd_nonce d) = NONCE_LEN" "length (sd_sid d) = SESSION_ID_LEN"
    and "\<forall>ev\<in>set evs. sd_sid d \<notin> event_names ev \<and> event_time ev \<le> now"
    and "now \<le> sd_instant d + (case ttl of Some t \<Rightarrow> t | None \<Rightarrow> sr_default_ttl (sc_registry ctx))"
    and "session_identity auth' = session_identity auth"
    and later: "later = ctx'\<lparr> sc_registry := fold registry_step evs (sc_registry ctx') \<rparr>"
  shows "resolve T now later auth' accept' (sk_mint_token sink') =
    (Sink (new_sink auth' accept' (Some st) (Some (bytes_to_hex (sd_sid d)))), later)"
proof -
  note o = sink_open_Inr [OF opn]
  let ?ev = "Opened (sd_instant d) (sd_unix_open d) (sd_sid d) st ttl (principal_key auth)"
  obtain e where e: "e < 2 ^ 64" "sk_mint_token sink' =
      Some (seal_session_token T (sd_unix_seal d) (sd_nonce d) (sc_server_id ctx) (sd_sid d) e (sc_token_key ctx) (compute_session_aad auth))"
    using o(3) by (auto simp: new_sink_def)
  have reg: "sc_registry later = fold registry_step evs (registry_step ?ev (sc_registry ctx))"
    "sc_token_key later = sc_token_key ctx" "sc_server_id later = sc_server_id ctx"
    using o(2) by (simp_all add: later new_sink_def)
  have "live (sc_registry later) now (sd_sid d) = live (registry_step ?ev (sc_registry ctx)) now (sd_sid d)"
    unfolding reg by (rule sr.run_keeps [OF registry_ok_step [OF assms(4)] assms(9)])
  then have "registry_get now (sd_sid d) (principal_key auth) (sc_registry later) = (Some st, sc_registry later)"
    using registry_get_hit live_opened [OF o(1) assms(10)] by fastforce
  moreover have "later\<lparr> sc_registry := sc_registry later \<rparr> = later"
    by simp
  ultimately show ?thesis
    unfolding resolve_def e(2) presented_token [OF assms(2)] session_identity_cong [OF assms(11)]
    by (simp add: reg(2,3) open_sealed_session [OF assms(1,2,7,5,6,8) e(1)])
qed

theorem opened_session_resolves_witness:
  "fst (resolve demo_crypto 900 (fst (snd demo_opened)) demo_alice False (sk_mint_token (snd (snd demo_opened)))) =
     Sink (new_sink demo_alice False (Some 42) (Some (bytes_to_hex (replicate 12 5))))"
proof -
  have o: "sink_open demo_crypto demo_session_draw 42 None demo_sticky (new_sink demo_alice True None None) =
      (Inr (), fst (snd demo_opened), snd (snd demo_opened))"
    using demo_opened_eq by (simp add: demo_opened_def)
  have h: "registry_ok (sc_registry demo_sticky)" "str_ok (sc_server_id demo_sticky)"
    "length (sc_server_id demo_sticky) \<le> 255" "length (sd_nonce demo_session_draw) = NONCE_LEN"
    "length (sd_sid demo_session_draw) = SESSION_ID_LEN"
    "\<forall>ev\<in>set []. sd_sid demo_session_draw \<notin> event_names ev \<and> event_time ev \<le> 900"
    "900 \<le> sd_instant demo_session_draw + (case None of Some t \<Rightarrow> t | None \<Rightarrow> sr_default_ttl (sc_registry demo_sticky))"
    by (simp_all add: demo_sticky_def sticky_context_new_def registry_new_def registry_ok_def demo_session_draw_def
        NONCE_LEN_def SESSION_ID_LEN_def str_ok_ascii is_ascii_def)
  show ?thesis
    using opened_session_resolves [OF demo_crypto_laws(1,3) o h refl refl] by (simp add: demo_session_draw_def)
qed

text \<open>C34. A session token is of no use to anyone else: presented under another identity (another principal or
  domain, anonymous instead of authenticated, another peer-evidence binding) it is refused with the one
  error of a forged token, deleting by it is the no-op of an unknown token, and the registry is not touched;
  for every worker with the same key. Domains and principals are taken to be free of NUL characters.
\<close>
theorem session_bound_to_identity:
  assumes "aead_ok T" "aad_binding T" "base64_ok T"
    and opn: "sink_open T d st ttl ctx (new_sink auth accept st0 sid0) = (Inr (), ctx', sink')"
    and "length (sd_nonce d) = NONCE_LEN"
    and "nul_free auth" "nul_free other" "session_identity other \<noteq> session_identity auth"
    and "sc_token_key worker = sc_token_key ctx"
  shows "resolve T now worker other accept' (sk_mint_token sink') = (Lost token_lost, worker)
    \<and> handle_delete T now worker other (sk_mint_token sink') = (Idempotent, worker)"
proof -
  obtain e where e: "sk_mint_token sink' =
      Some (seal_session_token T (sd_unix_seal d) (sd_nonce d) (sc_server_id ctx) (sd_sid d) e (sc_token_key ctx) (compute_session_aad auth))"
    using sink_open_Inr(3) [OF opn] by (auto simp: new_sink_def)
  have "compute_session_aad auth \<noteq> compute_session_aad other"
    using session_aad_inj assms(6-8) by metis
  then show ?thesis
    unfolding resolve_def handle_delete_def e presented_token [OF assms(3)] assms(9)
    by (simp add: open_foreign_session [OF assms(1-3,5)])
qed

theorem session_bound_to_identity_witness:
  "fst (resolve demo_crypto 20 (fst (snd demo_opened)) (for_principal ''bearer'' ''bob'') True
      (sk_mint_token (snd (snd demo_opened)))) = Lost token_lost"
proof -
  have o: "sink_open demo_crypto demo_session_draw 42 None demo_sticky (new_sink demo_alice True None None) =
      (Inr (), fst (snd demo_opened), snd (snd demo_opened))"
    using demo_opened_eq by (simp add: demo_opened_def)
  have c: "NUL \<notin> set ''bearer''" "NUL \<notin> set ''alice''" "NUL \<notin> set ''bob''"
    by code_simp+
  have h: "length (sd_nonce demo_session_draw) = NONCE_LEN" "nul_free demo_alice" "nul_free (for_principal ''bearer'' ''bob'')"
    "session_identity (for_principal ''bearer'' ''bob'') \<noteq> session_identity demo_alice"
    "sc_token_key (fst (snd demo_opened)) = sc_token_key demo_sticky"
    using c
    by (simp_all add: demo_session_draw_def NONCE_LEN_def nul_free_def demo_alice_def for_principal_def session_identity_def
        sink_open_Inr(2) [OF o])
  show ?thesis
    using session_bound_to_identity [OF demo_crypto_laws(1,2,3) o h] by simp
qed

text \<open>C35. Eviction is invisible: after any sequence of opens, lookups, closes, reaper ticks, drain switches and
  shutdowns, a lookup answers as a registry would that never evicts and only compares the expiry.
\<close>
theorem eviction_is_invisible:
  assumes "\<forall>ev\<in>set evs. event_time ev \<le> now"
  shows "fst (registry_get now sid pkey (fold registry_step evs (registry_new ttl0))) =
    spec_get (fold (spec_step ttl0) evs (Map.empty, False)) now sid pkey"
proof -
  have "simulates ttl0 now (registry_new ttl0) (Map.empty, False)"
    by (simp add: simulates_def registry_new_def registry_ok_def live_def)
  from simulates_get [OF simulates_run [OF this assms]] show ?thesis .
qed

theorem eviction_is_invisible_witness:
  "fst (registry_get 30 [1] ''k'' (fold registry_step [Opened 5 0 [1] (7 :: nat) None ''k'', Reaped 20] (registry_new 25))) = Some 7"
  using eviction_is_invisible [of "[Opened 5 0 [1] (7 :: nat) None ''k'', Reaped 20]" 30 "[1]" "''k''" 25]
  by (simp add: spec_get_def)

end
