(* ===== verification/Binding.thy ===== *)
theory Binding
  imports Envelope Wire_Read Auth
begin

text \<open>
  Protocol names, the version gate and routing: \<^verbatim>\<open>vgi-rpc/src/binding.rs\<close> and the part of
  \<^verbatim>\<open>vgi-rpc/src/server.rs\<close> that decides what a framed request gets, from \<^verbatim>\<open>Request::from_read_batch\<close> to the
  method that is invoked. A record batch is seen through its fields and its number of rows, whose type
  and printed form are parameters. A method table is an association list.
\<close>

section \<open>Protocol names\<close>

definition is_ascii_alphabetic :: "char \<Rightarrow> bool" where
  "is_ascii_alphabetic c =
     (let n = of_char c :: nat in (65 \<le> n \<and> n \<le> 90) \<or> (97 \<le> n \<and> n \<le> 122))"

definition is_ascii_digit :: "char \<Rightarrow> bool" where
  "is_ascii_digit c = (digit_val c \<noteq> None)"

definition is_valid_name :: "string \<Rightarrow> bool" where
  "is_valid_name name =
     (case name of
        [] \<Rightarrow> False
      | c # cs \<Rightarrow> (is_ascii_alphabetic c \<or> c = CHR ''_'')
          \<and> list_all (\<lambda>c. is_ascii_alphabetic c \<or> is_ascii_digit c \<or> c = CHR ''_'' \<or> c = CHR ''.'') cs)"

definition RESERVED_PROTOCOL_PREFIX :: string where "RESERVED_PROTOCOL_PREFIX = ''vgi_rpc.''"
definition MAX_PROTOCOL_NAME_BYTES :: nat where "MAX_PROTOCOL_NAME_BYTES = 255"

definition validate_protocol_name :: "string \<Rightarrow> bool \<Rightarrow> (string + unit) outcome" where
  "validate_protocol_name name allow_reserved =
     (if name = [] then Done (Inl ''A protocol name may not be empty.'')
      else if MAX_PROTOCOL_NAME_BYTES < length name then
        let cut_at = min (length name) 64 in
        if \<not> is_char_boundary name cut_at then Panic
        else Done (Inl (''Protocol name exceeds '' @ show_nat MAX_PROTOCOL_NAME_BYTES @ '' bytes: ''
               @ take cut_at name @ ''...''))
      else if \<not> is_valid_name name then
        Done (Inl (''Protocol name '' @ debug_str name
          @ '' is not an identifier, optionally dot-qualified. Expected something like 'vgi.Identity.v1'.''))
      else if \<not> allow_reserved \<and> prefix RESERVED_PROTOCOL_PREFIX name then
        Done (Inl (''Protocol name '' @ debug_str name @ '' claims the reserved ''
          @ debug_str RESERVED_PROTOCOL_PREFIX @ '' prefix, which is for protocols the framework defines.''))
      else Done (Inr ()))"

definition protocol_not_specified :: "string list \<Rightarrow> rpc_error" where
  "protocol_not_specified hosted =
     with_status InvalidArgument ''protocol_not_specified''
       (protocol_error (''Request carries no 'vgi_rpc.protocol' routing key. Every request must name ''
         @ ''the protocol it addresses. This server hosts: '' @ debug_list hosted @ ''.''))"

definition protocol_not_supported :: "string \<Rightarrow> string list \<Rightarrow> rpc_error" where
  "protocol_not_supported requested hosted =
     with_status Unimplemented ''protocol_not_supported''
       (protocol_error (''This server does not host protocol '' @ debug_str requested @ ''. Hosted: ''
         @ debug_list hosted @ ''.''))"

section \<open>The version gate\<close>

definition semver_part :: "string \<Rightarrow> nat option" where
  "semver_part p =
     (if p \<noteq> [] \<and> list_all is_ascii_digit p \<and> (p = ''0'' \<or> hd p \<noteq> CHR ''0'')
      then parse_u64 p else None)"

definition parse_semver :: "string \<Rightarrow> (nat \<times> nat \<times> nat) option" where
  "parse_semver v =
     (case split_on CHR ''.'' v of
        a # b # c # rest \<Rightarrow>
          Option.bind (semver_part a) (\<lambda>x.
          Option.bind (semver_part b) (\<lambda>y.
          Option.bind (semver_part c) (\<lambda>z.
            if rest \<noteq> [] then None else Some (x, y, z))))
      | _ \<Rightarrow> None)"

definition pair_less :: "nat \<times> nat \<Rightarrow> nat \<times> nat \<Rightarrow> bool" where
  "pair_less a b = (fst a < fst b \<or> (fst a = fst b \<and> snd a < snd b))"

definition validate_protocol_version :: "string \<Rightarrow> string \<Rightarrow> metadata \<Rightarrow> unit rpc_result" where
  "validate_protocol_version protocol server_version md =
     (if server_version = [] then Inr ()
      else case md_get md PROTOCOL_VERSION_KEY of
        None \<Rightarrow> Inl (protocol_version_mismatch protocol [] server_version
          (''the client did not send a vgi_rpc.protocol_version metadata key. This is ''
           @ ''either a framework bug or a client of another protocol connecting to this one.''))
      | Some client_version \<Rightarrow>
          (case parse_semver client_version of
             None \<Rightarrow> Inl (protocol_version_mismatch protocol client_version server_version
               (''client sent a malformed protocol_version. Expected canonical semver MAJOR.MINOR.PATCH.''))
           | Some (c0, c1, _) \<Rightarrow>
               (case parse_semver server_version of
                  Some (s0, s1, _) \<Rightarrow>
                    if (c0, c1) = (s0, s1) then Inr ()
                    else Inl (protocol_version_mismatch protocol client_version server_version
                      (if pair_less (c0, c1) (s0, s1)
                       then ''client is too old; upgrade the client to a version supporting protocol_version ''
                         @ server_version @ ''.''
                       else ''server is too old; upgrade the server to a version supporting protocol_version ''
                         @ client_version @ ''.''))
                | None \<Rightarrow>
                    let ps = split_on CHR ''.'' server_version;
                        major = hd ps; minor = (if 1 < length ps then ps ! 1 else [])
                    in if show_nat c0 = major \<and> show_nat c1 = minor then Inr ()
                       else Inl (protocol_version_mismatch protocol client_version server_version
                         ''the major and minor versions must match.''))))"

section \<open>Requests\<close>

record 'f batch =
  bt_fields :: "'f list"
  bt_rows :: nat

record 'f request =
  rq_method :: string
  rq_protocol :: string
  rq_request_id :: string
  rq_batch :: "'f batch"
  rq_metadata :: metadata

definition md_or_empty :: "metadata \<Rightarrow> string \<Rightarrow> string" where
  "md_or_empty md k = (case md_get md k of Some v \<Rightarrow> v | None \<Rightarrow> [])"

definition expected_one_row :: "nat \<Rightarrow> rpc_error" where
  "expected_one_row n = protocol_error (''Expected 1 row in request batch, got '' @ show_nat n)"

definition request_from_read_batch :: "'f batch \<Rightarrow> metadata \<Rightarrow> bool \<Rightarrow> 'f request rpc_result" where
  "request_from_read_batch b md require_method =
     (if md_contains md INVALID_UTF8_METADATA_KEY
      then Inl (protocol_error ''Invalid UTF-8 in request batch custom_metadata'')
      else
        and_then
          (if require_method then
             ok_or (protocol_error ''Missing 'vgi_rpc.method' in request batch custom_metadata.'')
               (md_get md RPC_METHOD_KEY)
           else Inr (md_or_empty md RPC_METHOD_KEY)) (\<lambda>method_name.
        and_then
          (ok_or (version_error (''Missing 'vgi_rpc.request_version' in request batch custom_metadata. Set it to ''
              @ debug_str REQUEST_VERSION @ ''.''))
            (md_get md REQUEST_VERSION_KEY)) (\<lambda>version.
        if version \<noteq> REQUEST_VERSION then
          Inl (version_error (''Unsupported request version '' @ debug_str version @ '', expected ''
            @ debug_str REQUEST_VERSION @ ''.''))
        else if require_method \<and> bt_fields b \<noteq> [] \<and> bt_rows b \<noteq> 1 \<and> md_get md LOCATION_KEY = None
        then Inl (expected_one_row (bt_rows b))
        else Inr \<lparr> rq_method = method_name, rq_protocol = md_or_empty md PROTOCOL_KEY,
               rq_request_id = md_or_empty md REQUEST_ID_KEY, rq_batch = b, rq_metadata = md \<rparr>)))"

definition validate_parameter_batch ::
  "('f list \<Rightarrow> string) \<Rightarrow> 'f batch \<Rightarrow> 'f list \<Rightarrow> unit rpc_result" where
  "validate_parameter_batch show_schema b expected =
     (if bt_fields b \<noteq> expected then
        Inl (type_error (''parameter schema mismatch: expected '' @ show_schema expected @ '', got ''
          @ show_schema (bt_fields b)))
      else if expected \<noteq> [] \<and> bt_rows b \<noteq> 1 then Inl (expected_one_row (bt_rows b))
      else Inr ())"

section \<open>Bindings and routing\<close>

datatype method_type = Unary | Producer | Exchange | Dynamic

record 'f method_info =
  mi_name :: string
  mi_method_type :: method_type
  mi_params_schema :: "'f list"
  mi_result_schema :: "'f list"
  mi_header_schema :: "'f list option"
  mi_declared_stream_kind :: string

type_synonym 'f method_table = "(string \<times> 'f method_info) list"

record 'f hosted_protocol =
  hp_name :: string
  hp_version :: string
  hp_methods :: "'f method_table"

record 'f rpc_server =
  sv_server_id :: string
  sv_omit_tracebacks :: bool
  sv_protocol_name :: string
  sv_protocol_version :: string
  sv_methods :: "'f method_table"
  sv_extra_protocols :: "'f hosted_protocol list"
  sv_identity :: "'f method_table option"

definition IDENTITY_PROTOCOL_NAME :: string where "IDENTITY_PROTOCOL_NAME = ''vgi_rpc.Identity.v2''"
definition REFLECTION_PROTOCOL_NAME :: string where "REFLECTION_PROTOCOL_NAME = ''vgi_rpc.Reflection.v1''"
definition RETIRED_DESCRIBE_METHOD :: string where "RETIRED_DESCRIBE_METHOD = ''__describe__''"
definition TRANSPORT_OPTIONS_METHOD_NAME :: string where
  "TRANSPORT_OPTIONS_METHOD_NAME = ''__transport_options__''"

text \<open>The registration loop of \<^verbatim>\<open>try_build\<close>: the primary name and every added one.\<close>

fun register_names :: "string list \<Rightarrow> string list \<Rightarrow> unit rpc_result outcome" where
  "register_names seen [] = Done (Inr ())"
| "register_names seen (name # names) =
     on_done (validate_protocol_name name False) (\<lambda>r.
       case r of
         Inl m \<Rightarrow> Done (Inl (value_error m))
       | Inr _ \<Rightarrow>
           if name \<in> set seen then
             Done (Inl (value_error (''Protocol '' @ debug_str name
               @ '' is registered more than once. Each hosted protocol needs a distinct name.'')))
           else register_names (name # seen) names)"

definition primary_name :: "string option \<Rightarrow> string" where
  "primary_name n = (case n of Some s \<Rightarrow> if s \<noteq> [] then s else ''Service'' | None \<Rightarrow> ''Service'')"

definition resolve_binding :: "'f rpc_server \<Rightarrow> string \<Rightarrow> 'f hosted_protocol option" where
  "resolve_binding sv protocol =
     (if protocol = sv_protocol_name sv then
        Some \<lparr> hp_name = sv_protocol_name sv, hp_version = sv_protocol_version sv, hp_methods = sv_methods sv \<rparr>
      else case find (\<lambda>p. hp_name p = protocol) (sv_extra_protocols sv) of
        Some extra \<Rightarrow> Some extra
      | None \<Rightarrow>
          if protocol = IDENTITY_PROTOCOL_NAME then
            map_option (\<lambda>ms. \<lparr> hp_name = IDENTITY_PROTOCOL_NAME, hp_version = [], hp_methods = ms \<rparr>)
              (sv_identity sv)
          else None)"

definition hosted_protocol_names :: "'f rpc_server \<Rightarrow> string list" where
  "hosted_protocol_names sv =
     sv_protocol_name sv # map hp_name (sv_extra_protocols sv) @ [REFLECTION_PROTOCOL_NAME]
     @ (if sv_identity sv \<noteq> None then [IDENTITY_PROTOCOL_NAME] else [])"

definition route :: "'f rpc_server \<Rightarrow> string \<Rightarrow> 'f hosted_protocol rpc_result outcome" where
  "route sv protocol =
     (let hosted = hosted_protocol_names sv in
      if protocol = [] then Done (Inl (protocol_not_specified hosted))
      else on_done (validate_protocol_name protocol True) (\<lambda>v.
        if is_err v then Done (Inl (protocol_not_supported ''<invalid>'' hosted))
        else Done (ok_or (protocol_not_supported protocol hosted) (resolve_binding sv protocol))))"

definition sorted_method_names :: "'f hosted_protocol \<Rightarrow> string list" where
  "sorted_method_names p = map fst (obj_of (hp_methods p))"

definition no_such_method :: "'f hosted_protocol \<Rightarrow> string \<Rightarrow> rpc_error" where
  "no_such_method p method_name =
     method_not_implemented (''Protocol '' @ [CHR 0x27] @ hp_name p @ [CHR 0x27] @ '' has no method ''
       @ [CHR 0x27] @ method_name @ [CHR 0x27] @ ''. Available: '' @ debug_list (sorted_method_names p))"

definition describe_retired :: rpc_error where
  "describe_retired =
     attribute_error ([CHR 0x27] @ RETIRED_DESCRIBE_METHOD @ [CHR 0x27]
       @ '' was retired. Introspection is now the '' @ [CHR 0x27] @ REFLECTION_PROTOCOL_NAME @ [CHR 0x27]
       @ '' protocol: call 'list_protocols' for what this server hosts, then 'describe' for one protocol's methods.'')"

definition traceback_origin :: "'f rpc_server \<Rightarrow> string \<Rightarrow> string \<Rightarrow> string option" where
  "traceback_origin sv protocol method_name =
     (if sv_omit_tracebacks sv then None
      else Some
        (if protocol = [] \<and> method_name = [] then []
         else if protocol = [] then method_name
         else protocol @ ''/'' @ method_name))"

text \<open>
  What a framed request gets: the answer to the capability handshake, an error stream (with the schema it is
  written under, the request id and the traceback origin it carries), the reflection protocol, or the
  invocation of a method.
\<close>

datatype 'f dispatch =
    Handshake metadata
  | Error_Stream "'f list" rpc_error string "string option"
  | Reflect "'f request"
  | Invoke "'f hosted_protocol" "'f method_info" "'f request"

definition handshake_metadata :: "bool \<Rightarrow> 'f rpc_server \<Rightarrow> metadata" where
  "handshake_metadata shm_available sv =
     md_insert SERVER_ID_KEY (sv_server_id sv)
       (md_insert REQUEST_VERSION_KEY REQUEST_VERSION
         (md_insert TRANSPORT_SHM_KEY (if shm_available then ''true'' else ''false'') []))"

definition dispatch_bound ::
  "('f list \<Rightarrow> string) \<Rightarrow> 'f rpc_server \<Rightarrow> 'f request \<Rightarrow> 'f hosted_protocol \<Rightarrow> 'f dispatch" where
  "dispatch_bound show_schema sv req bnd =
     (let tb = traceback_origin sv (rq_protocol req) (rq_method req) in
      case validate_protocol_version (hp_name bnd) (hp_version bnd) (rq_metadata req) of
        Inl e \<Rightarrow> Error_Stream [] e (rq_request_id req) tb
      | Inr _ \<Rightarrow>
          (case map_of (hp_methods bnd) (rq_method req) of
             None \<Rightarrow> Error_Stream [] (no_such_method bnd (rq_method req)) (rq_request_id req) tb
           | Some info \<Rightarrow>
               (case validate_parameter_batch show_schema (rq_batch req) (mi_params_schema info) of
                  Inl e \<Rightarrow> Error_Stream (mi_result_schema info) e (rq_request_id req) tb
                | Inr _ \<Rightarrow> Invoke bnd info req)))"

definition dispatch_request ::
  "('f list \<Rightarrow> string) \<Rightarrow> bool \<Rightarrow> 'f rpc_server \<Rightarrow> 'f batch \<Rightarrow> metadata \<Rightarrow> 'f dispatch outcome" where
  "dispatch_request show_schema shm_available sv b md =
     (case request_from_read_batch b md True of
        Inl e \<Rightarrow> Done (Error_Stream [] e (md_or_empty md REQUEST_ID_KEY) (traceback_origin sv [] []))
      | Inr req \<Rightarrow>
          let tb = traceback_origin sv (rq_protocol req) (rq_method req) in
          if rq_method req = TRANSPORT_OPTIONS_METHOD_NAME then Done (Handshake (handshake_metadata shm_available sv))
          else if rq_method req = RETIRED_DESCRIBE_METHOD
          then Done (Error_Stream [] describe_retired (rq_request_id req) tb)
          else if rq_protocol req = REFLECTION_PROTOCOL_NAME then Done (Reflect req)
          else on_done (route sv (rq_protocol req)) (\<lambda>r.
            case r of
              Inl e \<Rightarrow> Done (Error_Stream [] e (rq_request_id req) tb)
            | Inr bnd \<Rightarrow> Done (dispatch_bound show_schema sv req bnd)))"

section \<open>Facts about versions\<close>

lemma digit_val_Some: "digit_val c = Some d \<longleftrightarrow> d < 10 \<and> c = digit_char d"
proof
  assume a: "digit_val c = Some d"
  then have "of_char c = 48 + d" "d < 10"
    by (auto simp: digit_val_def Let_def split: if_split_asm)
  then show "d < 10 \<and> c = digit_char d"
    unfolding digit_char_def by (metis char_of_char)
qed auto

lemma show_nat_snoc: "0 < k \<Longrightarrow> d < 10 \<Longrightarrow> show_nat (k * 10 + d) = show_nat k @ [digit_char d]"
  by (subst show_nat.simps) simp

lemma show_nat_0: "show_nat 0 = ''0''"
  by code_simp

lemma canonical_show:
  "p \<noteq> [] \<Longrightarrow> p = ''0'' \<or> hd p \<noteq> CHR ''0'' \<Longrightarrow> parse_digits m 0 p = Some n \<Longrightarrow> p = show_nat n"
proof (induction p arbitrary: n rule: rev_induct)
  case (snoc c p)
  from snoc.prems(3) obtain k d where k: "parse_digits m 0 p = Some k" "digit_val c = Some d" "n = k * 10 + d"
    by (auto simp: parse_digits_append split: option.split_asm if_split_asm)
  show ?case
  proof (cases "p = []")
    case True
    then show ?thesis
      using k by (simp add: digit_val_Some show_nat.simps [of d])
  next
    case False
    then have "hd p \<noteq> CHR ''0''"
      using snoc.prems(2) by (cases p) auto
    moreover from this have "p = show_nat k"
      using snoc.IH [OF False _ k(1)] by blast
    ultimately have "0 < k"
      using show_nat_0 by (cases k) auto
    then show ?thesis
      using k \<open>p = show_nat k\<close> by (simp add: digit_val_Some show_nat_snoc)
  qed
qed simp

lemma show_nat_canonical: "show_nat n = ''0'' \<or> hd (show_nat n) \<noteq> CHR ''0''"
proof (induction n rule: show_nat.induct)
  case (1 n)
  show ?case
  proof (cases "n < 10")
    case True
    have "digit_char n = CHR ''0'' \<longleftrightarrow> n = 0"
      using digit_val_Some [of "CHR ''0''" n] True by (auto simp: digit_val_def)
    then show ?thesis
      using True by (auto simp: show_nat.simps [of n])
  next
    case False
    then have "hd (show_nat n) = hd (show_nat (n div 10))"
      by (simp add: show_nat.simps [of n])
    moreover have "show_nat (n div 10) \<noteq> ''0''"
      using False show_nat_inj [of "n div 10" 0] show_nat_0 by auto
    ultimately show ?thesis
      using 1 False by simp
  qed
qed

lemma semver_part_Some: "semver_part p = Some n \<longleftrightarrow> p = show_nat n \<and> n \<le> u64_max"
proof
  assume a: "semver_part p = Some n"
  then have c: "p \<noteq> []" "p = ''0'' \<or> hd p \<noteq> CHR ''0''" "parse_u64 p = Some n" "list_all is_ascii_digit p"
    by (auto simp: semver_part_def split: if_split_asm)
  then have "hd p \<noteq> CHR ''+''"
    by (cases p) (auto simp: is_ascii_digit_def digit_val_def)
  then have "parse_digits u64_max 0 p = Some n"
    using c(1,3) by (cases p) (auto simp: parse_unsigned_def simp del: parse_digits.simps)
  then show "p = show_nat n \<and> n \<le> u64_max"
    using canonical_show [OF c(1,2)] parse_unsigned_le [OF c(3)] by blast
next
  assume "p = show_nat n \<and> n \<le> u64_max"
  then show "semver_part p = Some n"
    using show_nat_canonical [of n] show_nat_digits [of _ n]
    by (auto simp: semver_part_def is_ascii_digit_def list_all_iff)
qed

lemma split_on_Cons:
  "split_on c v = p # ps \<Longrightarrow> (if ps = [] then v = p else \<exists>w. v = p @ c # w \<and> split_on c w = ps)"
proof (induction v arbitrary: p ps)
  case (Cons x v)
  obtain p' ps' where v: "split_on c v = p' # ps'"
    by (cases "split_on c v") auto
  show ?case
  proof (cases "x = c")
    case True
    then show ?thesis
      using Cons.prems by auto
  next
    case False
    then have "p = x # p'" "ps = ps'"
      using Cons.prems v by auto
    then show ?thesis
      using Cons.IH [OF v] by auto
  qed
qed auto

definition semver :: "nat \<Rightarrow> nat \<Rightarrow> nat \<Rightarrow> string" where
  "semver a b c = show_nat a @ CHR ''.'' # show_nat b @ CHR ''.'' # show_nat c"

lemma dot_show_nat: "CHR ''.'' \<notin> set (show_nat n)"
  using show_nat_digits [of "CHR ''.''" n] by (auto simp: digit_val_def)

lemma parse_semver_Some:
  "parse_semver v = Some (a, b, c) \<longleftrightarrow> v = semver a b c \<and> a \<le> u64_max \<and> b \<le> u64_max \<and> c \<le> u64_max"
proof
  assume p: "parse_semver v = Some (a, b, c)"
  then obtain x y z where sp: "split_on CHR ''.'' v = [x, y, z]"
    and n: "semver_part x = Some a" "semver_part y = Some b" "semver_part z = Some c"
    by (auto simp: parse_semver_def bind_eq_Some_conv split: list.split_asm if_split_asm)
  obtain w where w: "v = x @ CHR ''.'' # w" "split_on CHR ''.'' w = [y, z]"
    using split_on_Cons [OF sp] by auto
  obtain w' where w': "w = y @ CHR ''.'' # w'" "split_on CHR ''.'' w' = [z]"
    using split_on_Cons [OF w(2)] by auto
  have "w' = z"
    using split_on_Cons [OF w'(2)] by simp
  then show "v = semver a b c \<and> a \<le> u64_max \<and> b \<le> u64_max \<and> c \<le> u64_max"
    using n w(1) w'(1) unfolding semver_part_Some semver_def by blast
next
  assume v: "v = semver a b c \<and> a \<le> u64_max \<and> b \<le> u64_max \<and> c \<le> u64_max"
  have "split_on CHR ''.'' (semver a b c) = [show_nat a, show_nat b, show_nat c]"
    unfolding semver_def by (simp only: split_on_append split_on_single dot_show_nat not_False_eq_True)
  moreover have "semver_part (show_nat a) = Some a" "semver_part (show_nat b) = Some b"
    "semver_part (show_nat c) = Some c"
    using v unfolding semver_part_Some by blast+
  ultimately show "parse_semver v = Some (a, b, c)"
    using v by (simp add: parse_semver_def)
qed

text \<open>The gate of a binding with a canonical version lets exactly its own major and minor pass.\<close>

lemma version_gate_iff:
  assumes "s0 \<le> u64_max" "s1 \<le> u64_max" "s2 \<le> u64_max"
  shows "validate_protocol_version p (semver s0 s1 s2) md = Inr () \<longleftrightarrow>
    (\<exists>c2\<le>u64_max. md_get md PROTOCOL_VERSION_KEY = Some (semver s0 s1 c2))"
proof -
  have s: "parse_semver (semver s0 s1 c) = Some (s0, s1, c)" "semver s0 s1 c \<noteq> []" if "c \<le> u64_max" for c
    using assms that parse_semver_Some [of "semver s0 s1 c" s0 s1 c] by (blast, simp add: semver_def)
  show ?thesis
  proof
    assume g: "validate_protocol_version p (semver s0 s1 s2) md = Inr ()"
    then obtain v t where v: "md_get md PROTOCOL_VERSION_KEY = Some v" "parse_semver v = Some t"
      using s(2) [OF assms(3)] unfolding validate_protocol_version_def
      by (auto split: option.split_asm)
    obtain a b c where t: "t = (a, b, c)"
      by (cases t)
    then have "a = s0 \<and> b = s1"
      using g v s [OF assms(3)] by (auto simp: validate_protocol_version_def split: if_split_asm)
    then have "v = semver s0 s1 c \<and> c \<le> u64_max"
      using v(2) t parse_semver_Some [of v s0 s1 c] by blast
    then show "\<exists>c2\<le>u64_max. md_get md PROTOCOL_VERSION_KEY = Some (semver s0 s1 c2)"
      using v(1) by blast
  next
    assume "\<exists>c2\<le>u64_max. md_get md PROTOCOL_VERSION_KEY = Some (semver s0 s1 c2)"
    then show "validate_protocol_version p (semver s0 s1 s2) md = Inr ()"
      using s assms(3) by (auto simp: validate_protocol_version_def)
  qed
qed

section \<open>Facts about routing\<close>

lemma register_names_ok:
  "register_names seen names = Done (Inr ()) \<Longrightarrow>
     distinct names \<and> set names \<inter> set seen = {} \<and> (\<forall>n\<in>set names. validate_protocol_name n False = Done (Inr ()))"
proof (induction names arbitrary: seen)
  case (Cons n names)
  then have "validate_protocol_name n False = Done (Inr ())" "n \<notin> set seen"
    "register_names (n # seen) names = Done (Inr ())"
    by (auto simp: on_done_def split: outcome.split_asm sum.split_asm if_split_asm)
  then show ?case
    using Cons.IH [of "n # seen"] by auto
qed simp

lemma valid_application_name:
  "validate_protocol_name n False = Done (Inr ()) \<Longrightarrow> \<not> prefix RESERVED_PROTOCOL_PREFIX n"
  by (auto simp: validate_protocol_name_def Let_def split: if_split_asm)

lemma validate_reserved_ok:
  "validate_protocol_name n True = Done (Inr u) \<Longrightarrow> is_valid_name n \<and> length n \<le> MAX_PROTOCOL_NAME_BYTES"
  by (auto simp: validate_protocol_name_def Let_def split: if_split_asm)

lemma route_Inr:
  assumes "route sv protocol = Done (Inr bnd)"
  shows "protocol \<noteq> []" "resolve_binding sv protocol = Some bnd" "is_valid_name protocol"
    "length protocol \<le> MAX_PROTOCOL_NAME_BYTES"
proof -
  from assms show p: "protocol \<noteq> []"
    by (auto simp: route_def Let_def)
  then obtain v where v: "validate_protocol_name protocol True = Done v"
    using assms by (cases "validate_protocol_name protocol True") (simp_all add: route_def Let_def)
  then obtain u where u: "v = Inr u" "resolve_binding sv protocol = Some bnd"
    using assms p by (cases v) (simp_all add: route_def Let_def ok_or_Inr_iff)
  then show "resolve_binding sv protocol = Some bnd" "is_valid_name protocol"
    "length protocol \<le> MAX_PROTOCOL_NAME_BYTES"
    using v validate_reserved_ok by auto
qed

lemma resolve_binding_Some:
  assumes "resolve_binding sv protocol = Some bnd"
  shows "hp_name bnd = protocol"
    "bnd = \<lparr> hp_name = sv_protocol_name sv, hp_version = sv_protocol_version sv, hp_methods = sv_methods sv \<rparr>
     \<or> bnd \<in> set (sv_extra_protocols sv)
     \<or> (protocol = IDENTITY_PROTOCOL_NAME \<and> sv_identity sv = Some (hp_methods bnd) \<and> hp_version bnd = [])"
  using assms
  by (auto simp: resolve_binding_def find_Some_iff split: if_split_asm option.split_asm)

lemma dispatch_request_Invoke:
  assumes "dispatch_request ss shm sv b md = Done (Invoke bnd info req)"
  shows "request_from_read_batch b md True = Inr req" "route sv (rq_protocol req) = Done (Inr bnd)"
    "dispatch_bound ss sv req bnd = Invoke bnd info req"
proof -
  obtain q where q: "request_from_read_batch b md True = Inr q"
    using assms by (cases "request_from_read_batch b md True") (simp_all add: dispatch_request_def)
  obtain r where r: "route sv (rq_protocol q) = Done r"
    using assms q by (cases "route sv (rq_protocol q)") (simp_all add: dispatch_request_def Let_def split: if_split_asm)
  obtain bn where bn: "r = Inr bn"
    using assms q r by (cases r) (simp_all add: dispatch_request_def Let_def split: if_split_asm)
  have d: "dispatch_bound ss sv q bn = Invoke bnd info req"
    using assms q r bn by (simp add: dispatch_request_def Let_def split: if_split_asm)
  then have "bn = bnd \<and> q = req"
    by (auto simp: dispatch_bound_def Let_def split: sum.split_asm option.split_asm)
  then show "request_from_read_batch b md True = Inr req" "route sv (rq_protocol req) = Done (Inr bnd)"
    "dispatch_bound ss sv req bnd = Invoke bnd info req"
    using q r bn d by simp_all
qed

lemma request_from_read_batch_Inr:
  assumes "request_from_read_batch b md True = Inr req"
  shows "md_get md RPC_METHOD_KEY = Some (rq_method req)" "rq_protocol req = md_or_empty md PROTOCOL_KEY"
    "rq_batch req = b" "rq_metadata req = md"
  using assms
  by (auto simp: request_from_read_batch_def and_then_Inr_iff ok_or_Inr_iff split: if_split_asm)

lemma dispatch_bound_Invoke:
  assumes "dispatch_bound ss sv req bnd = Invoke bnd' info req'"
  shows "validate_protocol_version (hp_name bnd) (hp_version bnd) (rq_metadata req) = Inr ()"
    "map_of (hp_methods bnd) (rq_method req) = Some info"
    "bt_fields (rq_batch req) = mi_params_schema info" "bt_fields (rq_batch req) \<noteq> [] \<longrightarrow> bt_rows (rq_batch req) = 1"
  using assms
  by (auto simp: dispatch_bound_def validate_parameter_batch_def Let_def
      split: sum.split_asm option.split_asm if_split_asm)

definition application_names :: "'f rpc_server \<Rightarrow> string list" where
  "application_names sv = sv_protocol_name sv # map hp_name (sv_extra_protocols sv)"

lemma dispatch_panic:
  "dispatch_request show_schema shm sv b md = Panic \<longleftrightarrow>
    (\<exists>req. request_from_read_batch b md True = Inr req
      \<and> rq_method req \<noteq> TRANSPORT_OPTIONS_METHOD_NAME \<and> rq_method req \<noteq> RETIRED_DESCRIBE_METHOD
      \<and> MAX_PROTOCOL_NAME_BYTES < length (rq_protocol req) \<and> \<not> is_char_boundary (rq_protocol req) 64)"
proof -
  have v: "validate_protocol_name n True = Panic \<longleftrightarrow> MAX_PROTOCOL_NAME_BYTES < length n \<and> \<not> is_char_boundary n 64" for n
    by (auto simp: validate_protocol_name_def Let_def MAX_PROTOCOL_NAME_BYTES_def)
  have "route sv n = Panic \<longleftrightarrow> MAX_PROTOCOL_NAME_BYTES < length n \<and> \<not> is_char_boundary n 64" for n
    using v [of n] by (cases "validate_protocol_name n True") (auto simp: route_def Let_def)
  moreover have "\<not> MAX_PROTOCOL_NAME_BYTES < length REFLECTION_PROTOCOL_NAME"
    by (simp add: REFLECTION_PROTOCOL_NAME_def MAX_PROTOCOL_NAME_BYTES_def)
  moreover have "dispatch_request show_schema shm sv b md = Panic \<longleftrightarrow>
      rq_method req \<noteq> TRANSPORT_OPTIONS_METHOD_NAME \<and> rq_method req \<noteq> RETIRED_DESCRIBE_METHOD
      \<and> rq_protocol req \<noteq> REFLECTION_PROTOCOL_NAME \<and> route sv (rq_protocol req) = Panic"
    if "request_from_read_batch b md True = Inr req" for req
    using that by (cases "route sv (rq_protocol req)") (simp_all add: dispatch_request_def Let_def split: sum.split)
  moreover have "dispatch_request show_schema shm sv b md \<noteq> Panic" if "request_from_read_batch b md True = Inl e" for e
    using that by (simp add: dispatch_request_def)
  ultimately show ?thesis
    by (cases "request_from_read_batch b md True") (simp, metis sum.inject(2))
qed

section \<open>A concrete server\<close>

definition demo_method :: "nat method_info" where
  "demo_method = \<lparr> mi_name = ''echo'', mi_method_type = Unary, mi_params_schema = [1], mi_result_schema = [2],
     mi_header_schema = None, mi_declared_stream_kind = [] \<rparr>"

definition demo_server :: "nat rpc_server" where
  "demo_server = \<lparr> sv_server_id = ''s'', sv_omit_tracebacks = False, sv_protocol_name = ''demo.Echo'',
     sv_protocol_version = semver 1 2 0, sv_methods = [(''echo'', demo_method)], sv_extra_protocols = [],
     sv_identity = None \<rparr>"

definition demo_call :: "string \<Rightarrow> metadata" where
  "demo_call protocol =
     [(RPC_METHOD_KEY, ''echo''), (REQUEST_VERSION_KEY, REQUEST_VERSION), (PROTOCOL_KEY, protocol),
      (PROTOCOL_VERSION_KEY, semver 1 2 5)]"

definition demo_batch :: "nat batch" where
  "demo_batch = \<lparr> bt_fields = [1], bt_rows = 1 \<rparr>"

definition demo_request :: "string \<Rightarrow> nat request" where
  "demo_request protocol = \<lparr> rq_method = ''echo'', rq_protocol = protocol, rq_request_id = [],
     rq_batch = demo_batch, rq_metadata = demo_call protocol \<rparr>"

definition demo_binding :: "nat hosted_protocol" where
  "demo_binding = \<lparr> hp_name = ''demo.Echo'', hp_version = semver 1 2 0, hp_methods = [(''echo'', demo_method)] \<rparr>"

lemma demo_request_read: "request_from_read_batch demo_batch (demo_call protocol) True = Inr (demo_request protocol)"
  by (simp add: request_from_read_batch_def demo_call_def demo_request_def demo_batch_def md_contains_def md_get_def
      md_or_empty_def key_defs INVALID_UTF8_METADATA_KEY_def)

lemma demo_name: "validate_protocol_name ''demo.Echo'' reserved = Done (Inr ())"
  by (simp add: validate_protocol_name_def MAX_PROTOCOL_NAME_BYTES_def is_valid_name_def is_ascii_alphabetic_def
      RESERVED_PROTOCOL_PREFIX_def)

lemma demo_dispatch:
  "dispatch_request (\<lambda>_. []) False demo_server demo_batch (demo_call ''demo.Echo'') =
     Done (Invoke demo_binding demo_method (demo_request ''demo.Echo''))"
proof -
  have "resolve_binding demo_server ''demo.Echo'' = Some demo_binding"
    by (simp add: resolve_binding_def demo_server_def demo_binding_def)
  then have r: "route demo_server ''demo.Echo'' = Done (Inr demo_binding)"
    by (simp add: route_def demo_name)
  have "md_get (demo_call ''demo.Echo'') PROTOCOL_VERSION_KEY = Some (semver 1 2 5)"
    by (simp add: demo_call_def md_get_def key_defs)
  then have "validate_protocol_version p (semver 1 2 0) (demo_call ''demo.Echo'') = Inr ()" for p
    by (subst version_gate_iff) (auto simp: u64_max_def intro!: exI [of _ 5])
  then have "dispatch_bound (\<lambda>_. []) demo_server (demo_request ''demo.Echo'') demo_binding =
      Invoke demo_binding demo_method (demo_request ''demo.Echo'')"
    by (simp add: dispatch_bound_def demo_binding_def demo_request_def demo_method_def demo_batch_def
        validate_parameter_batch_def)
  then show ?thesis
    using r
    by (simp add: dispatch_request_def demo_request_read demo_request_def TRANSPORT_OPTIONS_METHOD_NAME_def
        RETIRED_DESCRIBE_METHOD_def REFLECTION_PROTOCOL_NAME_def)
qed

text \<open>A valid UTF-8 name that makes the dispatch panic.\<close>

definition demo_long_name :: string where
  "demo_long_name = replicate 63 CHR ''a'' @ of_bytes [0xC3, 0xA9] @ replicate 200 CHR ''a''"

lemma utf8_valid_ascii_append: "\<forall>b\<in>set as. b < 0x80 \<Longrightarrow> utf8_valid (as @ bs) \<longleftrightarrow> utf8_valid bs"
proof (induction as)
  case (Cons a as)
  then show ?case
    by (subst utf8_valid.simps) (simp add: utf8_next_def seq_width_def Let_def)
qed simp

lemma demo_long_name_ok: "str_ok demo_long_name"
proof -
  have a: "byte_of CHR ''a'' < 0x80"
    by (simp add: byte_of_def)
  then have "utf8_valid (as_bytes (replicate 200 CHR ''a''))"
    by (intro utf8_valid_ascii) (simp add: as_bytes_def)
  then have "utf8_valid ([0xC3, 0xA9] @ as_bytes (replicate 200 CHR ''a''))"
    by (subst utf8_valid.simps) (simp add: utf8_next_def seq_width_def second_ok_def cont_def Let_def)
  then show ?thesis
    using a by (simp add: str_ok_def demo_long_name_def utf8_valid_ascii_append as_bytes_def of_bytes_def)
qed

section \<open>Properties\<close>

text \<open>C4. A method runs only when the request addressed it: the request names a protocol of a well-formed name
  that the server hosts, the method is the one of that protocol's own table under the requested name, the
  parameter batch has exactly the declared fields and one row, and a binding with a canonical version was
  called by a client of the same major and minor. On a server whose names passed registration, a name
  under the reserved prefix reaches the framework's identity methods only.
\<close>
theorem invoked_method_is_the_addressed_one:
  assumes d: "dispatch_request show_schema shm sv b md = Done (Invoke bnd info req)"
    and r: "register_names [] (application_names sv) = Done (Inr ())"
  shows "md_get md PROTOCOL_KEY = Some (hp_name bnd) \<and> is_valid_name (hp_name bnd)
    \<and> resolve_binding sv (hp_name bnd) = Some bnd
    \<and> md_get md RPC_METHOD_KEY = Some (rq_method req)
    \<and> map_of (hp_methods bnd) (rq_method req) = Some info
    \<and> bt_fields b = mi_params_schema info \<and> (bt_fields b \<noteq> [] \<longrightarrow> bt_rows b = 1)
    \<and> (\<forall>s0 s1 s2. s0 \<le> u64_max \<and> s1 \<le> u64_max \<and> s2 \<le> u64_max \<and> hp_version bnd = semver s0 s1 s2 \<longrightarrow>
        (\<exists>c2\<le>u64_max. md_get md PROTOCOL_VERSION_KEY = Some (semver s0 s1 c2)))
    \<and> (prefix RESERVED_PROTOCOL_PREFIX (hp_name bnd) \<longrightarrow>
        hp_name bnd = IDENTITY_PROTOCOL_NAME \<and> sv_identity sv = Some (hp_methods bnd))"
proof -
  note i = dispatch_request_Invoke [OF d]
  note q = request_from_read_batch_Inr [OF i(1)]
  note o = route_Inr [OF i(2)]
  note b = resolve_binding_Some [OF o(2)]
  note v = dispatch_bound_Invoke [OF i(3)]
  have p: "md_get md PROTOCOL_KEY = Some (hp_name bnd)"
    using q(2) o(1) b(1) by (simp add: md_or_empty_def split: option.split_asm)
  have "hp_name bnd \<notin> set (application_names sv)" if "prefix RESERVED_PROTOCOL_PREFIX (hp_name bnd)"
    using register_names_ok [OF r] that valid_application_name by blast
  then have "hp_name bnd = IDENTITY_PROTOCOL_NAME \<and> sv_identity sv = Some (hp_methods bnd)"
    if "prefix RESERVED_PROTOCOL_PREFIX (hp_name bnd)"
    using b(2) b(1) [symmetric] that by (auto simp: application_names_def)
  moreover have "\<exists>c2\<le>u64_max. md_get md PROTOCOL_VERSION_KEY = Some (semver s0 s1 c2)"
    if "s0 \<le> u64_max" "s1 \<le> u64_max" "s2 \<le> u64_max" "hp_version bnd = semver s0 s1 s2" for s0 s1 s2
    using v(1) version_gate_iff [OF that(1-3)] that(4) q(4) by simp
  moreover have "resolve_binding sv (hp_name bnd) = Some bnd" "is_valid_name (hp_name bnd)"
    "bt_fields b = mi_params_schema info" "bt_fields b \<noteq> [] \<longrightarrow> bt_rows b = 1"
    using o(2,3) v(3,4) b(1) q(3) by simp_all
  ultimately show ?thesis
    using p q(1) v(2) by (intro conjI) blast+
qed

theorem invoked_method_is_the_addressed_one_witness:
  "md_get (demo_call ''demo.Echo'') PROTOCOL_KEY = Some (hp_name demo_binding)
    \<and> map_of (hp_methods demo_binding) ''echo'' = Some demo_method"
proof -
  have r: "register_names [] (application_names demo_server) = Done (Inr ())"
    by (simp add: application_names_def demo_server_def demo_name)
  show ?thesis
    using invoked_method_is_the_addressed_one [OF demo_dispatch r] by (simp add: demo_request_def)
qed

text \<open>C36. Deciding what a request gets never fails but for one input: a protocol name of more than 255 bytes with
  a multi-byte character across its 64th byte, whose error message is cut inside the character. The
  request is read off the wire, so a client can choose the name.
\<close>
theorem dispatch_panics_iff:
  "(dispatch_request show_schema shm sv b md = Panic \<longleftrightarrow>
    (\<exists>req. request_from_read_batch b md True = Inr req
      \<and> rq_method req \<noteq> TRANSPORT_OPTIONS_METHOD_NAME \<and> rq_method req \<noteq> RETIRED_DESCRIBE_METHOD
      \<and> MAX_PROTOCOL_NAME_BYTES < length (rq_protocol req) \<and> \<not> is_char_boundary (rq_protocol req) 64))
   \<and> dispatch_request (\<lambda>_. []) False demo_server demo_batch (demo_call demo_long_name) = Panic
   \<and> str_ok demo_long_name"
proof -
  have "demo_long_name ! 64 = char_of_byte 0xA9"
    by (simp add: demo_long_name_def of_bytes_def nth_append)
  then have "\<not> is_char_boundary demo_long_name 64"
    by (simp add: is_char_boundary_def cont_def demo_long_name_def of_bytes_def)
  moreover have "length demo_long_name = 265"
    by (simp add: demo_long_name_def)
  ultimately show ?thesis
    using demo_long_name_ok
    by (simp add: dispatch_panic demo_request_read demo_request_def TRANSPORT_OPTIONS_METHOD_NAME_def
        RETIRED_DESCRIBE_METHOD_def MAX_PROTOCOL_NAME_BYTES_def)
qed

end
