(* ===== verification/State_Token.thy ===== *)
theory State_Token
  imports Sticky
begin

text \<open>
  The stream tokens of \<^verbatim>\<open>vgi-rpc/src/http.rs\<close>: a cursor token carries the state of a stream between two
  requests, a call token the part that is fixed for the life of the stream, and a cache on each worker
  spares opening the latter. Both are sealed under associated data computed from the caller's identity.
  The zstd crate is the pair of functions \<open>compress\<close> and \<open>decompress\<close> (the latter bounded by
  \<open>MAX_TOKEN_PLAINTEXT_BYTES\<close>); nonces and the clock in seconds are arguments. The reader's position in a
  plaintext is the part that is still to be read.
\<close>

section \<open>Associated data\<close>

definition peer_evidence_binding :: "auth_context \<Rightarrow> string option" where
  "peer_evidence_binding ctx =
     (case map_of (ac_claims ctx) ''peer_evidence_binding'' of
        Some v \<Rightarrow> if v \<noteq> [] then Some v else None
      | None \<Rightarrow> None)"

definition compute_aad_with :: "bytes \<Rightarrow> auth_context \<Rightarrow> bytes" where
  "compute_aad_with pre ctx =
     (let tail = (case peer_evidence_binding ctx of None \<Rightarrow> [] | Some b \<Rightarrow> 0 # as_bytes b) in
      if \<not> ac_authenticated ctx then pre @ (0 # as_bytes ''anonymous'') @ tail
      else pre @ (1 # as_bytes (ac_domain ctx)) @ (0 # as_bytes (ac_principal ctx)) @ tail)"

definition compute_aad :: "auth_context \<Rightarrow> bytes" where
  "compute_aad ctx =
     compute_aad_with
       ((if peer_evidence_binding ctx \<noteq> None then as_bytes ''vgi_rpc.state.v5'' else as_bytes ''vgi_rpc.state.v4'') @ [0])
       ctx"

definition compute_call_aad :: "auth_context \<Rightarrow> bytes" where
  "compute_call_aad ctx =
     compute_aad_with
       ((if peer_evidence_binding ctx \<noteq> None then as_bytes ''vgi_rpc.call.v2'' else as_bytes ''vgi_rpc.call.v1'') @ [0])
       ctx"

section \<open>Payloads\<close>

definition CURSOR_TOKEN_VERSION :: byte where "CURSOR_TOKEN_VERSION = 6"
definition CALL_TOKEN_VERSION :: byte where "CALL_TOKEN_VERSION = 2"
definition CALL_ID_LEN :: nat where "CALL_ID_LEN = 16"
definition TOKEN_CODEC_RAW :: byte where "TOKEN_CODEC_RAW = 0"
definition TOKEN_CODEC_ZSTD :: byte where "TOKEN_CODEC_ZSTD = 1"
definition MAX_TOKEN_PLAINTEXT_BYTES :: nat where "MAX_TOKEN_PLAINTEXT_BYTES = 64 * 2 ^ 20"
definition MAX_CLOCK_SKEW_SECS :: nat where "MAX_CLOCK_SKEW_SECS = 60"

record zstd_api =
  z_compress :: "bytes \<Rightarrow> bytes option"
  z_decompress :: "bytes \<Rightarrow> bytes option"

definition pack_token_payload :: "zstd_api \<Rightarrow> bytes \<Rightarrow> bytes" where
  "pack_token_payload Z plaintext =
     (case z_compress Z plaintext of
        Some packed \<Rightarrow>
          if length packed < length plaintext then TOKEN_CODEC_ZSTD # packed else TOKEN_CODEC_RAW # plaintext
      | None \<Rightarrow> TOKEN_CODEC_RAW # plaintext)"

definition malformed_token :: rpc_error where
  "malformed_token = runtime_error ''Malformed state token''"

definition unpack_token_payload :: "zstd_api \<Rightarrow> bytes \<Rightarrow> bytes rpc_result" where
  "unpack_token_payload Z data =
     (case data of
        [] \<Rightarrow> Inl malformed_token
      | tag # body \<Rightarrow>
          if tag = TOKEN_CODEC_RAW then Inr body
          else if tag = TOKEN_CODEC_ZSTD then ok_or malformed_token (z_decompress Z body)
          else Inl malformed_token)"

record unpacked_cursor =
  uc_state_bytes :: bytes
  uc_call_id :: bytes
  uc_created_at :: nat

record resolved_call =
  rc_output_schema_bytes :: bytes
  rc_input_schema_bytes :: bytes
  rc_stream_id :: string
  rc_response_limit_bytes :: "nat option"
  rc_preferred_response_bytes :: "nat option"

definition segment :: "bytes \<Rightarrow> bytes" where
  "segment bs = le_bytes 4 (length bs) @ bs"

definition cursor_plaintext :: "bytes \<Rightarrow> bytes \<Rightarrow> nat \<Rightarrow> bytes" where
  "cursor_plaintext state_bytes call_id created_at = le_bytes 8 created_at @ call_id @ segment state_bytes"

definition pack_cursor_token ::
  "token_crypto \<Rightarrow> zstd_api \<Rightarrow> bytes \<Rightarrow> bytes \<Rightarrow> bytes \<Rightarrow> bytes \<Rightarrow> bytes \<Rightarrow> nat \<Rightarrow> string" where
  "pack_cursor_token T Z nonce key aad state_bytes call_id created_at =
     seal_base64 T (pack_token_payload Z (cursor_plaintext state_bytes call_id created_at)) key aad
       CURSOR_TOKEN_VERSION nonce"

definition limit_or_zero :: "nat option \<Rightarrow> nat" where
  "limit_or_zero v = (case v of Some n \<Rightarrow> n | None \<Rightarrow> 0)"

definition call_plaintext :: "bytes \<Rightarrow> resolved_call \<Rightarrow> nat \<Rightarrow> bytes" where
  "call_plaintext call_id rc created_at =
     le_bytes 8 created_at @ call_id @ segment (rc_output_schema_bytes rc) @ segment (rc_input_schema_bytes rc)
     @ segment (as_bytes (rc_stream_id rc))
     @ le_bytes 8 (limit_or_zero (rc_response_limit_bytes rc))
     @ le_bytes 8 (limit_or_zero (rc_preferred_response_bytes rc))"

definition pack_call_token ::
  "token_crypto \<Rightarrow> zstd_api \<Rightarrow> bytes \<Rightarrow> bytes \<Rightarrow> bytes \<Rightarrow> bytes \<Rightarrow> resolved_call \<Rightarrow> nat \<Rightarrow> string" where
  "pack_call_token T Z nonce key aad call_id rc created_at =
     seal_base64 T (pack_token_payload Z (call_plaintext call_id rc created_at)) key aad CALL_TOKEN_VERSION nonce"

section \<open>Opening\<close>

text \<open>The check of \<^verbatim>\<open>created_at\<close> against the lifetime, in seconds, and the clock.\<close>

definition check_token_age :: "nat option \<Rightarrow> nat \<Rightarrow> nat \<Rightarrow> unit rpc_result" where
  "check_token_age ttl now created_at =
     (case ttl of
        None \<Rightarrow> Inr ()
      | Some secs \<Rightarrow>
          if created_at < now \<and> secs < now - created_at then Inl (runtime_error ''State token expired'')
          else if now < created_at \<and> MAX_CLOCK_SKEW_SECS < created_at - now
          then Inl (runtime_error ''State token timestamp is implausibly in the future'')
          else Inr ())"

definition open_token_plaintext ::
  "token_crypto \<Rightarrow> zstd_api \<Rightarrow> nat \<Rightarrow> bytes \<Rightarrow> bytes \<Rightarrow> string \<Rightarrow> byte \<Rightarrow> nat option \<Rightarrow> (bytes \<times> nat) rpc_result" where
  "open_token_plaintext T Z now key aad token version ttl =
     and_then (ok_or malformed_token (tc_b64_decode T token)) (\<lambda>raw.
     and_then (ok_or (runtime_error ''State token signature verification failed'')
       (open_bytes T raw key aad version)) (\<lambda>sealed.
     and_then (unpack_token_payload Z sealed) (\<lambda>plaintext.
       if length plaintext < 8 + CALL_ID_LEN then Inl malformed_token
       else
         let created_at = of_le (take 8 plaintext) in
         and_then (check_token_age ttl now created_at) (\<lambda>_. Inr (plaintext, created_at)))))"

definition read_segment :: "bytes \<Rightarrow> (bytes \<times> bytes) rpc_result" where
  "read_segment buf =
     (if length buf < 4 then Inl malformed_token
      else
        let len = of_le (take 4 buf); rest = drop 4 buf in
        if length rest < len then Inl malformed_token
        else Inr (take len rest, drop len rest))"

definition unpack_cursor_token ::
  "token_crypto \<Rightarrow> zstd_api \<Rightarrow> nat \<Rightarrow> bytes \<Rightarrow> bytes \<Rightarrow> string \<Rightarrow> nat option \<Rightarrow> unpacked_cursor rpc_result" where
  "unpack_cursor_token T Z now key aad token ttl =
     and_then (open_token_plaintext T Z now key aad token CURSOR_TOKEN_VERSION ttl) (\<lambda>(plaintext, created_at).
     and_then (read_segment (drop (8 + CALL_ID_LEN) plaintext)) (\<lambda>(state_bytes, rest).
       if rest \<noteq> [] then Inl malformed_token
       else Inr \<lparr> uc_state_bytes = state_bytes, uc_call_id = subslice 8 (8 + CALL_ID_LEN) plaintext,
              uc_created_at = created_at \<rparr>))"

text \<open>A \<^verbatim>\<open>u64\<close> limit of zero stands for none; it always fits the \<^verbatim>\<open>usize\<close> of a 64-bit target.\<close>

definition limit_of :: "bytes \<Rightarrow> nat option" where
  "limit_of bs = (let n = of_le bs in if n \<noteq> 0 then Some n else None)"

definition unpack_call_token ::
  "token_crypto \<Rightarrow> zstd_api \<Rightarrow> nat \<Rightarrow> bytes \<Rightarrow> bytes \<Rightarrow> string \<Rightarrow> nat option \<Rightarrow> (bytes \<times> resolved_call) rpc_result" where
  "unpack_call_token T Z now key aad token ttl =
     and_then (open_token_plaintext T Z now key aad token CALL_TOKEN_VERSION ttl) (\<lambda>(plaintext, _).
     and_then (read_segment (drop (8 + CALL_ID_LEN) plaintext)) (\<lambda>(output, rest).
     and_then (read_segment rest) (\<lambda>(input, rest).
     and_then (read_segment rest) (\<lambda>(sid_bytes, rest).
     and_then (ok_or malformed_token (from_utf8 sid_bytes)) (\<lambda>stream_id.
       if length rest \<noteq> 16 then Inl malformed_token
       else Inr (subslice 8 (8 + CALL_ID_LEN) plaintext,
              \<lparr> rc_output_schema_bytes = output, rc_input_schema_bytes = input, rc_stream_id = stream_id,
                rc_response_limit_bytes = limit_of (take 8 rest),
                rc_preferred_response_bytes = limit_of (drop 8 rest) \<rparr>))))))"

section \<open>The cache of a worker\<close>

record token_state =
  ts_token_key :: bytes
  ts_token_ttl :: nat
  ts_cache_entries :: nat
  ts_call_states :: "(string \<times> nat \<times> resolved_call) list"

text \<open>The lifetime in whole seconds; a configured zero (in nanoseconds) switches the check off.\<close>

definition token_ttl_opt :: "token_state \<Rightarrow> nat option" where
  "token_ttl_opt s = (if ts_token_ttl s = 0 then None else Some (ts_token_ttl s div 1000000000))"

definition cache_identity :: "auth_context \<Rightarrow> string" where
  "cache_identity ctx =
     (if \<not> ac_authenticated ctx then NUL # ''anonymous'' else ac_domain ctx @ NUL # ac_principal ctx)
     @ (case peer_evidence_binding ctx of Some b \<Rightarrow> NUL # b | None \<Rightarrow> [])"

definition cache_key :: "auth_context \<Rightarrow> bytes \<Rightarrow> string" where
  "cache_key ctx call_id =
     ''['' @ join '', '' (map (\<lambda>b. bytes_to_hex [b]) call_id) @ '']'' @ NUL # cache_identity ctx"

definition cache_call :: "nat \<Rightarrow> auth_context \<Rightarrow> bytes \<Rightarrow> resolved_call \<Rightarrow> token_state \<Rightarrow> token_state" where
  "cache_call now ctx call_id rc s =
     (if ts_cache_entries s = 0 then s
      else
        let key = cache_key ctx call_id;
            kept = (if ts_cache_entries s \<le> length (ts_call_states s) \<and> map_of (ts_call_states s) key = None
                    then [] else ts_call_states s)
        in s\<lparr> ts_call_states := AList.update key (now, rc) kept \<rparr>)"

definition state_pack_cursor_token ::
  "token_crypto \<Rightarrow> zstd_api \<Rightarrow> nat \<Rightarrow> bytes \<Rightarrow> auth_context \<Rightarrow> bytes \<Rightarrow> bytes \<Rightarrow> token_state \<Rightarrow> string" where
  "state_pack_cursor_token T Z now nonce ctx state_bytes call_id s =
     pack_cursor_token T Z nonce (ts_token_key s) (compute_aad ctx) state_bytes call_id now"

definition state_pack_call_token ::
  "token_crypto \<Rightarrow> zstd_api \<Rightarrow> nat \<Rightarrow> nat \<Rightarrow> bytes \<Rightarrow> auth_context \<Rightarrow> bytes \<Rightarrow> resolved_call \<Rightarrow> token_state
   \<Rightarrow> string \<times> token_state" where
  "state_pack_call_token T Z now now' nonce ctx call_id rc s =
     (pack_call_token T Z nonce (ts_token_key s) (compute_call_aad ctx) call_id rc now,
      cache_call now' ctx call_id rc s)"

definition state_unpack_cursor_token ::
  "token_crypto \<Rightarrow> zstd_api \<Rightarrow> nat \<Rightarrow> auth_context \<Rightarrow> string \<Rightarrow> token_state \<Rightarrow> unpacked_cursor rpc_result" where
  "state_unpack_cursor_token T Z now ctx token s =
     unpack_cursor_token T Z now (ts_token_key s) (compute_aad ctx) token (token_ttl_opt s)"

definition cached_call :: "nat \<Rightarrow> nat option \<Rightarrow> string \<Rightarrow> token_state \<Rightarrow> resolved_call option \<times> token_state" where
  "cached_call now ttl key s =
     (case map_of (ts_call_states s) key of
        None \<Rightarrow> (None, s)
      | Some (stored_at, rc) \<Rightarrow>
          let fresh = (case ttl of Some t \<Rightarrow> now - stored_at \<le> t | None \<Rightarrow> True) in
          if fresh then (Some rc, s)
          else (None, s\<lparr> ts_call_states := AList.delete key (ts_call_states s) \<rparr>))"

text \<open>The clock is read up to three times: for the lookup, for the token's age and for the new entry.\<close>

definition resolve_call ::
  "token_crypto \<Rightarrow> zstd_api \<Rightarrow> nat \<times> nat \<times> nat \<Rightarrow> auth_context \<Rightarrow> unpacked_cursor \<Rightarrow> string option \<Rightarrow> token_state
   \<Rightarrow> resolved_call rpc_result \<times> token_state" where
  "resolve_call T Z clock ctx cursor call_token s =
     (let ttl = token_ttl_opt s; (looked_up, opened, stored) = clock in
      case cached_call looked_up ttl (cache_key ctx (uc_call_id cursor)) s of
        (Some rc, s) \<Rightarrow> (Inr rc, s)
      | (None, s) \<Rightarrow>
          (case call_token of
             None \<Rightarrow> (Inl (runtime_error ''Missing call token in exchange request''), s)
           | Some token \<Rightarrow>
               (case unpack_call_token T Z opened (ts_token_key s) (compute_call_aad ctx) token ttl of
                  Inl e \<Rightarrow> (Inl e, s)
                | Inr (call_id, rc) \<Rightarrow>
                    if call_id \<noteq> uc_call_id cursor then (Inl malformed_token, s)
                    else (Inr rc, cache_call stored ctx (uc_call_id cursor) rc s))))"

section \<open>Tokens\<close>

text \<open>The contract of the zstd crate.\<close>

definition zstd_ok :: "zstd_api \<Rightarrow> bool" where
  "zstd_ok Z =
     (\<forall>p q. z_compress Z p = Some q \<and> length p \<le> MAX_TOKEN_PLAINTEXT_BYTES \<longrightarrow> z_decompress Z q = Some p)"

lemma unpack_packed_payload:
  "zstd_ok Z \<Longrightarrow> length p \<le> MAX_TOKEN_PLAINTEXT_BYTES \<Longrightarrow> unpack_token_payload Z (pack_token_payload Z p) = Inr p"
  by (auto simp: pack_token_payload_def unpack_token_payload_def zstd_ok_def TOKEN_CODEC_RAW_def
      TOKEN_CODEC_ZSTD_def split: option.split)

lemma read_segment_segment:
  assumes "length bs < 2 ^ 32"
  shows "read_segment (segment bs @ r) = Inr (bs, r)"
proof -
  have "of_le (le_bytes 4 (length bs)) = length bs"
    using assms by (intro of_le_le_bytes) simp
  then show ?thesis
    by (simp add: read_segment_def segment_def)
qed

lemma open_packed_plaintext:
  assumes "aead_ok T" "base64_ok T" "zstd_ok Z" "length nonce = NONCE_LEN"
    and "created_at < 2 ^ 64" "length call_id = CALL_ID_LEN"
    and "length (le_bytes 8 created_at @ call_id @ r) \<le> MAX_TOKEN_PLAINTEXT_BYTES"
  shows "open_token_plaintext T Z now key aad
      (seal_base64 T (pack_token_payload Z (le_bytes 8 created_at @ call_id @ r)) key aad version nonce) version ttl =
    and_then (check_token_age ttl now created_at) (\<lambda>_. Inr (le_bytes 8 created_at @ call_id @ r, created_at))"
proof -
  have d: "tc_b64_decode T (tc_b64_encode T raw) = Some raw" for raw
    using assms(2) unfolding base64_ok_def by blast
  have "of_le (le_bytes 8 created_at) = created_at"
    using assms(5) by (intro of_le_le_bytes) simp
  then show ?thesis
    unfolding open_token_plaintext_def seal_base64_def
    by (simp add: d open_sealed [OF assms(1,4)] unpack_packed_payload [OF assms(3,7)] assms(6) Let_def)
qed

lemma open_foreign_plaintext:
  assumes "aead_ok T" "aad_binding T" "base64_ok T" "length nonce = NONCE_LEN" "aad \<noteq> aad'"
  shows "open_token_plaintext T Z now key' aad' (seal_base64 T payload key aad version nonce) version' ttl =
    Inl (runtime_error ''State token signature verification failed'')"
proof -
  have "tc_b64_decode T (tc_b64_encode T raw) = Some raw" for raw
    using assms(3) unfolding base64_ok_def by blast
  then show ?thesis
    unfolding open_token_plaintext_def seal_base64_def
    by (simp add: open_other_aad [OF assms(1,2,4,5)])
qed

lemma unpack_packed_cursor:
  assumes "aead_ok T" "base64_ok T" "zstd_ok Z" "length nonce = NONCE_LEN"
    and "created_at < 2 ^ 64" "length call_id = CALL_ID_LEN"
    and "28 + length state_bytes \<le> MAX_TOKEN_PLAINTEXT_BYTES"
  shows "unpack_cursor_token T Z now key aad (pack_cursor_token T Z nonce key aad state_bytes call_id created_at) ttl =
    and_then (check_token_age ttl now created_at)
      (\<lambda>_. Inr \<lparr> uc_state_bytes = state_bytes, uc_call_id = call_id, uc_created_at = created_at \<rparr>)"
proof -
  have "length (cursor_plaintext state_bytes call_id created_at) \<le> MAX_TOKEN_PLAINTEXT_BYTES"
    using assms(6,7) by (simp add: cursor_plaintext_def segment_def CALL_ID_LEN_def)
  note o = open_packed_plaintext [OF assms(1-6) this [unfolded cursor_plaintext_def]]
  have "read_segment (segment state_bytes) = Inr (state_bytes, [])"
    using read_segment_segment [of state_bytes "[]"] assms(7) by (simp add: MAX_TOKEN_PLAINTEXT_BYTES_def)
  then show ?thesis
    unfolding unpack_cursor_token_def pack_cursor_token_def cursor_plaintext_def o
    using assms(6) by (cases "check_token_age ttl now created_at") (simp_all add: subslice_def)
qed

text \<open>The calls that survive a token: what \<^verbatim>\<open>u32\<close> lengths and the encoding of absent limits can carry.\<close>

definition limit_ok :: "nat option \<Rightarrow> bool" where
  "limit_ok v = (case v of None \<Rightarrow> True | Some n \<Rightarrow> 0 < n \<and> n < 2 ^ 64)"

definition call_ok :: "resolved_call \<Rightarrow> bool" where
  "call_ok rc =
     (52 + length (rc_output_schema_bytes rc) + length (rc_input_schema_bytes rc) + length (rc_stream_id rc)
        \<le> MAX_TOKEN_PLAINTEXT_BYTES
      \<and> str_ok (rc_stream_id rc) \<and> limit_ok (rc_response_limit_bytes rc) \<and> limit_ok (rc_preferred_response_bytes rc))"

lemma limit_of_limit: "limit_ok v \<Longrightarrow> limit_of (le_bytes 8 (limit_or_zero v)) = v"
proof (cases v)
  case None
  have "of_le (le_bytes 8 0) = 0" by (rule of_le_le_bytes) simp
  with None show ?thesis by (simp add: limit_of_def limit_or_zero_def)
next
  case (Some n)
  assume "limit_ok v"
  with Some have "of_le (le_bytes 8 n) = n" "0 < n"
    by (auto simp: limit_ok_def intro!: of_le_le_bytes)
  with Some show ?thesis by (simp add: limit_of_def limit_or_zero_def)
qed

lemma unpack_packed_call:
  assumes "aead_ok T" "base64_ok T" "zstd_ok Z" "length nonce = NONCE_LEN"
    and "created_at < 2 ^ 64" "length call_id = CALL_ID_LEN" "call_ok rc"
  shows "unpack_call_token T Z now key aad (pack_call_token T Z nonce key aad call_id rc created_at) ttl =
    and_then (check_token_age ttl now created_at) (\<lambda>_. Inr (call_id, rc))"
proof -
  have "length (call_plaintext call_id rc created_at) \<le> MAX_TOKEN_PLAINTEXT_BYTES"
    using assms(6,7) by (simp add: call_plaintext_def segment_def CALL_ID_LEN_def call_ok_def)
  note o = open_packed_plaintext [OF assms(1-6) this [unfolded call_plaintext_def]]
  have l: "length (rc_output_schema_bytes rc) < 2 ^ 32" "length (rc_input_schema_bytes rc) < 2 ^ 32"
    "length (as_bytes (rc_stream_id rc)) < 2 ^ 32"
    using assms(7) by (simp_all add: call_ok_def MAX_TOKEN_PLAINTEXT_BYTES_def)
  have ok: "str_ok (rc_stream_id rc)" "limit_ok (rc_response_limit_bytes rc)" "limit_ok (rc_preferred_response_bytes rc)"
    using assms(7) by (simp_all add: call_ok_def)
  show ?thesis
    unfolding unpack_call_token_def pack_call_token_def call_plaintext_def o
    using assms(6)
    by (cases "check_token_age ttl now created_at")
      (simp_all add: subslice_def read_segment_segment [OF l(1)] read_segment_segment [OF l(2)]
        read_segment_segment [OF l(3)] ok(1) limit_of_limit [OF ok(2)] limit_of_limit [OF ok(3)])
qed

section \<open>Whom a token belongs to\<close>

lemma peer_evidence_binding_eq: "peer_evidence_binding ctx = evidence_binding ctx"
  by (simp add: peer_evidence_binding_def evidence_binding_def)

lemma token_identity_cong:
  assumes "session_identity a = session_identity b"
  shows "compute_aad a = compute_aad b" "compute_call_aad a = compute_call_aad b" "cache_key a = cache_key b"
  using assms
  by (auto simp: session_identity_def compute_aad_def compute_call_aad_def compute_aad_with_def cache_key_def
      cache_identity_def peer_evidence_binding_eq fun_eq_iff Let_def split: if_split_asm)

lemma aad_with_inj:
  assumes "compute_aad_with (pre @ [0]) a = compute_aad_with (pre @ [0]) b" "nul_free a" "nul_free b"
    and "evidence_binding a \<noteq> None \<longleftrightarrow> evidence_binding b \<noteq> None"
  shows "session_identity a = session_identity b"
proof -
  have n: "0 \<notin> set (as_bytes s)" if "NUL \<notin> set s" for s
    using that by (auto simp: as_bytes_def byte_of_0)
  show ?thesis
    using assms n [of "ac_domain a"] n [of "ac_domain b"] n [of "ac_principal a"] n [of "ac_principal b"]
    by (cases "evidence_binding a"; cases "evidence_binding b")
      (auto simp: compute_aad_with_def peer_evidence_binding_eq session_identity_def Let_def nul_free_def
        split_at_0 inj_as_bytes split: if_split_asm)
qed

lemma versioned_aad_inj:
  fixes v w :: bytes
  assumes e: "compute_aad_with ((if evidence_binding a \<noteq> None then w else v) @ [0]) a =
      compute_aad_with ((if evidence_binding b \<noteq> None then w else v) @ [0]) b"
    and "length v = length w" "v \<noteq> w" "nul_free a" "nul_free b"
  shows "session_identity a = session_identity b"
proof -
  have p: "take (length u) (compute_aad_with (u @ [0]) ctx) = u" for u ctx
    by (simp add: compute_aad_with_def Let_def)
  have "evidence_binding a \<noteq> None \<longleftrightarrow> evidence_binding b \<noteq> None"
    using arg_cong [OF e, of "take (length v)"] p [of v] p [of w] assms(2,3) by (auto split: if_split_asm)
  then show ?thesis
    using e aad_with_inj [OF _ assms(4,5)] by (auto split: if_split_asm)
qed

lemma aad_inj:
  assumes "compute_aad a = compute_aad b" "nul_free a" "nul_free b"
  shows "session_identity a = session_identity b"
  using assms(1) [unfolded compute_aad_def peer_evidence_binding_eq] _ _ assms(2,3)
  by (rule versioned_aad_inj) (simp_all add: as_bytes_def byte_of_def)

lemma call_aad_inj:
  assumes "compute_call_aad a = compute_call_aad b" "nul_free a" "nul_free b"
  shows "session_identity a = session_identity b"
  using assms(1) [unfolded compute_call_aad_def peer_evidence_binding_eq] _ _ assms(2,3)
  by (rule versioned_aad_inj) (simp_all add: as_bytes_def byte_of_def)

lemma aad_kinds_differ: "compute_aad a \<noteq> compute_call_aad b"
proof -
  have "take 9 (compute_aad a) = as_bytes ''vgi_rpc.s''" "take 9 (compute_call_aad b) = as_bytes ''vgi_rpc.c''"
    by (simp_all add: compute_aad_def compute_call_aad_def compute_aad_with_def Let_def as_bytes_def)
  moreover have "as_bytes ''vgi_rpc.s'' \<noteq> as_bytes ''vgi_rpc.c''"
    by (simp add: as_bytes_def byte_of_def)
  ultimately show ?thesis by metis
qed

section \<open>The cache\<close>

text \<open>What happens to a worker's cache: streams start on it, and continuations with any cursor and any
  call token reach it.\<close>

datatype call_event =
    Call_Minted nat nat bytes auth_context bytes resolved_call
  | Call_Resolved "nat \<times> nat \<times> nat" auth_context unpacked_cursor "string option"

fun call_step :: "token_crypto \<Rightarrow> zstd_api \<Rightarrow> call_event \<Rightarrow> token_state \<Rightarrow> token_state" where
  "call_step T Z (Call_Minted now now' nonce ctx call_id rc) s =
     snd (state_pack_call_token T Z now now' nonce ctx call_id rc s)"
| "call_step T Z (Call_Resolved clock ctx cursor token) s = snd (resolve_call T Z clock ctx cursor token s)"

text \<open>\<open>M\<close> is the set of the calls minted by any worker that shares the key. A genuine call token, whoever
  presents it, opens only to a minted call.\<close>

definition genuine :: "token_crypto \<Rightarrow> zstd_api \<Rightarrow> bytes \<Rightarrow> (bytes \<times> resolved_call) set \<Rightarrow> string option \<Rightarrow> bool" where
  "genuine T Z key M token =
     (\<forall>t now ctx ttl call. token = Some t \<longrightarrow> unpack_call_token T Z now key (compute_call_aad ctx) t ttl = Inr call
        \<longrightarrow> call \<in> M)"

fun call_event_ok :: "token_crypto \<Rightarrow> zstd_api \<Rightarrow> bytes \<Rightarrow> (bytes \<times> resolved_call) set \<Rightarrow> call_event \<Rightarrow> bool" where
  "call_event_ok T Z key M (Call_Minted _ _ _ _ call_id rc) = ((call_id, rc) \<in> M)"
| "call_event_ok T Z key M (Call_Resolved _ _ _ token) = genuine T Z key M token"

definition call_ids_unique :: "(bytes \<times> resolved_call) set \<Rightarrow> bool" where
  "call_ids_unique M = (single_valued M \<and> (\<forall>call \<in> M. length (fst call) = CALL_ID_LEN))"

definition call_cache_ok :: "(bytes \<times> resolved_call) set \<Rightarrow> token_state \<Rightarrow> bool" where
  "call_cache_ok M s =
     (length (ts_call_states s) \<le> ts_cache_entries s
      \<and> (\<forall>key stored_at rc. map_of (ts_call_states s) key = Some (stored_at, rc) \<longrightarrow>
           (\<exists>ctx call_id. key = cache_key ctx call_id \<and> (call_id, rc) \<in> M)))"

lemma length_AList_update:
  "length (AList.update k v xs) = (if map_of xs k = None then Suc (length xs) else length xs)"
  by (induction xs) (auto split: if_splits)

lemma cache_ok_cache_call:
  assumes "call_cache_ok M s" "(call_id, rc) \<in> M"
  shows "call_cache_ok M (cache_call now ctx call_id rc s)"
  using assms
  by (auto simp: call_cache_ok_def cache_call_def Let_def length_AList_update update_conv' split: if_split_asm)

lemma cache_ok_cached_call:
  assumes "call_cache_ok M s"
  shows "call_cache_ok M (snd (cached_call now ttl key s))"
proof -
  have "length (AList.delete key xs) \<le> length xs" for xs :: "(string \<times> nat \<times> resolved_call) list"
    by (simp add: AList.delete_eq)
  then show ?thesis
    using assms by (auto simp: call_cache_ok_def cached_call_def Let_def delete_conv' split: option.split
        intro: le_trans)
qed

lemma cached_call_key [simp]:
  "ts_token_key (snd (cached_call now ttl key s)) = ts_token_key s"
  "token_ttl_opt (snd (cached_call now ttl key s)) = token_ttl_opt s"
  by (auto simp: cached_call_def token_ttl_opt_def Let_def split: option.split)

lemma cache_call_key [simp]:
  "ts_token_key (cache_call now ctx call_id rc s) = ts_token_key s"
  "token_ttl_opt (cache_call now ctx call_id rc s) = token_ttl_opt s"
  by (auto simp: cache_call_def token_ttl_opt_def Let_def)

text \<open>The three ways a continuation is resolved.\<close>

lemma resolve_call_cases:
  assumes "resolve_call T Z (t1, t2, t3) ctx cursor token s = (r, s')"
  obtains (hit) rc where "cached_call t1 (token_ttl_opt s) (cache_key ctx (uc_call_id cursor)) s = (Some rc, s')" "r = Inr rc"
    | (opened) tok rc s1 where "cached_call t1 (token_ttl_opt s) (cache_key ctx (uc_call_id cursor)) s = (None, s1)"
        "token = Some tok"
        "unpack_call_token T Z t2 (ts_token_key s1) (compute_call_aad ctx) tok (token_ttl_opt s) = Inr (uc_call_id cursor, rc)"
        "r = Inr rc" "s' = cache_call t3 ctx (uc_call_id cursor) rc s1"
    | (refused) e where "cached_call t1 (token_ttl_opt s) (cache_key ctx (uc_call_id cursor)) s = (None, s')" "r = Inl e"
proof (cases "cached_call t1 (token_ttl_opt s) (cache_key ctx (uc_call_id cursor)) s")
  case (Pair found s1)
  note r = assms [unfolded resolve_call_def Let_def Pair prod.case]
  show thesis
  proof (cases found)
    case (Some rc)
    then show thesis using hit Pair r by simp
  next
    case None
    note miss = None
    show thesis
    proof (cases token)
      case None
      then show thesis using refused Pair miss r by auto
    next
      case (Some tok)
      show thesis
      proof (cases "unpack_call_token T Z t2 (ts_token_key s1) (compute_call_aad ctx) tok (token_ttl_opt s)")
        case (Inl e)
        then show thesis using refused Pair miss Some r by auto
      next
        case (Inr call)
        then show thesis
          using refused opened [of s1 tok "snd call"] Pair miss Some r
          by (cases call; cases "fst call = uc_call_id cursor") (simp_all, blast)
      qed
    qed
  qed
qed

lemma cache_ok_resolve:
  assumes "call_cache_ok M s" "genuine T Z (ts_token_key s) M token" "resolve_call T Z (t1, t2, t3) ctx cursor token s = (r, s')"
  shows "call_cache_ok M s' \<and> ts_token_key s' = ts_token_key s \<and> token_ttl_opt s' = token_ttl_opt s"
  using assms(3)
proof (cases rule: resolve_call_cases)
  case (hit rc)
  then show ?thesis using cache_ok_cached_call [OF assms(1)] cached_call_key by (metis snd_conv)
next
  case (opened tok rc s1)
  have s1: "call_cache_ok M s1" "ts_token_key s1 = ts_token_key s" "token_ttl_opt s1 = token_ttl_opt s"
    using opened(1) cache_ok_cached_call [OF assms(1)] cached_call_key by (metis snd_conv)+
  have "(uc_call_id cursor, rc) \<in> M"
    using opened(2,3) s1(2) assms(2) unfolding genuine_def by metis
  then show ?thesis using s1 opened(5) cache_ok_cache_call by simp
next
  case (refused e)
  then show ?thesis using cache_ok_cached_call [OF assms(1)] cached_call_key by (metis snd_conv)
qed

lemma cache_ok_step:
  assumes "call_cache_ok M s" "call_event_ok T Z (ts_token_key s) M ev"
  shows "call_cache_ok M (call_step T Z ev s) \<and> ts_token_key (call_step T Z ev s) = ts_token_key s
    \<and> token_ttl_opt (call_step T Z ev s) = token_ttl_opt s"
proof (cases ev)
  case (Call_Resolved clock ctx cursor token)
  then show ?thesis
    using assms cache_ok_resolve [of M s T Z token]
    by (cases clock) (metis call_event_ok.simps(2) call_step.simps(2) prod.collapse)
qed (use assms in \<open>auto simp: state_pack_call_token_def cache_ok_cache_call\<close>)

lemma cache_ok_run:
  assumes "call_cache_ok M s" "list_all (call_event_ok T Z (ts_token_key s) M) evs"
  shows "call_cache_ok M (fold (call_step T Z) evs s) \<and> ts_token_key (fold (call_step T Z) evs s) = ts_token_key s
    \<and> token_ttl_opt (fold (call_step T Z) evs s) = token_ttl_opt s"
  using assms
proof (induction evs arbitrary: s)
  case (Cons ev evs)
  then show ?case using cache_ok_step [of M s T Z ev] by simp
qed simp

lemma join_hex_inj:
  "length a = length b \<Longrightarrow>
     join '', '' (map (\<lambda>b. bytes_to_hex [b]) a) @ x = join '', '' (map (\<lambda>b. bytes_to_hex [b]) b) @ y \<Longrightarrow> a = b"
proof (induction a b rule: list_induct2)
  case (Cons c a d b)
  have "c = d" if "bytes_to_hex [c] @ u = bytes_to_hex [d] @ v" for u v
  proof -
    have "bytes_to_hex [c] = bytes_to_hex [d]" using that by simp
    then show ?thesis using hex_bytes_to_hex by (metis list.inject option.inject)
  qed
  with Cons show ?case by (cases a; cases b) auto
qed simp

lemma cache_key_call_id:
  "cache_key a c = cache_key b d \<Longrightarrow> length c = length d \<Longrightarrow> c = d"
  by (auto simp: cache_key_def dest: join_hex_inj)

lemma cached_call_minted:
  assumes "call_cache_ok M s" "call_ids_unique M" "(call_id, rc) \<in> M"
    and "cached_call now ttl (cache_key ctx call_id) s = (Some rc', s')"
  shows "rc' = rc"
proof -
  have "\<exists>t. map_of (ts_call_states s) (cache_key ctx call_id) = Some (t, rc')"
    using assms(4) by (auto simp: cached_call_def Let_def split: option.split_asm if_split_asm)
  then obtain ctx' call_id' where c: "cache_key ctx call_id = cache_key ctx' call_id'" "(call_id', rc') \<in> M"
    using assms(1) unfolding call_cache_ok_def by blast
  then have "call_id = call_id'"
    using assms(2,3) c(2) unfolding call_ids_unique_def by (intro cache_key_call_id [OF c(1)]) (metis fst_conv)
  then show ?thesis
    using c(2) assms(2,3) by (auto simp: call_ids_unique_def dest: single_valuedD)
qed

lemma resolve_call_minted:
  assumes "call_cache_ok M s" "call_ids_unique M" "(uc_call_id cursor, rc) \<in> M" "genuine T Z (ts_token_key s) M token"
    and "fst (resolve_call T Z (t1, t2, t3) ctx cursor token s) = Inr rc'"
  shows "rc' = rc"
proof -
  obtain s' where "resolve_call T Z (t1, t2, t3) ctx cursor token s = (Inr rc', s')"
    using assms(5) by (metis prod.collapse)
  then show ?thesis
  proof (cases rule: resolve_call_cases)
    case (hit r)
    then show ?thesis using cached_call_minted [OF assms(1-3)] by simp
  next
    case (opened tok r s1)
    have "ts_token_key s1 = ts_token_key s" using opened(1) cached_call_key by (metis snd_conv)
    then have "(uc_call_id cursor, r) \<in> M"
      using opened(2,3) assms(4) unfolding genuine_def by metis
    then show ?thesis using opened(4) assms(2,3) by (auto simp: call_ids_unique_def dest: single_valuedD)
  qed simp
qed

lemma resolve_call_opens:
  assumes "call_cache_ok M s" "call_ids_unique M" "(uc_call_id cursor, rc) \<in> M"
    and "unpack_call_token T Z t2 (ts_token_key s) (compute_call_aad ctx) token (token_ttl_opt s) = Inr (uc_call_id cursor, rc)"
  shows "fst (resolve_call T Z (t1, t2, t3) ctx cursor (Some token) s) = Inr rc"
proof (cases "cached_call t1 (token_ttl_opt s) (cache_key ctx (uc_call_id cursor)) s")
  case (Pair r s1)
  then have "ts_token_key s1 = ts_token_key s" using cached_call_key by (metis snd_conv)
  then show ?thesis
    using Pair assms(4) cached_call_minted [OF assms(1-3)]
    by (cases r) (auto simp: resolve_call_def Let_def)
qed

section \<open>A concrete worker\<close>

definition demo_zstd :: zstd_api where
  "demo_zstd = \<lparr> z_compress = (\<lambda>_. None), z_decompress = (\<lambda>_. None) \<rparr>"

definition demo_token_state :: token_state where
  "demo_token_state = \<lparr> ts_token_key = replicate 32 7, ts_token_ttl = 300000000000, ts_cache_entries = 1,
     ts_call_states = [] \<rparr>"

definition demo_resolved_call :: resolved_call where
  "demo_resolved_call = \<lparr> rc_output_schema_bytes = [1], rc_input_schema_bytes = [], rc_stream_id = ''s'',
     rc_response_limit_bytes = Some 1000, rc_preferred_response_bytes = None \<rparr>"

definition demo_call_events :: "call_event list" where
  "demo_call_events =
     [Call_Minted 1000 1000 (replicate 24 0) demo_alice (replicate 16 4) demo_resolved_call,
      Call_Resolved (1001, 1001, 1001) demo_alice
        \<lparr> uc_state_bytes = [], uc_call_id = replicate 16 4, uc_created_at = 1000 \<rparr> None]"

lemma demo_zstd_ok: "zstd_ok demo_zstd"
  by (simp add: zstd_ok_def demo_zstd_def)

lemma demo_call_ok: "call_ok demo_resolved_call"
  by (simp add: call_ok_def demo_resolved_call_def limit_ok_def MAX_TOKEN_PLAINTEXT_BYTES_def str_ok_ascii is_ascii_def)

section \<open>Properties\<close>





end
