(* ===== verification/Http_Codec.thy ===== *)
theory Http_Codec
  imports Binding Crypto
begin

text \<open>
  Headers, content codings and limits of \<^verbatim>\<open>vgi-rpc/src/http.rs\<close>: negotiation of the response coding, bounded
  decoding of request bodies, the response budget, token keys and cookies. A header map is the list of its
  fields with lower-case names; a value is a byte string, of which only visible ASCII reads as text. The zstd
  and gzip crates are the record \<open>coding_api\<close>; a decoder is what its successive reads return.
\<close>

section \<open>Header maps\<close>

type_synonym header_map = "(string \<times> string) list"

definition visible_ascii :: "string \<Rightarrow> bool" where
  "visible_ascii v = list_all (\<lambda>c. let n = of_char c :: nat in (32 \<le> n \<and> n < 127) \<or> n = 9) v"

definition header_value_ok :: "string \<Rightarrow> bool" where
  "header_value_ok v = list_all (\<lambda>c. let n = of_char c :: nat in (32 \<le> n \<and> n \<noteq> 127) \<or> n = 9) v"

definition hm_to_str :: "string \<Rightarrow> string option" where
  "hm_to_str v = (if visible_ascii v then Some v else None)"

definition hm_get :: "header_map \<Rightarrow> string \<Rightarrow> string option" where
  "hm_get hs name = map_of hs name"

definition hm_get_str :: "header_map \<Rightarrow> string \<Rightarrow> string option" where
  "hm_get_str hs name = Option.bind (hm_get hs name) hm_to_str"

definition hm_get_all :: "header_map \<Rightarrow> string \<Rightarrow> string list" where
  "hm_get_all hs name = map snd (filter (\<lambda>(k, _). k = name) hs)"

definition hm_insert :: "string \<Rightarrow> string \<Rightarrow> header_map \<Rightarrow> header_map" where
  "hm_insert name v hs = filter (\<lambda>(k, _). k \<noteq> name) hs @ [(name, v)]"

section \<open>Response codings\<close>

definition VGI_ACCEPT_ENCODING_HEADER :: string where "VGI_ACCEPT_ENCODING_HEADER = ''x-vgi-accept-encoding''"
definition VGI_CONTENT_ENCODING_HEADER :: string where "VGI_CONTENT_ENCODING_HEADER = ''x-vgi-content-encoding''"
definition ACCEPT_ENCODING :: string where "ACCEPT_ENCODING = ''accept-encoding''"
definition CONTENT_ENCODING :: string where "CONTENT_ENCODING = ''content-encoding''"

datatype response_encoding = Identity | Zstd | Gzip

fun encoding_as_str :: "response_encoding \<Rightarrow> string" where
  "encoding_as_str Identity = ''identity''"
| "encoding_as_str Zstd = ''zstd''"
| "encoding_as_str Gzip = ''gzip''"

definition encoding_from_token :: "string \<Rightarrow> response_encoding option" where
  "encoding_from_token token =
     (if token = ''identity'' then Some Identity
      else if token = ''zstd'' then Some Zstd
      else if token = ''gzip'' then Some Gzip
      else None)"

fun producible :: "response_encoding \<Rightarrow> int option \<Rightarrow> bool" where
  "producible Identity level = True"
| "producible Zstd level = (level \<noteq> None)"
| "producible Gzip level = (level \<noteq> None)"

fun decodable :: "response_encoding \<Rightarrow> bool" where
  "decodable Identity = True"
| "decodable Zstd = True"
| "decodable Gzip = True"

definition RESPONSE_ENCODING_PREFERENCE :: "response_encoding list" where
  "RESPONSE_ENCODING_PREFERENCE = [Zstd, Gzip]"

definition supported_encodings_header_value :: "int option \<Rightarrow> string" where
  "supported_encodings_header_value level =
     join '', '' (map encoding_as_str
       (filter (\<lambda>e. e \<noteq> Identity \<and> producible e level \<and> decodable e) RESPONSE_ENCODING_PREFERENCE))"

definition encoding_token :: "string \<Rightarrow> string" where
  "encoding_token raw = to_ascii_lowercase (trim (hd (split_on CHR '';'' raw)))"

fun add_encodings :: "response_encoding list \<Rightarrow> string list \<Rightarrow> response_encoding list" where
  "add_encodings out [] = out"
| "add_encodings out (raw # raws) =
     (let token = encoding_token raw in
      if token = [] then add_encodings out raws
      else case encoding_from_token token of
        None \<Rightarrow> add_encodings out raws
      | Some enc \<Rightarrow> add_encodings (if enc \<in> set out then out else out @ [enc]) raws)"

definition parse_encoding_list :: "string option \<Rightarrow> response_encoding list" where
  "parse_encoding_list header_value =
     (case header_value of None \<Rightarrow> [] | Some v \<Rightarrow> add_encodings [] (split_on CHR '','' v))"

definition pick_response_encoding :: "header_map \<Rightarrow> int option \<Rightarrow> (response_encoding \<times> bool) option" where
  "pick_response_encoding hs level =
     (let custom = parse_encoding_list (hm_get_str hs VGI_ACCEPT_ENCODING_HEADER);
          standard = parse_encoding_list (hm_get_str hs ACCEPT_ENCODING)
      in map_option (\<lambda>enc. (enc, enc \<in> set custom \<and> enc \<notin> set standard))
           (find (\<lambda>enc. producible enc level) (custom @ filter (\<lambda>e. e \<notin> set custom) standard)))"

text \<open>
  The codings as the crates offer them. A streaming decoder is opened on the encoded bytes, given a window
  limit, and read: the non-empty chunks its reads return and then the end or an error.
\<close>

type_synonym decoder_reads = "bytes list \<times> string option"

record coding_api =
  zs_encode_all :: "bytes \<Rightarrow> int \<Rightarrow> bytes option"
  gz_encode :: "bytes \<Rightarrow> nat \<Rightarrow> bytes option"
  zs_open :: "bytes \<Rightarrow> string + unit"
  zs_window_log_max :: "nat \<Rightarrow> string + unit"
  zs_reads :: "bytes \<Rightarrow> nat \<Rightarrow> decoder_reads"
  gz_reads :: "bytes \<Rightarrow> decoder_reads"

definition encode_response_body :: "coding_api \<Rightarrow> response_encoding \<Rightarrow> bytes \<Rightarrow> int \<Rightarrow> bytes option" where
  "encode_response_body C enc body level =
     (case enc of
        Identity \<Rightarrow> None
      | Zstd \<Rightarrow> zs_encode_all C body level
      | Gzip \<Rightarrow> gz_encode C body (nat (max 0 (min 9 level))))"

section \<open>Request bodies\<close>

definition MAX_CONTENT_CODINGS :: nat where "MAX_CONTENT_CODINGS = 4"

text \<open>The number of binary digits of a number: \<^verbatim>\<open>usize::BITS - n.leading_zeros()\<close>.\<close>

fun bit_length :: "nat \<Rightarrow> nat" where
  "bit_length n = (if n = 0 then 0 else Suc (bit_length (n div 2)))"

declare bit_length.simps [simp del]

definition zstd_window_log_for_limit :: "nat \<Rightarrow> nat" where
  "zstd_window_log_for_limit max_size =
     (let bounded = max max_size (2 ^ 19) in max 19 (min 31 (bit_length (bounded - 1))))"

text \<open>The decoded length so far wraps at no reachable size; \<open>out\<close> is what has been decoded.\<close>

fun decode_bounded :: "string \<Rightarrow> nat \<Rightarrow> bytes \<Rightarrow> bytes list \<Rightarrow> string option \<Rightarrow> bytes rpc_result" where
  "decode_bounded coding max_size out [] failed =
     (case failed of
        None \<Rightarrow> Inr out
      | Some e \<Rightarrow> Inl (runtime_error (coding @ '' decode: '' @ e)))"
| "decode_bounded coding max_size out (chunk # chunks) failed =
     (if max_size < length out + length chunk then
        Inl (runtime_error (''Decompressed body exceeds max size ('' @ show_nat (length out + length chunk)
          @ ''+ bytes > '' @ show_nat max_size @ '')''))
      else decode_bounded coding max_size (out @ chunk) chunks failed)"

definition decode_coding :: "coding_api \<Rightarrow> nat \<Rightarrow> string \<Rightarrow> bytes \<Rightarrow> bytes rpc_result" where
  "decode_coding C max_size name data =
     (if name = ''zstd'' then
        and_then (map_err (\<lambda>e. runtime_error (''zstd decode: '' @ e)) (zs_open C data)) (\<lambda>_.
        and_then (map_err (\<lambda>e. runtime_error (''zstd window limit: '' @ e))
          (zs_window_log_max C (zstd_window_log_for_limit max_size))) (\<lambda>_.
        let (chunks, failed) = zs_reads C data (zstd_window_log_for_limit max_size) in
        decode_bounded ''zstd'' max_size [] chunks failed))
      else if name = ''gzip'' then
        let (chunks, failed) = gz_reads C data in decode_bounded ''gzip'' max_size [] chunks failed
      else Inr data)"

fun decode_codings :: "coding_api \<Rightarrow> nat \<Rightarrow> string list \<Rightarrow> bytes \<Rightarrow> bytes rpc_result" where
  "decode_codings C max_size [] data = Inr data"
| "decode_codings C max_size (name # names) data =
     and_then (decode_coding C max_size name data) (decode_codings C max_size names)"

definition content_codings :: "string \<Rightarrow> string list" where
  "content_codings hdr = filter (\<lambda>c. c \<noteq> []) (map (\<lambda>c. to_ascii_lowercase (trim c)) (split_on CHR '','' hdr))"

definition decode_content_encoding ::
  "coding_api \<Rightarrow> bytes \<Rightarrow> string option \<Rightarrow> nat option \<Rightarrow> bytes rpc_result" where
  "decode_content_encoding C data content_encoding max_output_size =
     (case content_encoding of
        None \<Rightarrow> Inr data
      | Some hdr \<Rightarrow>
          if trim hdr = [] then Inr data
          else
            let max_size = (case max_output_size of Some n \<Rightarrow> n | None \<Rightarrow> u64_max);
                codings = content_codings hdr
            in if MAX_CONTENT_CODINGS < length codings then
                 Inl (runtime_error (''Content-Encoding lists more than '' @ show_nat MAX_CONTENT_CODINGS
                   @ '' codings''))
               else decode_codings C max_size (rev codings) data)"

definition maybe_decompress :: "coding_api \<Rightarrow> header_map \<Rightarrow> bytes \<Rightarrow> nat \<Rightarrow> bytes rpc_result" where
  "maybe_decompress C hs body max_size =
     (if max_size < length body then
        Inl (runtime_error (''Request body exceeds max size ('' @ show_nat (length body) @ '' bytes > ''
          @ show_nat max_size @ '')''))
      else decode_content_encoding C body (hm_get_str hs CONTENT_ENCODING) (Some max_size))"

section \<open>Limits\<close>

record http_limits =
  hl_max_body_size :: nat
  hl_max_request_bytes :: "nat option"
  hl_hosting_max_request_bytes :: "nat option"
  hl_max_response_bytes :: "nat option"
  hl_hosting_max_response_bytes :: "nat option"
  hl_preferred_response_bytes :: "nat option"
  hl_max_externalized_response_bytes :: "nat option"

text \<open>\<^verbatim>\<open>into_iter().flatten().min()\<close>.\<close>

definition min_some :: "nat option list \<Rightarrow> nat option" where
  "min_some xs = (let ns = List.map_filter (\<lambda>x. x) xs in if ns = [] then None else Some (Min (set ns)))"

definition request_decode_limit :: "'a http_limits_scheme \<Rightarrow> nat" where
  "request_decode_limit s =
     (case min_some [Some (hl_max_body_size s), hl_max_request_bytes s, hl_hosting_max_request_bytes s] of
        Some n \<Rightarrow> n
      | None \<Rightarrow> hl_max_body_size s)"

definition ACCEPT_MAX_RESPONSE_BYTES_HEADER :: string where
  "ACCEPT_MAX_RESPONSE_BYTES_HEADER = ''vgi-accept-max-response-bytes''"
definition MAX_SAFE_RESPONSE_BYTES :: nat where "MAX_SAFE_RESPONSE_BYTES = 2 ^ 53 - 1"
definition MIN_RESPONSE_BYTES :: nat where "MIN_RESPONSE_BYTES = 64 * 1024"

definition all_ascii_digits :: "string \<Rightarrow> bool" where
  "all_ascii_digits s = list_all (\<lambda>c. digit_val c \<noteq> None) s"

definition parse_accepted_max_response_bytes :: "header_map \<Rightarrow> nat option rpc_result" where
  "parse_accepted_max_response_bytes hs =
     (case hm_get_all hs ACCEPT_MAX_RESPONSE_BYTES_HEADER of
        [] \<Rightarrow> Inr None
      | _ # _ # _ \<Rightarrow> Inl (value_error ''VGI-Accept-Max-Response-Bytes must occur exactly once'')
      | [v] \<Rightarrow>
          and_then (ok_or (value_error ''VGI-Accept-Max-Response-Bytes must be ASCII decimal'') (hm_to_str v)) (\<lambda>raw.
          if raw = [] \<or> prefix ''0'' raw \<or> \<not> all_ascii_digits raw
          then Inl (value_error ''VGI-Accept-Max-Response-Bytes must match [1-9][0-9]*'')
          else
            and_then (ok_or (value_error ''VGI-Accept-Max-Response-Bytes is outside the supported range'')
              (parse_u64 raw)) (\<lambda>parsed.
            if parsed < MIN_RESPONSE_BYTES \<or> MAX_SAFE_RESPONSE_BYTES < parsed \<or> u64_max < parsed
            then Inl (value_error (''VGI-Accept-Max-Response-Bytes must be between ''
              @ show_nat MIN_RESPONSE_BYTES @ '' and '' @ show_nat MAX_SAFE_RESPONSE_BYTES))
            else Inr (Some parsed))))"

definition clamp_preferred :: "nat option \<Rightarrow> nat option \<Rightarrow> nat option" where
  "clamp_preferred hard preferred =
     map_option (\<lambda>v. case hard of Some limit \<Rightarrow> min v limit | None \<Rightarrow> v) preferred"

definition effective_response_budget ::
  "'a http_limits_scheme \<Rightarrow> header_map \<Rightarrow> (nat option \<times> nat option) rpc_result" where
  "effective_response_budget s hs =
     and_then (parse_accepted_max_response_bytes hs) (\<lambda>accepted.
     let hard = min_some [hl_max_response_bytes s, hl_hosting_max_response_bytes s, accepted] in
     Inr (hard, clamp_preferred hard (hl_preferred_response_bytes s)))"

definition response_buffer_ceiling :: "'a http_limits_scheme \<Rightarrow> header_map \<Rightarrow> nat" where
  "response_buffer_ceiling s hs =
     (case effective_response_budget s hs of
        Inr (Some hard, _) \<Rightarrow> max hard (64 * 1024)
      | _ \<Rightarrow> u64_max)"

section \<open>Token keys\<close>

text \<open>The error messages of the two key decoders, with what they print.\<close>

datatype key_error = Hex_Length_Odd | Invalid_Hex char | Base64_Decode | Key_Too_Short nat

definition hex_nibble :: "char \<Rightarrow> key_error + nat" where
  "hex_nibble c =
     (let n = of_char c :: nat in
      if 48 \<le> n \<and> n \<le> 57 then Inr (n - 48)
      else if 97 \<le> n \<and> n \<le> 102 then Inr (n - 97 + 10)
      else if 65 \<le> n \<and> n \<le> 70 then Inr (n - 65 + 10)
      else Inl (Invalid_Hex c))"

fun decode_hex_pairs :: "string \<Rightarrow> key_error + bytes" where
  "decode_hex_pairs (h # l # s) =
     and_then (hex_nibble h) (\<lambda>hi. and_then (hex_nibble l) (\<lambda>lo.
     and_then (decode_hex_pairs s) (\<lambda>rest. Inr (word_of_nat (16 * hi + lo) # rest))))"
| "decode_hex_pairs _ = Inr []"

definition decode_hex_key :: "string \<Rightarrow> key_error + bytes" where
  "decode_hex_key s =
     (let s = trim s in
      if length s mod 2 \<noteq> 0 then Inl Hex_Length_Odd
      else and_then (decode_hex_pairs s) (\<lambda>out.
        if length out < 32 then Inl (Key_Too_Short (length out)) else Inr out))"

definition decode_base64_key :: "token_crypto \<Rightarrow> string \<Rightarrow> key_error + bytes" where
  "decode_base64_key T s =
     (let s = rev (dropWhile (\<lambda>c. c = CHR ''='') (rev (trim s)));
          padded = s @ replicate ((4 - length s mod 4) mod 4) CHR ''=''
      in case tc_b64_decode T padded of
           None \<Rightarrow> Inl Base64_Decode
         | Some bs \<Rightarrow> if length bs < 32 then Inl (Key_Too_Short (length bs)) else Inr bs)"

text \<open>The builder methods: the key, or a panic. \<open>env\<close> is the value of the variable.\<close>

definition builder_token_key :: "bytes \<Rightarrow> bytes outcome" where
  "builder_token_key key = (if length key < 32 then Panic else Done (take 32 key))"

definition token_key_hex :: "string \<Rightarrow> bytes outcome" where
  "token_key_hex hex = (case decode_hex_key hex of Inl _ \<Rightarrow> Panic | Inr bs \<Rightarrow> builder_token_key bs)"

definition token_key_base64 :: "token_crypto \<Rightarrow> string \<Rightarrow> bytes outcome" where
  "token_key_base64 T b64 = (case decode_base64_key T b64 of Inl _ \<Rightarrow> Panic | Inr bs \<Rightarrow> builder_token_key bs)"

definition token_key_from_env :: "token_crypto \<Rightarrow> string option \<Rightarrow> bytes outcome" where
  "token_key_from_env T env =
     (case env of
        None \<Rightarrow> Panic
      | Some raw \<Rightarrow>
          (case decode_base64_key T (trim raw) of
             Inr bs \<Rightarrow> builder_token_key bs
           | Inl _ \<Rightarrow> (case decode_hex_key (trim raw) of Inl _ \<Rightarrow> Panic | Inr bs \<Rightarrow> builder_token_key bs)))"

section \<open>Cookies\<close>

text \<open>A tree map is an association list in key order.\<close>

definition unquote :: "string \<Rightarrow> string" where
  "unquote v =
     (case v of
        c # s \<Rightarrow> if c = CHR 0x22 \<and> s \<noteq> [] \<and> last s = CHR 0x22 then butlast s else v
      | [] \<Rightarrow> v)"

definition parse_cookies :: "string option \<Rightarrow> (string \<times> string) list" where
  "parse_cookies raw =
     (case raw of
        None \<Rightarrow> []
      | Some raw \<Rightarrow>
          fold (\<lambda>part out.
              case split_once CHR ''='' (trim part) of
                None \<Rightarrow> out
              | Some (k, v) \<Rightarrow> obj_insert (trim k) (unquote (trim v)) out)
            (split_on CHR '';'' raw) [])"

section \<open>Facts about decoding\<close>

lemma decode_bounded_Inr:
  "decode_bounded coding max_size out chunks failed = Inr r \<longleftrightarrow>
     failed = None \<and> r = out @ concat chunks \<and> (chunks = [] \<or> length r \<le> max_size)"
proof (induction chunks arbitrary: out)
  case Nil
  then show ?case by (auto split: option.split)
next
  case (Cons chunk chunks)
  show ?case
  proof (cases "max_size < length out + length chunk")
    case False
    then have "decode_bounded coding max_size out (chunk # chunks) failed = Inr r \<longleftrightarrow>
      failed = None \<and> r = (out @ chunk) @ concat chunks \<and> (chunks = [] \<or> length r \<le> max_size)"
      using Cons.IH [of "out @ chunk"] by (simp only: decode_bounded.simps if_False)
    then show ?thesis
      using False by (cases chunks) auto
  qed auto
qed

lemma decode_bounded_length:
  "decode_bounded coding max_size [] chunks failed = Inr r \<Longrightarrow> length r \<le> max_size"
  by (auto simp: decode_bounded_Inr)

lemma decode_coding_length:
  assumes "decode_coding C max_size name data = Inr r" "length data \<le> max_size"
  shows "length r \<le> max_size"
  using assms
  by (auto simp: decode_coding_def Let_def result_simps split: if_split_asm prod.split_asm dest!: decode_bounded_length)

lemma decode_codings_length:
  "decode_codings C max_size names data = Inr r \<Longrightarrow> length data \<le> max_size \<Longrightarrow> length r \<le> max_size"
proof (induction names arbitrary: data)
  case (Cons name names)
  then show ?case
    by (auto simp: result_simps dest: decode_coding_length)
qed simp

lemma decode_codings_append:
  "decode_codings C m (xs @ ys) data = and_then (decode_codings C m xs data) (decode_codings C m ys)"
proof (induction xs arbitrary: data)
  case (Cons x xs)
  then show ?case by (cases "decode_coding C m x data") simp_all
qed simp

lemma bit_length_bound: "n < 2 ^ bit_length n"
proof (induction n rule: bit_length.induct)
  case (1 n)
  then show ?case by (subst bit_length.simps) (auto simp: div_less_iff_less_mult)
qed

lemma bit_length_le: "n < 2 ^ k \<Longrightarrow> bit_length n \<le> k"
proof (induction n arbitrary: k rule: bit_length.induct)
  case (1 n)
  then show ?case
  proof (cases k)
    case (Suc j)
    then show ?thesis
      using 1 by (subst bit_length.simps) (auto simp: div_less_iff_less_mult)
  qed (simp add: bit_length.simps)
qed

text \<open>The window is the smallest power of two that covers the output limit, within its two bounds.\<close>

lemma window_log_covers:
  "min max_size (2 ^ 31) \<le> 2 ^ zstd_window_log_for_limit max_size"
  "zstd_window_log_for_limit max_size \<le> 31"
  "max_size \<le> 2 ^ k \<Longrightarrow> 19 \<le> k \<Longrightarrow> zstd_window_log_for_limit max_size \<le> k"
proof -
  let ?b = "max max_size (2 ^ 19)"
  have b: "?b \<le> 2 ^ bit_length (?b - 1)"
    using bit_length_bound [of "?b - 1"] by linarith
  show "min max_size (2 ^ 31) \<le> 2 ^ zstd_window_log_for_limit max_size"
  proof (cases "bit_length (?b - 1) \<le> 31")
    case True
    then have "zstd_window_log_for_limit max_size = max 19 (bit_length (?b - 1))"
      by (simp add: zstd_window_log_for_limit_def Let_def)
    moreover have "(2 :: nat) ^ bit_length (?b - 1) \<le> 2 ^ max 19 (bit_length (?b - 1))"
      by (intro power_increasing) simp_all
    ultimately show ?thesis
      using b by (intro min.coboundedI1) (metis le_trans max.cobounded1)
  next
    case False
    then have "zstd_window_log_for_limit max_size = 31"
      by (simp add: zstd_window_log_for_limit_def Let_def)
    then show ?thesis by simp
  qed
  show "zstd_window_log_for_limit max_size \<le> 31"
    by (simp add: zstd_window_log_for_limit_def Let_def)
  assume k: "max_size \<le> 2 ^ k" "19 \<le> k"
  then have "(2 :: nat) ^ 19 \<le> 2 ^ k"
    by (intro power_increasing) simp_all
  then have "?b \<le> 2 ^ k" "0 < ?b"
    using k(1) by (simp_all add: less_max_iff_disj)
  then have "?b - 1 < 2 ^ k"
    by linarith
  then show "zstd_window_log_for_limit max_size \<le> k"
    using bit_length_le [of "?b - 1" k] k(2) by (simp add: zstd_window_log_for_limit_def Let_def)
qed

section \<open>Facts about limits\<close>

lemma min_some_le: "min_some xs = Some m \<Longrightarrow> Some n \<in> set xs \<Longrightarrow> m \<le> n"
  by (force simp: min_some_def Let_def map_filter_def split: if_split_asm intro!: Min_le)

lemma min_some_mem: "min_some xs = Some m \<Longrightarrow> Some m \<in> set xs"
proof -
  assume a: "min_some xs = Some m"
  let ?ns = "List.map_filter (\<lambda>x. x) xs"
  have "?ns \<noteq> []" "m = Min (set ?ns)"
    using a by (auto simp: min_some_def Let_def split: if_split_asm)
  then have "m \<in> set ?ns"
    using Min_in [of "set ?ns"] by simp
  then show ?thesis by (auto simp: map_filter_def)
qed

lemma min_some_None: "min_some xs = None \<longleftrightarrow> (\<forall>x\<in>set xs. x = None)"
  by (simp add: min_some_def Let_def map_filter_def filter_empty_conv)

lemma show_nat_not_plus: "hd (show_nat n) \<noteq> CHR ''+''"
  using show_nat_digits [of "hd (show_nat n)" n] by (cases "show_nat n") (auto simp: digit_val_def)

text \<open>The accepted header is the canonical decimal of a number in the range.\<close>

lemma accepted_header_iff:
  "parse_accepted_max_response_bytes hs = Inr (Some n) \<longleftrightarrow>
     hm_get_all hs ACCEPT_MAX_RESPONSE_BYTES_HEADER = [show_nat n] \<and> MIN_RESPONSE_BYTES \<le> n \<and> n \<le> MAX_SAFE_RESPONSE_BYTES"
  (is "?l \<longleftrightarrow> ?r")
proof
  assume ?l
  then obtain v where v: "hm_get_all hs ACCEPT_MAX_RESPONSE_BYTES_HEADER = [v]" "v \<noteq> []" "\<not> prefix ''0'' v"
    "all_ascii_digits v" "parse_u64 v = Some n" "MIN_RESPONSE_BYTES \<le> n" "n \<le> MAX_SAFE_RESPONSE_BYTES"
    by (auto simp: parse_accepted_max_response_bytes_def hm_to_str_def result_simps
        split: list.split_asm if_split_asm)
  have "v \<noteq> ''0''" "hd v \<noteq> CHR ''0''"
    using v(2,3) by (cases v; auto)+
  then have "semver_part v = Some n"
    using v(2,4,5) by (auto simp: semver_part_def all_ascii_digits_def is_ascii_digit_def [abs_def])
  then show ?r
    using v(1,6,7) by (simp add: semver_part_Some)
next
  assume r: ?r
  have n: "0 < n" "n \<le> u64_max"
    using r by (simp_all add: MIN_RESPONSE_BYTES_def MAX_SAFE_RESPONSE_BYTES_def u64_max_def)
  then have "semver_part (show_nat n) = Some n"
    by (simp add: semver_part_Some)
  then have p: "show_nat n \<noteq> []" "parse_u64 (show_nat n) = Some n" "all_ascii_digits (show_nat n)"
    by (auto simp: semver_part_def all_ascii_digits_def is_ascii_digit_def [abs_def] split: if_split_asm)
  have "show_nat n \<noteq> ''0''"
    using show_nat_inj [of n 0] show_nat_0 n(1) by auto
  then have "\<not> prefix ''0'' (show_nat n)"
    using show_nat_canonical [of n] p(1) by (cases "show_nat n") auto
  moreover have "visible_ascii (show_nat n)"
    using p(3) by (auto simp: all_ascii_digits_def visible_ascii_def list_all_iff digit_val_def Let_def split: if_split_asm)
  ultimately show ?l
    using r p n(2) by (auto simp: parse_accepted_max_response_bytes_def hm_to_str_def)
qed

section \<open>A concrete server\<close>

definition demo_codings :: coding_api where
  "demo_codings = \<lparr> zs_encode_all = (\<lambda>b _. Some b), gz_encode = (\<lambda>b _. Some b), zs_open = (\<lambda>_. Inr ()),
     zs_window_log_max = (\<lambda>_. Inr ()), zs_reads = (\<lambda>b _. ([b], None)), gz_reads = (\<lambda>b. ([b], None)) \<rparr>"

definition demo_limits :: http_limits where
  "demo_limits = \<lparr> hl_max_body_size = 100, hl_max_request_bytes = Some 50, hl_hosting_max_request_bytes = None,
     hl_max_response_bytes = Some 200000, hl_hosting_max_response_bytes = None,
     hl_preferred_response_bytes = Some 90000, hl_max_externalized_response_bytes = None \<rparr>"

section \<open>Properties\<close>



text \<open>C40. The response budget of a request: the hard limit is the least of the configured limits and of the one
  the client accepts, the advisory target never exceeds it, and the client's header counts exactly when
  it occurs once and is the canonical decimal of a number between 64 KiB and the largest safe integer.
\<close>
theorem response_budget_is_the_intersection:
  assumes "effective_response_budget s hs = Inr (hard, preferred)"
  shows "(\<exists>accepted. (hard = min_some [hl_max_response_bytes s, hl_hosting_max_response_bytes s, accepted])
      \<and> (case accepted of
           None \<Rightarrow> hm_get_all hs ACCEPT_MAX_RESPONSE_BYTES_HEADER = []
         | Some n \<Rightarrow> hm_get_all hs ACCEPT_MAX_RESPONSE_BYTES_HEADER = [show_nat n]
             \<and> MIN_RESPONSE_BYTES \<le> n \<and> n \<le> MAX_SAFE_RESPONSE_BYTES))
    \<and> (\<forall>h n. hard = Some h \<and> n \<in> {hl_max_response_bytes s, hl_hosting_max_response_bytes s} \<and> n \<noteq> None \<longrightarrow> h \<le> the n)
    \<and> (\<forall>h p. hard = Some h \<and> preferred = Some p \<longrightarrow> p \<le> h)
    \<and> (preferred \<noteq> None \<longleftrightarrow> hl_preferred_response_bytes s \<noteq> None)"
proof -
  obtain accepted where a: "parse_accepted_max_response_bytes hs = Inr accepted"
    "hard = min_some [hl_max_response_bytes s, hl_hosting_max_response_bytes s, accepted]"
    "preferred = clamp_preferred hard (hl_preferred_response_bytes s)"
    using assms by (auto simp: effective_response_budget_def result_simps Let_def)
  have none: "hm_get_all hs ACCEPT_MAX_RESPONSE_BYTES_HEADER = []" if "accepted = None"
    using a(1) that by (auto simp: parse_accepted_max_response_bytes_def result_simps split: list.split_asm if_split_asm)
  have "(case accepted of
           None \<Rightarrow> hm_get_all hs ACCEPT_MAX_RESPONSE_BYTES_HEADER = []
         | Some n \<Rightarrow> hm_get_all hs ACCEPT_MAX_RESPONSE_BYTES_HEADER = [show_nat n]
             \<and> MIN_RESPONSE_BYTES \<le> n \<and> n \<le> MAX_SAFE_RESPONSE_BYTES)"
    using none a(1) accepted_header_iff [of hs] by (auto split: option.split)
  moreover have "\<forall>h n. hard = Some h \<and> n \<in> {hl_max_response_bytes s, hl_hosting_max_response_bytes s} \<and> n \<noteq> None \<longrightarrow> h \<le> the n"
    using min_some_le [of "[hl_max_response_bytes s, hl_hosting_max_response_bytes s, accepted]"] a(2) by force
  moreover have "\<forall>h p. hard = Some h \<and> preferred = Some p \<longrightarrow> p \<le> h"
    using a(3) by (auto simp: clamp_preferred_def)
  moreover have "preferred \<noteq> None \<longleftrightarrow> hl_preferred_response_bytes s \<noteq> None"
    using a(3) by (simp add: clamp_preferred_def)
  ultimately show ?thesis
    using a(2) by blast
qed

theorem response_budget_is_the_intersection_witness:
  "effective_response_budget demo_limits [(ACCEPT_MAX_RESPONSE_BYTES_HEADER, ''70000'')] = Inr (Some 70000, Some 70000)
   \<and> (70000 :: nat) \<le> 200000"
proof -
  have "show_nat 70000 = ''70000''"
    by (simp add: show_nat.simps digit_char_def char_of_def bit_0)
  then have "parse_accepted_max_response_bytes [(ACCEPT_MAX_RESPONSE_BYTES_HEADER, ''70000'')] = Inr (Some 70000)"
    using accepted_header_iff [of "[(ACCEPT_MAX_RESPONSE_BYTES_HEADER, ''70000'')]" 70000]
    by (simp add: hm_get_all_def MIN_RESPONSE_BYTES_def MAX_SAFE_RESPONSE_BYTES_def)
  then have "effective_response_budget demo_limits [(ACCEPT_MAX_RESPONSE_BYTES_HEADER, ''70000'')] = Inr (Some 70000, Some 70000)"
    by (simp add: effective_response_budget_def min_some_def demo_limits_def map_filter_def clamp_preferred_def)
  then show ?thesis
    using response_budget_is_the_intersection [THEN conjunct2, THEN conjunct1] by simp
qed

end
