(* ===== verification/Stream_Turn.thy ===== *)
theory Stream_Turn
  imports Binding Shm_Segment
begin

text \<open>
  The streaming primitives of \<^verbatim>\<open>vgi-rpc/src/stream.rs\<close> and the call context of \<^verbatim>\<open>server.rs\<close>. Application code is a
  parameter: a turn of a producer or of an exchange is a function of the state, the collector, the context
  and of a world \<open>'w\<close> that holds whatever else it can change, and it may panic; the log messages that it
  appends to the context are part of what it returns. A schema is the list of its fields.
\<close>

section \<open>The output collector\<close>

datatype 'b emitted = Emit_Batch 'b "metadata option" | Emit_Log log_message

record ('f, 'b) collector =
  oc_schema :: "'f list"
  oc_items :: "'b emitted list"
  oc_data_emitted :: bool
  oc_finished :: bool
  oc_is_producer :: bool
  oc_response_limit_bytes :: "nat option"
  oc_preferred_response_bytes :: "nat option"

definition collector_new :: "'f list \<Rightarrow> bool \<Rightarrow> ('f, 'b) collector" where
  "collector_new schema is_producer =
     \<lparr> oc_schema = schema, oc_items = [], oc_data_emitted = False, oc_finished = False, oc_is_producer = is_producer,
       oc_response_limit_bytes = None, oc_preferred_response_bytes = None \<rparr>"

definition collector_set_response_budget ::
  "nat option \<Rightarrow> nat option \<Rightarrow> ('f, 'b) collector \<Rightarrow> ('f, 'b) collector" where
  "collector_set_response_budget limit preferred c =
     c\<lparr> oc_response_limit_bytes := limit,
        oc_preferred_response_bytes :=
          map_option (\<lambda>p. case limit of Some hard \<Rightarrow> min p hard | None \<Rightarrow> p) preferred \<rparr>"

definition ensure_data_slot :: "('f, 'b) collector \<Rightarrow> unit rpc_result" where
  "ensure_data_slot c =
     (if oc_data_emitted c then Inl (protocol_error ''only one data batch may be emitted per stream turn'')
      else Inr ())"

definition emit_checked ::
  "('f list, 'b) shm_api \<Rightarrow> ('f list \<Rightarrow> string) \<Rightarrow> string \<Rightarrow> 'b \<Rightarrow> metadata option \<Rightarrow> ('f, 'b) collector
   \<Rightarrow> unit rpc_result \<times> ('f, 'b) collector" where
  "emit_checked S show_schema name b md c =
     (case ensure_data_slot c of
        Inl e \<Rightarrow> (Inl e, c)
      | Inr _ \<Rightarrow>
          if sa_schema S b \<noteq> oc_schema c then
            (Inl (runtime_error (name @ ''(): schema mismatch '' @ em_dash @ '' expected ''
               @ show_schema (oc_schema c) @ '', got '' @ show_schema (sa_schema S b))), c)
          else (Inr (), c\<lparr> oc_items := oc_items c @ [Emit_Batch b md], oc_data_emitted := True \<rparr>))"

definition emit ::
  "('f list, 'b) shm_api \<Rightarrow> ('f list \<Rightarrow> string) \<Rightarrow> 'b \<Rightarrow> ('f, 'b) collector \<Rightarrow> unit rpc_result \<times> ('f, 'b) collector" where
  "emit S show_schema b c = emit_checked S show_schema ''emit'' b None c"

definition emit_with_metadata ::
  "('f list, 'b) shm_api \<Rightarrow> ('f list \<Rightarrow> string) \<Rightarrow> 'b \<Rightarrow> metadata \<Rightarrow> ('f, 'b) collector
   \<Rightarrow> unit rpc_result \<times> ('f, 'b) collector" where
  "emit_with_metadata S show_schema b md c = emit_checked S show_schema ''emit_with_metadata'' b (Some md) c"

definition collector_finish :: "('f, 'b) collector \<Rightarrow> ('f, 'b) collector" where
  "collector_finish c = c\<lparr> oc_finished := True \<rparr>"

definition client_log_with :: "log_message \<Rightarrow> ('f, 'b) collector \<Rightarrow> ('f, 'b) collector" where
  "client_log_with m c = c\<lparr> oc_items := oc_items c @ [Emit_Log m] \<rparr>"

definition client_log :: "log_level \<Rightarrow> string \<Rightarrow> ('f, 'b) collector \<Rightarrow> ('f, 'b) collector" where
  "client_log level m c = client_log_with \<lparr> lm_level = level, lm_message = m, lm_extras = [] \<rparr> c"

text \<open>What application code can make of a collector through its public operations.\<close>

inductive collector_step ::
  "('f list, 'b) shm_api \<Rightarrow> ('f list \<Rightarrow> string) \<Rightarrow> ('f, 'b) collector \<Rightarrow> ('f, 'b) collector \<Rightarrow> bool"
  for S show_schema where
  step_emit: "collector_step S show_schema c (snd (emit S show_schema b c))"
| step_emit_md: "collector_step S show_schema c (snd (emit_with_metadata S show_schema b md c))"
| step_finish: "collector_step S show_schema c (collector_finish c)"
| step_log: "collector_step S show_schema c (client_log_with m c)"

abbreviation collector_reach ::
  "('f list, 'b) shm_api \<Rightarrow> ('f list \<Rightarrow> string) \<Rightarrow> ('f, 'b) collector \<Rightarrow> ('f, 'b) collector \<Rightarrow> bool" where
  "collector_reach S show_schema \<equiv> (collector_step S show_schema)\<^sup>*\<^sup>*"

section \<open>The call context\<close>

record call_context =
  cc_server_id :: string
  cc_method :: string
  cc_request_id :: string
  cc_transport_metadata :: metadata
  cc_auth :: auth_context
  cc_cookies :: "(string \<times> string) list"
  cc_response_limit_bytes :: "nat option"
  cc_preferred_response_bytes :: "nat option"
  cc_tick_metadata :: metadata

text \<open>
  Peer evidence, the transport kind and the sticky sink are fixed for a request and known to application
  code through its world.
\<close>

definition with_auth_cookies ::
  "string \<Rightarrow> 'f request \<Rightarrow> auth_context \<Rightarrow> (string \<times> string) list \<Rightarrow> call_context" where
  "with_auth_cookies server_id req auth cookies =
     \<lparr> cc_server_id = server_id, cc_method = rq_method req, cc_request_id = rq_request_id req,
       cc_transport_metadata = rq_metadata req, cc_auth = auth, cc_cookies = cookies,
       cc_response_limit_bytes = None, cc_preferred_response_bytes = None, cc_tick_metadata = [] \<rparr>"

definition for_request_on_connection :: "string \<Rightarrow> 'f request \<Rightarrow> auth_context \<Rightarrow> call_context" where
  "for_request_on_connection server_id req auth = with_auth_cookies server_id req auth []"

definition context_set_response_budget :: "nat option \<Rightarrow> nat option \<Rightarrow> call_context \<Rightarrow> call_context" where
  "context_set_response_budget limit preferred ctx =
     ctx\<lparr> cc_response_limit_bytes := limit,
          cc_preferred_response_bytes :=
            map_option (\<lambda>p. case limit of Some hard \<Rightarrow> min p hard | None \<Rightarrow> p) preferred \<rparr>"

definition set_tick_metadata :: "metadata \<Rightarrow> call_context \<Rightarrow> call_context" where
  "set_tick_metadata md ctx = ctx\<lparr> cc_tick_metadata := md \<rparr>"

section \<open>Application code\<close>

definition call_guard :: "'a outcome \<Rightarrow> 'a rpc_result" where
  "call_guard r = (case r of Panic \<Rightarrow> Inl (rpc_error_new ''RuntimeError'' ''handler panicked'') | Done x \<Rightarrow> Inr x)"

text \<open>\<^verbatim>\<open>call_guard(...).and_then(|r| r)\<close>.\<close>

definition guarded :: "'a rpc_result outcome \<Rightarrow> 'a rpc_result" where
  "guarded r = and_then (call_guard r) (\<lambda>x. x)"

record ('f, 'b, 'st, 'w) turn =
  tn_state :: 'st
  tn_out :: "('f, 'b) collector"
  tn_logs :: "log_message list"
  tn_world :: 'w
  tn_result :: "unit rpc_result outcome"

datatype 'st stream_state = Producer_State 'st | Exchange_State 'st

record external_ref =
  xr_url :: string
  xr_sha256 :: "string option"

record ('f, 'b, 'st) stream_result =
  so_output_schema :: "'f list"
  so_input_schema :: "'f list option"
  so_state :: "'st stream_state"
  so_header :: "'b option"
  so_header_metadata :: "metadata option"

definition stream_result_producer :: "'f list \<Rightarrow> 'st \<Rightarrow> ('f, 'b, 'st) stream_result" where
  "stream_result_producer schema st =
     \<lparr> so_output_schema = schema, so_input_schema = None, so_state = Producer_State st, so_header = None,
       so_header_metadata = None \<rparr>"

definition stream_result_exchange :: "'f list \<Rightarrow> 'f list \<Rightarrow> 'st \<Rightarrow> ('f, 'b, 'st) stream_result" where
  "stream_result_exchange output input st =
     \<lparr> so_output_schema = output, so_input_schema = Some input, so_state = Exchange_State st, so_header = None,
       so_header_metadata = None \<rparr>"

definition with_header :: "'b \<Rightarrow> ('f, 'b, 'st) stream_result \<Rightarrow> ('f, 'b, 'st) stream_result" where
  "with_header b r = r\<lparr> so_header := Some b \<rparr>"

record ('f, 'b, 'st, 'w) application =
  ap_unary :: "string \<Rightarrow> 'f request \<Rightarrow> 'b \<Rightarrow> call_context \<Rightarrow> 'w
    \<Rightarrow> 'b option rpc_result outcome \<times> log_message list \<times> external_ref option \<times> 'w"
  ap_stream :: "string \<Rightarrow> 'f request \<Rightarrow> 'b \<Rightarrow> call_context \<Rightarrow> 'w
    \<Rightarrow> ('f, 'b, 'st) stream_result rpc_result outcome \<times> log_message list \<times> 'w"
  ap_produce :: "'st \<Rightarrow> ('f, 'b) collector \<Rightarrow> call_context \<Rightarrow> 'w \<Rightarrow> ('f, 'b, 'st, 'w) turn"
  ap_exchange :: "'st \<Rightarrow> 'b \<Rightarrow> ('f, 'b) collector \<Rightarrow> call_context \<Rightarrow> 'w \<Rightarrow> ('f, 'b, 'st, 'w) turn"
  ap_on_cancel :: "'st \<Rightarrow> call_context \<Rightarrow> 'w \<Rightarrow> unit outcome \<times> log_message list \<times> 'w"
  ap_encode_state :: "'st stream_state \<Rightarrow> bytes rpc_result outcome"
  ap_state_decoder :: "string \<Rightarrow> string \<Rightarrow> (bytes \<Rightarrow> 'st stream_state rpc_result outcome) option"

text \<open>
  The first argument of \<^verbatim>\<open>ap_unary\<close> and \<^verbatim>\<open>ap_stream\<close> is the protocol whose method is called; the batch is the
  whole parameter batch, of which the request has the fields and the row count.
\<close>

section \<open>Facts about collectors\<close>

text \<open>What one turn leaves in its collector: at most one data batch, and that of the stream's schema.\<close>

definition data_items :: "'b emitted list \<Rightarrow> 'b list" where
  "data_items items = List.map_filter (\<lambda>i. case i of Emit_Batch b _ \<Rightarrow> Some b | Emit_Log _ \<Rightarrow> None) items"

lemma data_items_simps [simp]:
  "data_items [] = []"
  "data_items (Emit_Batch b md # items) = b # data_items items"
  "data_items (Emit_Log m # items) = data_items items"
  "data_items (items @ items') = data_items items @ data_items items'"
  by (simp_all add: data_items_def map_filter_def)

definition collector_ok :: "('f list, 'b) shm_api \<Rightarrow> ('f, 'b) collector \<Rightarrow> bool" where
  "collector_ok S c =
     (length (data_items (oc_items c)) = (if oc_data_emitted c then 1 else 0)
      \<and> list_all (\<lambda>b. sa_schema S b = oc_schema c) (data_items (oc_items c)))"

lemma collector_ok_new [simp]: "collector_ok S (collector_new schema p)"
  by (simp add: collector_ok_def collector_new_def)

lemma collector_ok_budget [simp]: "collector_ok S (collector_set_response_budget l p c) = collector_ok S c"
  by (simp add: collector_ok_def collector_set_response_budget_def)

lemma collector_ok_step:
  "collector_step S show_schema c c' \<Longrightarrow> collector_ok S c \<Longrightarrow> collector_ok S c' \<and> oc_schema c' = oc_schema c"
  by (induction rule: collector_step.induct)
    (auto simp: collector_ok_def emit_def emit_with_metadata_def emit_checked_def ensure_data_slot_def
      collector_finish_def client_log_with_def)

lemma collector_ok_reach:
  "collector_reach S show_schema c c' \<Longrightarrow> collector_ok S c \<Longrightarrow> collector_ok S c' \<and> oc_schema c' = oc_schema c"
  by (induction rule: rtranclp_induct) (use collector_ok_step in metis)+

text \<open>Application code leaves the collector in a state that its operations can reach.\<close>

definition application_ok ::
  "('f list, 'b) shm_api \<Rightarrow> ('f list \<Rightarrow> string) \<Rightarrow> ('f, 'b, 'st, 'w) application \<Rightarrow> bool" where
  "application_ok S show_schema app =
     ((\<forall>st c ctx w. collector_reach S show_schema c (tn_out (ap_produce app st c ctx w)))
      \<and> (\<forall>st b c ctx w. collector_reach S show_schema c (tn_out (ap_exchange app st b c ctx w))))"

end
