(* ===== verification/Protocol_Hash.thy ===== *)
theory Protocol_Hash
  imports Binding Crypto Json_Text "HOL-Library.Multiset"
begin

text \<open>
  The fingerprint of a protocol: \<^verbatim>\<open>vgi-rpc/src/type_tokens.rs\<close>, \<^verbatim>\<open>protocol_hash.rs\<close> and the method tables of
  \<^verbatim>\<open>reflection.rs\<close>. An Arrow field is its name, type and nullability. SHA-256 and the JSON text are parameters;
  what is used of the latter is that the text of a value tells where it ends.
\<close>

section \<open>Arrow types\<close>

datatype atom_type =
    Null_T | Boolean_T | Int8_T | Int16_T | Int32_T | Int64_T | UInt8_T | UInt16_T | UInt32_T | UInt64_T
  | Float16_T | Float32_T | Float64_T | Utf8_T | LargeUtf8_T | Utf8View_T | Binary_T | LargeBinary_T
  | BinaryView_T | Date32_T | Date64_T | IntervalYearMonth_T | IntervalDayTime_T | IntervalMonthDayNano_T

datatype time_unit = Second | Millisecond | Microsecond | Nanosecond
datatype union_mode = Sparse | Dense

datatype data_type =
    Atom atom_type
  | FixedSizeBinary int
  | Time32 time_unit
  | Time64 time_unit
  | Timestamp time_unit "string option"
  | Duration time_unit
  | Decimal32 nat int
  | Decimal64 nat int
  | Decimal128 nat int
  | Decimal256 nat int
  | Arrow_List arrow_field
  | LargeList arrow_field
  | ListView arrow_field
  | LargeListView arrow_field
  | FixedSizeList arrow_field int
  | Struct "arrow_field list"
  | Arrow_Map arrow_field bool
  | Dictionary data_type data_type
  | RunEndEncoded arrow_field arrow_field
  | Arrow_Union "(int \<times> arrow_field) list" union_mode
and arrow_field = Field (af_name: string) (af_data_type: data_type) (af_nullable: bool)

type_synonym schema = "arrow_field list"

section \<open>Type tokens\<close>

fun atom_token :: "atom_type \<Rightarrow> string" where
  "atom_token Null_T = ''null''"
| "atom_token Boolean_T = ''bool''"
| "atom_token Int8_T = ''int8''"
| "atom_token Int16_T = ''int16''"
| "atom_token Int32_T = ''int32''"
| "atom_token Int64_T = ''int64''"
| "atom_token UInt8_T = ''uint8''"
| "atom_token UInt16_T = ''uint16''"
| "atom_token UInt32_T = ''uint32''"
| "atom_token UInt64_T = ''uint64''"
| "atom_token Float16_T = ''float16''"
| "atom_token Float32_T = ''float32''"
| "atom_token Float64_T = ''float64''"
| "atom_token Utf8_T = ''utf8''"
| "atom_token LargeUtf8_T = ''large_utf8''"
| "atom_token Utf8View_T = ''utf8_view''"
| "atom_token Binary_T = ''binary''"
| "atom_token LargeBinary_T = ''large_binary''"
| "atom_token BinaryView_T = ''binary_view''"
| "atom_token Date32_T = ''date32''"
| "atom_token Date64_T = ''date64''"
| "atom_token IntervalYearMonth_T = ''interval_months''"
| "atom_token IntervalDayTime_T = ''interval_day_time''"
| "atom_token IntervalMonthDayNano_T = ''interval_month_day_nano''"

fun unit_token :: "time_unit \<Rightarrow> string" where
  "unit_token Second = ''s''"
| "unit_token Millisecond = ''ms''"
| "unit_token Microsecond = ''us''"
| "unit_token Nanosecond = ''ns''"

fun union_kind :: "union_mode \<Rightarrow> string" where
  "union_kind Sparse = ''sparse_union''"
| "union_kind Dense = ''dense_union''"

definition decimal_token :: "string \<Rightarrow> nat \<Rightarrow> int \<Rightarrow> string" where
  "decimal_token name p s = name @ ''('' @ show_nat p @ '','' @ show_int s @ '')''"

text \<open>
  The printed form of a type (its \<^verbatim>\<open>Debug\<close>) is a parameter; it occurs in the error for an unsupported type only.
\<close>

fun type_token :: "(data_type \<Rightarrow> string) \<Rightarrow> data_type \<Rightarrow> string + string"
  and anon_child :: "(data_type \<Rightarrow> string) \<Rightarrow> arrow_field \<Rightarrow> string \<Rightarrow> string + string"
  and child_tokens :: "(data_type \<Rightarrow> string) \<Rightarrow> arrow_field list \<Rightarrow> string + string list"
  and union_tokens :: "(data_type \<Rightarrow> string) \<Rightarrow> (int \<times> arrow_field) list \<Rightarrow> string + string list" where
  "type_token dbg (Atom a) = Inr (atom_token a)"
| "type_token dbg (FixedSizeBinary width) = Inr (''fixed_size_binary('' @ show_int width @ '')'')"
| "type_token dbg (Time32 unit) = Inr (''time32('' @ unit_token unit @ '')'')"
| "type_token dbg (Time64 unit) = Inr (''time64('' @ unit_token unit @ '')'')"
| "type_token dbg (Timestamp unit tz) =
     Inr (''timestamp('' @ unit_token unit @ (case tz of None \<Rightarrow> [] | Some z \<Rightarrow> '',tz='' @ z) @ '')'')"
| "type_token dbg (Duration unit) = Inr (''duration('' @ unit_token unit @ '')'')"
| "type_token dbg (Decimal32 p s) = Inr (decimal_token ''decimal32'' p s)"
| "type_token dbg (Decimal64 p s) = Inr (decimal_token ''decimal64'' p s)"
| "type_token dbg (Decimal128 p s) = Inr (decimal_token ''decimal128'' p s)"
| "type_token dbg (Decimal256 p s) = Inr (decimal_token ''decimal256'' p s)"
| "type_token dbg (Arrow_List f) = and_then (anon_child dbg f ''item'') (\<lambda>c. Inr (''list<'' @ c @ ''>''))"
| "type_token dbg (LargeList f) = and_then (anon_child dbg f ''item'') (\<lambda>c. Inr (''large_list<'' @ c @ ''>''))"
| "type_token dbg (ListView f) = and_then (anon_child dbg f ''item'') (\<lambda>c. Inr (''list_view<'' @ c @ ''>''))"
| "type_token dbg (LargeListView f) =
     and_then (anon_child dbg f ''item'') (\<lambda>c. Inr (''large_list_view<'' @ c @ ''>''))"
| "type_token dbg (FixedSizeList f n) =
     and_then (anon_child dbg f ''item'') (\<lambda>c. Inr (''fixed_size_list('' @ show_int n @ '')<'' @ c @ ''>''))"
| "type_token dbg (Struct fs) =
     and_then (child_tokens dbg fs) (\<lambda>cs. Inr (''struct<'' @ join '','' cs @ ''>''))"
| "type_token dbg (Arrow_Map entries keys_sorted) =
     (case entries of Field _ t _ \<Rightarrow>
      case t of
        Struct kv \<Rightarrow>
          (case kv of
             [k, v] \<Rightarrow>
               and_then (anon_child dbg k ''key'') (\<lambda>ck.
               and_then (anon_child dbg v ''value'') (\<lambda>cv.
               let token = ''map<'' @ ck @ '','' @ cv @ ''>'' in
               Inr (if keys_sorted then token @ '',keys_sorted'' else token)))
           | _ \<Rightarrow> Inl (dbg (Arrow_Map entries keys_sorted)))
      | _ \<Rightarrow> Inl (dbg (Arrow_Map entries keys_sorted)))"
| "type_token dbg (Dictionary index v) =
     and_then (type_token dbg index) (\<lambda>i.
     and_then (type_token dbg v) (\<lambda>t.
     Inr (''dictionary<index:'' @ i @ '',value:'' @ t @ ''>'')))"
| "type_token dbg (RunEndEncoded run_ends vals) =
     (case run_ends of Field _ t _ \<Rightarrow> case vals of Field _ u _ \<Rightarrow>
      and_then (type_token dbg t) (\<lambda>i.
      and_then (type_token dbg u) (\<lambda>v.
      Inr (''run_end_encoded<run_ends:'' @ i @ '',values:'' @ v @ ''>''))))"
| "type_token dbg (Arrow_Union fs mode) =
     and_then (union_tokens dbg fs) (\<lambda>cs. Inr (union_kind mode @ ''<'' @ join '','' cs @ ''>''))"
| "anon_child dbg (Field _ t nullable) name =
     and_then (type_token dbg t) (\<lambda>token. Inr (name @ (if nullable then ''?'' else []) @ '':'' @ token))"
| "child_tokens dbg [] = Inr []"
| "child_tokens dbg (f # fs) =
     and_then (anon_child dbg f (af_name f)) (\<lambda>c. and_then (child_tokens dbg fs) (\<lambda>cs. Inr (c # cs)))"
| "union_tokens dbg [] = Inr []"
| "union_tokens dbg ((code, f) # fs) =
     and_then (anon_child dbg f (af_name f)) (\<lambda>c.
     and_then (union_tokens dbg fs) (\<lambda>cs. Inr ((show_int code @ ''='' @ c) # cs)))"

record field_token =
  ft_name :: string
  ft_nullable :: bool
  ft_type_token :: string

fun field_tokens :: "(data_type \<Rightarrow> string) \<Rightarrow> arrow_field list \<Rightarrow> string + field_token list" where
  "field_tokens dbg [] = Inr []"
| "field_tokens dbg (f # fs) =
     and_then (type_token dbg (af_data_type f)) (\<lambda>t.
     and_then (field_tokens dbg fs) (\<lambda>ts.
     Inr (\<lparr> ft_name = af_name f, ft_nullable = af_nullable f, ft_type_token = t \<rparr> # ts)))"

definition schema_tokens :: "(data_type \<Rightarrow> string) \<Rightarrow> schema option \<Rightarrow> string + field_token list" where
  "schema_tokens dbg s = (case s of None \<Rightarrow> Inr [] | Some fs \<Rightarrow> field_tokens dbg fs)"

section \<open>The canonical description\<close>

record hash_method =
  hm_name :: string
  hm_method_type :: string
  hm_has_return :: bool
  hm_has_header :: bool
  hm_params_schema :: "schema option"
  hm_result_schema :: "schema option"
  hm_header_schema :: "schema option"

record method_entry =
  me_has_header :: bool
  me_has_return :: bool
  me_header :: "field_token list option"
  me_name :: string
  me_params :: "field_token list"
  me_result :: "field_token list option"
  me_method_type :: string

definition field_token_json :: "field_token \<Rightarrow> json" where
  "field_token_json t =
     JObj [(''name'', JStr (ft_name t)), (''nullable'', JBool (ft_nullable t)), (''type'', JStr (ft_type_token t))]"

definition fields_json :: "field_token list \<Rightarrow> json" where
  "fields_json ts = JArr (map field_token_json ts)"

text \<open>The serializer writes the fields in declaration order and skips absent ones.\<close>

definition method_entry_json :: "method_entry \<Rightarrow> json" where
  "method_entry_json m =
     JObj ([(''has_header'', JBool (me_has_header m)), (''has_return'', JBool (me_has_return m))]
       @ (case me_header m of None \<Rightarrow> [] | Some ts \<Rightarrow> [(''header'', fields_json ts)])
       @ [(''name'', JStr (me_name m)), (''params'', fields_json (me_params m))]
       @ (case me_result m of None \<Rightarrow> [] | Some ts \<Rightarrow> [(''result'', fields_json ts)])
       @ [(''type'', JStr (me_method_type m))])"

definition tokens_if :: "(data_type \<Rightarrow> string) \<Rightarrow> bool \<Rightarrow> schema option \<Rightarrow> string + field_token list option" where
  "tokens_if dbg present s =
     (if present then and_then (schema_tokens dbg s) (\<lambda>ts. Inr (Some ts)) else Inr None)"

definition method_entry_of :: "(data_type \<Rightarrow> string) \<Rightarrow> hash_method \<Rightarrow> string + method_entry" where
  "method_entry_of dbg m =
     and_then (tokens_if dbg (hm_has_header m) (hm_header_schema m)) (\<lambda>header.
     and_then (schema_tokens dbg (hm_params_schema m)) (\<lambda>params.
     and_then (tokens_if dbg (hm_has_return m) (hm_result_schema m)) (\<lambda>result.
     Inr \<lparr> me_has_header = hm_has_header m, me_has_return = hm_has_return m, me_header = header,
           me_name = hm_name m, me_params = params, me_result = result, me_method_type = hm_method_type m \<rparr>)))"

fun method_entries :: "(data_type \<Rightarrow> string) \<Rightarrow> hash_method list \<Rightarrow> string + method_entry list" where
  "method_entries dbg [] = Inr []"
| "method_entries dbg (m # ms) =
     and_then (method_entry_of dbg m) (\<lambda>e. and_then (method_entries dbg ms) (\<lambda>es. Inr (e # es)))"

definition canonical_description ::
  "(data_type \<Rightarrow> string) \<Rightarrow> (json \<Rightarrow> string) \<Rightarrow> string \<Rightarrow> hash_method list \<Rightarrow> string + string" where
  "canonical_description dbg to_text protocol_name methods =
     and_then (method_entries dbg (sort_key hm_name methods)) (\<lambda>entries.
     Inr (''{'' @ [CHR 0x22] @ ''methods'' @ [CHR 0x22] @ '':'' @ to_text (JArr (map method_entry_json entries))
       @ '','' @ [CHR 0x22] @ ''protocol'' @ [CHR 0x22] @ '':'' @ to_text (JStr protocol_name) @ ''}''))"

definition HASH_DOMAIN :: string where "HASH_DOMAIN = ''vgi_rpc.protocol_hash.v1|''"

definition compute_protocol_hash ::
  "token_crypto \<Rightarrow> (data_type \<Rightarrow> string) \<Rightarrow> (json \<Rightarrow> string) \<Rightarrow> string \<Rightarrow> hash_method list \<Rightarrow> string + string" where
  "compute_protocol_hash T dbg to_text protocol_name methods =
     and_then (canonical_description dbg to_text protocol_name methods) (\<lambda>preimage.
     Inr (bytes_to_hex (tc_sha256 T (as_bytes HASH_DOMAIN @ as_bytes preimage))))"

section \<open>Method tables\<close>

definition unary_has_return :: "arrow_field method_info \<Rightarrow> bool" where
  "unary_has_return info = (mi_method_type info = Unary \<and> mi_result_schema info \<noteq> [])"

definition hash_method_of :: "arrow_field method_info \<Rightarrow> hash_method" where
  "hash_method_of info =
     \<lparr> hm_name = mi_name info,
       hm_method_type = (if mi_method_type info = Unary then ''unary'' else ''stream''),
       hm_has_return = unary_has_return info,
       hm_has_header = (mi_header_schema info \<noteq> None),
       hm_params_schema = Some (mi_params_schema info),
       hm_result_schema = Some (mi_result_schema info),
       hm_header_schema = mi_header_schema info \<rparr>"

definition hash_methods :: "arrow_field method_table \<Rightarrow> hash_method list" where
  "hash_methods methods = map (\<lambda>(_, info). hash_method_of info) methods"

definition unsupported_type_message :: "string \<Rightarrow> string" where
  "unsupported_type_message ty =
     ''Arrow type '' @ ty @ '' has no canonical token. Add one to type_tokens.rs and to every other port at the same time: ''
     @ ''a one-sided addition changes only this port's protocol hash.''"

definition binding_hash ::
  "token_crypto \<Rightarrow> (data_type \<Rightarrow> string) \<Rightarrow> (json \<Rightarrow> string) \<Rightarrow> string \<Rightarrow> arrow_field method_table \<Rightarrow> string rpc_result" where
  "binding_hash T dbg to_text name methods =
     map_err (\<lambda>ty. protocol_error (''computing protocol hash for '' @ debug_str name @ '': ''
         @ unsupported_type_message ty))
       (compute_protocol_hash T dbg to_text name (hash_methods methods))"

section \<open>Tokens seen as trees\<close>

text \<open>
  Every token is a keyword, parameters in parentheses, children in angle brackets and a suffix. A child is
  its prefix, its nullability and its type.
\<close>

fun type_kw :: "data_type \<Rightarrow> string" where
  "type_kw (Atom a) = atom_token a"
| "type_kw (FixedSizeBinary _) = ''fixed_size_binary''"
| "type_kw (Time32 _) = ''time32''"
| "type_kw (Time64 _) = ''time64''"
| "type_kw (Timestamp _ _) = ''timestamp''"
| "type_kw (Duration _) = ''duration''"
| "type_kw (Decimal32 _ _) = ''decimal32''"
| "type_kw (Decimal64 _ _) = ''decimal64''"
| "type_kw (Decimal128 _ _) = ''decimal128''"
| "type_kw (Decimal256 _ _) = ''decimal256''"
| "type_kw (Arrow_List _) = ''list''"
| "type_kw (LargeList _) = ''large_list''"
| "type_kw (ListView _) = ''list_view''"
| "type_kw (LargeListView _) = ''large_list_view''"
| "type_kw (FixedSizeList _ _) = ''fixed_size_list''"
| "type_kw (Struct _) = ''struct''"
| "type_kw (Arrow_Map _ _) = ''map''"
| "type_kw (Dictionary _ _) = ''dictionary''"
| "type_kw (RunEndEncoded _ _) = ''run_end_encoded''"
| "type_kw (Arrow_Union _ mode) = union_kind mode"

fun type_params :: "data_type \<Rightarrow> string" where
  "type_params (FixedSizeBinary width) = show_int width"
| "type_params (Time32 unit) = unit_token unit"
| "type_params (Time64 unit) = unit_token unit"
| "type_params (Timestamp unit tz) = unit_token unit @ (case tz of None \<Rightarrow> [] | Some z \<Rightarrow> '',tz='' @ z)"
| "type_params (Duration unit) = unit_token unit"
| "type_params (Decimal32 p s) = show_nat p @ '','' @ show_int s"
| "type_params (Decimal64 p s) = show_nat p @ '','' @ show_int s"
| "type_params (Decimal128 p s) = show_nat p @ '','' @ show_int s"
| "type_params (Decimal256 p s) = show_nat p @ '','' @ show_int s"
| "type_params (FixedSizeList _ n) = show_int n"
| "type_params _ = []"

definition in_parens :: "string \<Rightarrow> string" where
  "in_parens p = (if p = [] then [] else ''('' @ p @ '')'')"

type_synonym child_view = "string \<times> bool \<times> data_type"

definition field_view :: "string \<Rightarrow> arrow_field \<Rightarrow> child_view" where
  "field_view name f = (name, af_nullable f, af_data_type f)"

fun type_children :: "data_type \<Rightarrow> child_view list option" where
  "type_children (Arrow_List f) = Some [field_view ''item'' f]"
| "type_children (LargeList f) = Some [field_view ''item'' f]"
| "type_children (ListView f) = Some [field_view ''item'' f]"
| "type_children (LargeListView f) = Some [field_view ''item'' f]"
| "type_children (FixedSizeList f _) = Some [field_view ''item'' f]"
| "type_children (Struct fs) = Some (map (\<lambda>f. field_view (af_name f) f) fs)"
| "type_children (Arrow_Map (Field _ (Struct [k, v]) _) _) = Some [field_view ''key'' k, field_view ''value'' v]"
| "type_children (Dictionary i v) = Some [(''index'', False, i), (''value'', False, v)]"
| "type_children (RunEndEncoded r v) = Some [(''run_ends'', False, af_data_type r), (''values'', False, af_data_type v)]"
| "type_children (Arrow_Union fs _) = Some (map (\<lambda>(code, f). field_view (show_int code @ ''='' @ af_name f) f) fs)"
| "type_children _ = None"

fun type_suffix :: "data_type \<Rightarrow> string" where
  "type_suffix (Arrow_Map _ True) = '',keys_sorted''"
| "type_suffix _ = []"

definition child_text :: "(data_type \<Rightarrow> string) \<Rightarrow> child_view \<Rightarrow> string \<Rightarrow> bool" where
  "child_text dbg c text =
     (case c of (p, nullable, t) \<Rightarrow>
        \<exists>token. type_token dbg t = Inr token \<and> text = p @ (if nullable then ''?'' else []) @ '':'' @ token)"

lemma anon_child_text: "anon_child dbg f name = Inr c \<longleftrightarrow> child_text dbg (field_view name f) c"
  by (cases f; cases "type_token dbg (af_data_type f)") (auto simp: child_text_def field_view_def result_simps)

lemma child_tokens_text:
  "child_tokens dbg fs = Inr cs \<longleftrightarrow> list_all2 (child_text dbg) (map (\<lambda>f. field_view (af_name f) f) fs) cs"
proof (induction fs arbitrary: cs)
  case (Cons f fs)
  then show ?case
    by (cases "anon_child dbg f (af_name f)"; cases "child_tokens dbg fs"; cases cs)
      (simp_all add: result_simps anon_child_text [symmetric], auto)
qed (cases cs; auto simp: result_simps)+

lemma child_text_prefix:
  "child_text dbg (field_view (n @ m) f) c \<longleftrightarrow> (\<exists>d. child_text dbg (field_view m f) d \<and> c = n @ d)"
  by (auto simp: child_text_def field_view_def)

lemma union_tokens_text:
  "union_tokens dbg fs = Inr cs \<longleftrightarrow>
   list_all2 (child_text dbg) (map (\<lambda>(code, f). field_view (show_int code @ ''='' @ af_name f) f) fs) cs"
proof (induction fs arbitrary: cs)
  case Nil
  show ?case by (cases cs) auto
next
  case (Cons p fs)
  obtain code f where p: "p = (code, f)" by (cases p)
  have "union_tokens dbg (p # fs) = Inr cs \<longleftrightarrow>
    (\<exists>d ds. anon_child dbg f (af_name f) = Inr d \<and> union_tokens dbg fs = Inr ds \<and> cs = (show_int code @ ''='' @ d) # ds)"
    unfolding p union_tokens.simps and_then_Inr_iff by blast
  moreover have "child_text dbg (field_view (show_int code @ ''='' @ af_name f) f) c \<longleftrightarrow>
    (\<exists>d. anon_child dbg f (af_name f) = Inr d \<and> c = show_int code @ ''='' @ d)" for c
    using child_text_prefix [of dbg "show_int code @ ''=''" "af_name f" f c] by (simp add: anon_child_text)
  ultimately show ?case
    unfolding p list.map prod.case list_all2_Cons1 Cons.IH [symmetric] by blast
qed

lemma ex_list_all2 [simp]:
  "(\<exists>cs. list_all2 P [] cs \<and> Q cs) \<longleftrightarrow> Q []"
  "(\<exists>cs. list_all2 P (a # as) cs \<and> Q cs) \<longleftrightarrow> (\<exists>c. P a c \<and> (\<exists>cs. list_all2 P as cs \<and> Q (c # cs)))"
  by (auto simp: list_all2_Cons1)

text \<open>The token of a type, put together from the view.\<close>

definition is_token_of :: "(data_type \<Rightarrow> string) \<Rightarrow> data_type \<Rightarrow> string \<Rightarrow> bool" where
  "is_token_of dbg a s =
     (\<exists>body. s = type_kw a @ in_parens (type_params a) @ body @ type_suffix a
       \<and> (case type_children a of
            None \<Rightarrow> body = []
          | Some ch \<Rightarrow> \<exists>cs. list_all2 (child_text dbg) ch cs \<and> body = ''<'' @ join '','' cs @ ''>''))"

lemma show_nat_not_Nil [simp]: "show_nat n \<noteq> []"
  by (subst show_nat.simps) simp

lemma show_int_not_Nil [simp]: "show_int n \<noteq> []"
  by (simp add: show_int_def)

lemma unit_token_not_Nil [simp]: "unit_token u \<noteq> []"
  by (cases u) simp_all

lemma is_token_of_children:
  assumes "type_children a \<noteq> None" "list_all2 (child_text dbg) (the (type_children a)) cs"
    and "s = type_kw a @ in_parens (type_params a) @ ''<'' @ join '','' cs @ ''>'' @ type_suffix a"
  shows "is_token_of dbg a s"
proof -
  obtain ch where ch: "type_children a = Some ch" using assms(1) by blast
  then show ?thesis
    unfolding is_token_of_def
    by (intro exI [of _ "''<'' @ join '','' cs @ ''>''"] conjI) (use assms(2,3) in \<open>simp_all, blast\<close>)
qed

lemma type_token_leaf:
  assumes "type_children a = None" "type_token dbg a = Inr s"
  shows "is_token_of dbg a s"
proof (cases a)
  case (Arrow_Map e ks)
  obtain n ty nullable where e: "e = Field n ty nullable" by (cases e)
  with assms Arrow_Map obtain kv where ty: "ty = Struct kv"
    by (cases ty) simp_all
  with assms Arrow_Map e show ?thesis
    by (cases kv; cases "tl kv"; cases "tl (tl kv)") simp_all
qed (use assms in \<open>simp_all add: is_token_of_def in_parens_def decimal_token_def\<close>)

lemma type_token_one:
  assumes "type_children a = Some [field_view ''item'' f]" "type_suffix a = []"
    and "type_token dbg a = and_then (anon_child dbg f ''item'')
      (\<lambda>c. Inr (type_kw a @ in_parens (type_params a) @ ''<'' @ c @ ''>''))"
    and "type_token dbg a = Inr s"
  shows "is_token_of dbg a s"
proof -
  have "and_then (anon_child dbg f ''item'') (\<lambda>c. Inr (type_kw a @ in_parens (type_params a) @ ''<'' @ c @ ''>'')) = Inr s"
    using assms(3,4) by simp
  then obtain c where "anon_child dbg f ''item'' = Inr c" "s = type_kw a @ in_parens (type_params a) @ ''<'' @ c @ ''>''"
    unfolding and_then_Inr_iff by auto
  then show ?thesis
    by (intro is_token_of_children [of a dbg "[c]"]) (simp_all add: assms(1,2) anon_child_text)
qed

lemma type_token_map:
  assumes "type_token dbg (Arrow_Map e ks) = Inr s"
  shows "\<exists>n k v nullable ck cv. e = Field n (Struct [k, v]) nullable \<and> child_text dbg (field_view ''key'' k) ck
    \<and> child_text dbg (field_view ''value'' v) cv \<and> s = ''map<'' @ ck @ '','' @ cv @ ''>'' @ (if ks then '',keys_sorted'' else [])"
proof -
  obtain n ty nullable where e: "e = Field n ty nullable" by (cases e)
  with assms obtain kv where ty: "ty = Struct kv"
    by (cases ty) simp_all
  with assms e obtain k v where kv: "kv = [k, v]"
    by (cases kv; cases "tl kv"; cases "tl (tl kv)") simp_all
  show ?thesis
    using assms unfolding e ty kv by (cases ks) (simp_all add: result_simps anon_child_text, blast+)
qed

lemma type_token_view: "type_token dbg a = Inr s \<Longrightarrow> is_token_of dbg a s"
proof (cases a)
  case (Struct fs)
  assume "type_token dbg a = Inr s"
  then obtain cs where "child_tokens dbg fs = Inr cs" "s = ''struct<'' @ join '','' cs @ ''>''"
    by (auto simp: Struct result_simps)
  then show ?thesis
    by (intro is_token_of_children [of a dbg cs]) (simp_all add: Struct child_tokens_text in_parens_def)
next
  case (Arrow_Union fs mode)
  assume "type_token dbg a = Inr s"
  then obtain cs where "union_tokens dbg fs = Inr cs" "s = union_kind mode @ ''<'' @ join '','' cs @ ''>''"
    by (auto simp: Arrow_Union result_simps)
  then show ?thesis
    by (intro is_token_of_children [of a dbg cs]) (simp_all add: Arrow_Union union_tokens_text in_parens_def)
next
  case (Arrow_Map e ks)
  assume "type_token dbg a = Inr s"
  from type_token_map [OF this [unfolded Arrow_Map]] obtain n k v nullable ck cv where
    "e = Field n (Struct [k, v]) nullable" "child_text dbg (field_view ''key'' k) ck"
    "child_text dbg (field_view ''value'' v) cv"
    "s = ''map<'' @ ck @ '','' @ cv @ ''>'' @ (if ks then '',keys_sorted'' else [])"
    by blast
  then show ?thesis
    by (intro is_token_of_children [of a dbg "[ck, cv]"]; cases ks) (simp_all add: Arrow_Map in_parens_def)
next
  case (Dictionary i v)
  assume "type_token dbg a = Inr s"
  then obtain ti tv where "type_token dbg i = Inr ti" "type_token dbg v = Inr tv"
    "s = ''dictionary<index:'' @ ti @ '',value:'' @ tv @ ''>''"
    by (auto simp: Dictionary result_simps)
  then show ?thesis
    by (intro is_token_of_children [of a dbg "[''index:'' @ ti, ''value:'' @ tv]"])
      (simp_all add: Dictionary in_parens_def child_text_def)
next
  case (RunEndEncoded r v)
  assume "type_token dbg a = Inr s"
  then obtain ti tv where "type_token dbg (af_data_type r) = Inr ti" "type_token dbg (af_data_type v) = Inr tv"
    "s = ''run_end_encoded<run_ends:'' @ ti @ '',values:'' @ tv @ ''>''"
    by (cases r; cases v) (auto simp: RunEndEncoded result_simps)
  then show ?thesis
    by (intro is_token_of_children [of a dbg "[''run_ends:'' @ ti, ''values:'' @ tv]"])
      (simp_all add: RunEndEncoded in_parens_def child_text_def)
qed ((rule type_token_leaf, simp, assumption) | (rule type_token_one, simp, simp, simp add: in_parens_def, assumption))+

section \<open>Tokens are unambiguous\<close>

definition stops :: "(char \<Rightarrow> bool) \<Rightarrow> string \<Rightarrow> bool" where
  "stops P u = (u = [] \<or> \<not> P (hd u))"

lemma stops_simps [simp]: "stops P []" "stops P (c # u) \<longleftrightarrow> \<not> P c"
  by (simp_all add: stops_def)

lemma delim_split:
  "list_all P n \<Longrightarrow> list_all P n' \<Longrightarrow> stops P u \<Longrightarrow> stops P u' \<Longrightarrow> n @ u = n' @ u' \<Longrightarrow> n = n' \<and> u = u'"
proof (induction n arbitrary: n')
  case Nil
  then show ?case by (cases n') (auto simp: stops_def)
next
  case (Cons c n)
  then show ?case by (cases n') (auto simp: stops_def)
qed

definition plain_name :: "string \<Rightarrow> bool" where
  "plain_name n = list_all (\<lambda>c. c \<notin> set '',>:?='') n"

lemma size_af_data_type [termination_simp]: "size (af_data_type f) < size f"
  by (cases f) simp

lemma size_af_data_type_le [termination_simp]: "size (af_data_type f) < Suc (size f)" "size (af_data_type f) \<le> size f"
  using size_af_data_type [of f] by simp_all

lemma size_entry:
  assumes "af_data_type f = Struct kv" "x \<in> set kv"
  shows "size x < size f" "size (af_data_type x) < size f"
proof -
  have "size x \<le> size_list size kv"
    using assms(2) by (rule size_list_estimation') simp
  also have "\<dots> < size (af_data_type f)"
    using assms(1) by simp
  finally show "size x < size f"
    using size_af_data_type [of f] by simp
  then show "size (af_data_type x) < size f"
    using size_af_data_type [of x] by simp
qed

lemmas size_entry_less [termination_simp] = less_SucI [OF size_entry(1)] less_SucI [OF size_entry(2)]

text \<open>Names that the grammar of tokens can carry, at every level of a type.\<close>

fun plain_type :: "data_type \<Rightarrow> bool" and plain_field :: "arrow_field \<Rightarrow> bool" where
  "plain_type (Timestamp _ tz) = (case tz of None \<Rightarrow> True | Some z \<Rightarrow> CHR '')'' \<notin> set z)"
| "plain_type (Arrow_List f) = plain_type (af_data_type f)"
| "plain_type (LargeList f) = plain_type (af_data_type f)"
| "plain_type (ListView f) = plain_type (af_data_type f)"
| "plain_type (LargeListView f) = plain_type (af_data_type f)"
| "plain_type (FixedSizeList f _) = plain_type (af_data_type f)"
| "plain_type (Struct fs) = (\<forall>f\<in>set fs. plain_field f)"
| "plain_type (Arrow_Map f _) =
     (case af_data_type f of Struct kv \<Rightarrow> \<forall>f\<in>set kv. plain_type (af_data_type f) | _ \<Rightarrow> True)"
| "plain_type (Dictionary i v) = (plain_type i \<and> plain_type v)"
| "plain_type (RunEndEncoded r v) = (plain_type (af_data_type r) \<and> plain_type (af_data_type v))"
| "plain_type (Arrow_Union fs _) = (\<forall>(_, f)\<in>set fs. plain_field f)"
| "plain_type _ = True"
| "plain_field (Field n t _) = (plain_name n \<and> plain_type t)"

text \<open>
  What the tokens keep of a type: the names of list items and map entries are fixed, those of run-end
  encodings are dropped along with their nullability.
\<close>

fun normal_type :: "data_type \<Rightarrow> data_type" and normal_field :: "string \<Rightarrow> arrow_field \<Rightarrow> arrow_field" where
  "normal_type (Arrow_List f) = Arrow_List (normal_field ''item'' f)"
| "normal_type (LargeList f) = LargeList (normal_field ''item'' f)"
| "normal_type (ListView f) = ListView (normal_field ''item'' f)"
| "normal_type (LargeListView f) = LargeListView (normal_field ''item'' f)"
| "normal_type (FixedSizeList f n) = FixedSizeList (normal_field ''item'' f) n"
| "normal_type (Struct fs) = Struct (map (\<lambda>f. normal_field (af_name f) f) fs)"
| "normal_type (Arrow_Map f ks) =
     (case af_data_type f of
        Struct [k, v] \<Rightarrow> Arrow_Map (Field [] (Struct [normal_field ''key'' k, normal_field ''value'' v]) False) ks
      | _ \<Rightarrow> Arrow_Map f ks)"
| "normal_type (Dictionary i v) = Dictionary (normal_type i) (normal_type v)"
| "normal_type (RunEndEncoded r v) =
     RunEndEncoded (Field [] (normal_type (af_data_type r)) False) (Field [] (normal_type (af_data_type v)) False)"
| "normal_type (Arrow_Union fs mode) = Arrow_Union (map (\<lambda>(code, f). (code, normal_field (af_name f) f)) fs) mode"
| "normal_type t = t"
| "normal_field name (Field _ t nullable) = Field name (normal_type t) nullable"

lemma not_digit [simp]: "digit_val CHR '','' = None" "digit_val CHR ''-'' = None" "digit_val CHR ''='' = None"
  "digit_val CHR '')'' = None" "digit_val CHR ''?'' = None" "digit_val CHR '':'' = None" "digit_val CHR ''>'' = None"
  by (simp_all add: digit_val_def)

lemma show_int_chars: "c \<in> set (show_int i) \<Longrightarrow> digit_val c \<noteq> None \<or> c = CHR ''-''"
  using show_nat_digits by (auto simp: show_int_def split: if_splits)

lemma show_int_inj: "show_int i = show_int j \<Longrightarrow> i = j"
proof -
  assume eq: "show_int i = show_int j"
  have "hd (show_nat n) \<noteq> CHR ''-''" for n
    using show_nat_digits [of "hd (show_nat n)" n] by (metis hd_in_set not_digit(2) show_nat_not_Nil)
  moreover have "hd (show_int i) = CHR ''-'' \<longleftrightarrow> i < 0" "hd (show_int j) = CHR ''-'' \<longleftrightarrow> j < 0"
    using calculation by (simp_all add: show_int_def)
  ultimately have "i < 0 \<longleftrightarrow> j < 0" using eq by simp
  then have "(i < 0 \<longrightarrow> nat (- i) = nat (- j)) \<and> (\<not> i < 0 \<longrightarrow> nat i = nat j)"
    using eq by (simp add: show_int_def show_nat_inj split: if_splits)
  then show ?thesis
    using \<open>i < 0 \<longleftrightarrow> j < 0\<close> by linarith
qed

lemma unit_token_inj: "unit_token u = unit_token v \<Longrightarrow> u = v"
  by (cases u; cases v) simp_all

lemma unit_token_chars: "list_all (\<lambda>c. c \<noteq> CHR '','') (unit_token u)"
  by (cases u) simp_all

lemma decimal_params_inj:
  assumes "show_nat p @ '','' @ show_int s = show_nat q @ '','' @ show_int t"
  shows "p = q \<and> s = t"
proof -
  have "list_all (\<lambda>c. c \<noteq> CHR '','') (show_nat n)" for n
    using show_nat_digits [of "CHR '',''" n] by (auto simp: list_all_iff)
  then have "show_nat p = show_nat q \<and> '','' @ show_int s = '','' @ show_int t"
    using assms by (intro delim_split [of "\<lambda>c. c \<noteq> CHR '',''"]) simp_all
  then show ?thesis
    using show_nat_inj show_int_inj by simp
qed

lemma timestamp_params_inj:
  assumes "type_params (Timestamp u z) = type_params (Timestamp v w)"
  shows "u = v \<and> z = w"
proof -
  have "unit_token u = unit_token v
    \<and> (case z of None \<Rightarrow> [] | Some z \<Rightarrow> '',tz='' @ z) = (case w of None \<Rightarrow> [] | Some z \<Rightarrow> '',tz='' @ z)"
    using assms
    by (intro delim_split [of "\<lambda>c. c \<noteq> CHR '',''"]) (simp_all add: unit_token_chars split: option.split)
  then show ?thesis
    using unit_token_inj by (auto split: option.splits)
qed

lemma union_prefix_inj:
  assumes "show_int c @ ''='' @ n = show_int d @ ''='' @ m"
  shows "c = d \<and> n = m"
proof -
  have "list_all (\<lambda>c. c \<noteq> CHR ''='') (show_int i)" for i
    using show_int_chars [of "CHR ''=''" i] by (auto simp: list_all_iff)
  then have "show_int c = show_int d \<and> ''='' @ n = ''='' @ m"
    using assms by (intro delim_split [of "\<lambda>c. c \<noteq> CHR ''=''"]) simp_all
  then show ?thesis
    using show_int_inj by simp
qed

definition child_equiv :: "child_view \<Rightarrow> child_view \<Rightarrow> bool" where
  "child_equiv c d =
     (fst c = fst d \<and> fst (snd c) = fst (snd d) \<and> normal_type (snd (snd c)) = normal_type (snd (snd d)))"

lemma child_equiv_field:
  "child_equiv (field_view n f) (field_view m g) \<longleftrightarrow> n = m \<and> normal_field x f = normal_field x g"
  by (cases f; cases g) (auto simp: child_equiv_def field_view_def)

lemma child_equiv_pair: "child_equiv (p, n, t) (q, m, u) \<longleftrightarrow> p = q \<and> n = m \<and> normal_type t = normal_type u"
  by (simp add: child_equiv_def)

lemma normal_field_name: "normal_field x f = normal_field x g \<Longrightarrow> normal_field y f = normal_field y g"
  by (cases f; cases g) simp

lemma struct_equiv:
  "list_all2 child_equiv (map (\<lambda>f. field_view (af_name f) f) fs) (map (\<lambda>f. field_view (af_name f) f) gs)
   \<Longrightarrow> map (\<lambda>f. normal_field (af_name f) f) fs = map (\<lambda>f. normal_field (af_name f) f) gs"
  by (induction fs gs rule: list_induct2') (auto simp: child_equiv_field [where x = "af_name f" and f = f for f])

lemma union_equiv:
  "list_all2 child_equiv (map (\<lambda>(c, f). field_view (show_int c @ ''='' @ af_name f) f) fs)
     (map (\<lambda>(c, f). field_view (show_int c @ ''='' @ af_name f) f) gs)
   \<Longrightarrow> map (\<lambda>(c, f). (c, normal_field (af_name f) f)) fs = map (\<lambda>(c, f). (c, normal_field (af_name f) f)) gs"
proof (induction fs gs rule: list_induct2')
  case (4 x xs y ys)
  obtain c f where x: "x = (c, f)" by (cases x)
  obtain d g where y: "y = (d, g)" by (cases y)
  have "show_int c @ ''='' @ af_name f = show_int d @ ''='' @ af_name g \<and> normal_field (af_name f) f = normal_field (af_name f) g"
    using 4(2) child_equiv_field [of _ f _ g "af_name f"] by (simp add: x y)
  then show ?case
    using 4 union_prefix_inj [of c "af_name f" d "af_name g"] by (simp add: x y)
qed simp_all

lemma atom_token_inj: "atom_token x = atom_token y \<Longrightarrow> x = y"
  by (cases x; cases y) simp_all

lemma union_kind_inj: "union_kind x = union_kind y \<Longrightarrow> x = y"
  by (cases x; cases y) simp_all

text \<open>The keyword tells the constructor.\<close>

fun type_rank :: "data_type \<Rightarrow> nat" where
  "type_rank (Atom _) = 0"
| "type_rank (FixedSizeBinary _) = 1"
| "type_rank (Time32 _) = 2"
| "type_rank (Time64 _) = 3"
| "type_rank (Timestamp _ _) = 4"
| "type_rank (Duration _) = 5"
| "type_rank (Decimal32 _ _) = 6"
| "type_rank (Decimal64 _ _) = 7"
| "type_rank (Decimal128 _ _) = 8"
| "type_rank (Decimal256 _ _) = 9"
| "type_rank (Arrow_List _) = 10"
| "type_rank (LargeList _) = 11"
| "type_rank (ListView _) = 12"
| "type_rank (LargeListView _) = 13"
| "type_rank (FixedSizeList _ _) = 14"
| "type_rank (Struct _) = 15"
| "type_rank (Arrow_Map _ _) = 16"
| "type_rank (Dictionary _ _) = 17"
| "type_rank (RunEndEncoded _ _) = 18"
| "type_rank (Arrow_Union _ _) = 19"

definition keyword_rank :: "string \<Rightarrow> nat" where
  "keyword_rank w =
     (case map_of
        [(''fixed_size_binary'', 1), (''time32'', 2), (''time64'', 3), (''timestamp'', 4), (''duration'', 5),
         (''decimal32'', 6), (''decimal64'', 7), (''decimal128'', 8), (''decimal256'', 9), (''list'', 10),
         (''large_list'', 11), (''list_view'', 12), (''large_list_view'', 13), (''fixed_size_list'', 14),
         (''struct'', 15), (''map'', 16), (''dictionary'', 17), (''run_end_encoded'', 18),
         (''sparse_union'', 19), (''dense_union'', 19)] w of
        None \<Rightarrow> 0
      | Some n \<Rightarrow> n)"

lemma keyword_rank_atom: "keyword_rank (atom_token x) = 0"
  by (cases x) (simp_all add: keyword_rank_def)

lemma keyword_rank_kw: "keyword_rank (type_kw a) = type_rank a"
proof (cases a)
  case (Arrow_Union fs mode)
  then show ?thesis by (cases mode) (simp_all add: keyword_rank_def)
qed (simp_all add: keyword_rank_atom, simp_all add: keyword_rank_def)

lemma same_rank: "type_kw a = type_kw b \<Longrightarrow> type_rank a = type_rank b"
  using keyword_rank_kw by metis

lemma params_eq:
  "show_int i = show_int j \<longleftrightarrow> i = j"
  "unit_token u = unit_token v \<longleftrightarrow> u = v"
  "show_nat p @ CHR '','' # show_int i = show_nat q @ CHR '','' # show_int j \<longleftrightarrow> p = q \<and> i = j"
  using show_int_inj unit_token_inj decimal_params_inj [of p i q j] by auto

lemma normal_type_cong:
  assumes kw: "type_kw a = type_kw b" and par: "type_params a = type_params b"
    and suf: "type_suffix a = type_suffix b"
    and ch: "rel_option (list_all2 child_equiv) (type_children a) (type_children b)"
    and maps: "type_rank a = 16 \<Longrightarrow> type_children a \<noteq> None" "type_rank b = 16 \<Longrightarrow> type_children b \<noteq> None"
  shows "normal_type a = normal_type b"
proof (cases a)
  case (Atom x)
  then obtain y where "b = Atom y" using same_rank [OF kw] by (cases b) simp_all
  then show ?thesis using kw atom_token_inj Atom by simp
next
  case (Arrow_Map e ks)
  then obtain f js where b: "b = Arrow_Map f js" using same_rank [OF kw] by (cases b) simp_all
  obtain n k v nul where e: "e = Field n (Struct [k, v]) nul"
    using maps(1) Arrow_Map by (cases e) (auto elim!: type_children.elims)
  obtain m l w mul where f: "f = Field m (Struct [l, w]) mul"
    using maps(2) b by (cases f) (auto elim!: type_children.elims)
  show ?thesis
    using ch suf normal_field_name [of "''key''" v w "''value''"] unfolding Arrow_Map b e f
    by (cases ks; cases js) (simp_all add: child_equiv_field [where x = "''key''"])
next
  case (Arrow_Union fs mode)
  then obtain gs m where "b = Arrow_Union gs m" using same_rank [OF kw] by (cases b) simp_all
  then show ?thesis using kw ch Arrow_Union union_equiv union_kind_inj by simp
next
  case (Struct fs)
  then obtain gs where "b = Struct gs" using same_rank [OF kw] by (cases b) simp_all
  then show ?thesis using ch Struct struct_equiv by simp
next
  case (Timestamp u z)
  then obtain v w where "b = Timestamp v w" using same_rank [OF kw] by (cases b) simp_all
  then show ?thesis using par Timestamp timestamp_params_inj [of u z v w] by simp
qed (use same_rank [OF kw] par ch in
    \<open>cases b; simp add: child_equiv_field [where x = "''item''"] child_equiv_pair params_eq\<close>)+

text \<open>What can follow a token inside a longer one, or nothing.\<close>

definition follows :: "string \<Rightarrow> bool" where
  "follows r =
     (r = [] \<or> hd r = CHR ''>''
      \<or> (\<exists>n u. r = '','' @ n @ u \<and> plain_name n \<and> u \<noteq> [] \<and> hd u \<in> set '':?=''))"

lemma follows_close [simp]: "follows (CHR ''>'' # r)" "follows []"
  by (simp_all add: follows_def)

lemma follows_cases: "follows r \<Longrightarrow> r = [] \<or> hd r \<in> set '',>''"
  by (auto simp: follows_def)

lemma kw_chars: "list_all (\<lambda>c. c \<notin> set ''(<,>'') (type_kw a)"
proof (cases a)
  case (Atom x)
  then show ?thesis by (cases x) simp_all
next
  case (Arrow_Union fs mode)
  then show ?thesis by (cases mode) simp_all
qed simp_all

lemma suffix_unique:
  assumes "type_suffix a @ r = type_suffix b @ r'" "follows r" "follows r'"
  shows "type_suffix a = type_suffix b \<and> r = r'"
proof -
  have no: "\<not> (u = '',keys_sorted'' @ w)" if u: "follows u" and w: "follows w" for u w
  proof
    assume "u = '',keys_sorted'' @ w"
    moreover from this u obtain n v where "u = '','' @ n @ v" and n: "plain_name n" "v \<noteq> []" "hd v \<in> set '':?=''"
      unfolding follows_def by auto
    ultimately have nv: "n @ v = ''keys_sorted'' @ w" by simp
    have "n = ''keys_sorted'' \<and> v = w"
      using nv n follows_cases [OF w]
      by (intro delim_split [of "\<lambda>c. c \<notin> set '',>:?=''"]) (auto simp: plain_name_def stops_def)
    then show False
      using n(2,3) follows_cases [OF w] by auto
  qed
  have cases: "type_suffix a = [] \<or> type_suffix a = '',keys_sorted''" for a
    by (cases a rule: type_suffix.cases) simp_all
  show ?thesis
  proof (cases "type_suffix a = type_suffix b")
    case True
    then show ?thesis using assms(1) by simp
  next
    case False
    then have "r = '',keys_sorted'' @ r' \<or> r' = '',keys_sorted'' @ r"
      using cases [of a] cases [of b] assms(1) by (metis append_Nil)
    then show ?thesis
      using no assms(2,3) by blast
  qed
qed

definition prefix_ok :: "string \<Rightarrow> bool" where
  "prefix_ok p = (list_all (\<lambda>c. c \<noteq> CHR '':'' \<and> c \<noteq> CHR ''?'') p
     \<and> (\<exists>n u. p = n @ u \<and> plain_name n \<and> (u = [] \<or> hd u = CHR ''='')))"

definition child_ok :: "child_view \<Rightarrow> bool" where
  "child_ok c = (prefix_ok (fst c) \<and> plain_type (snd (snd c)))"

definition token_unique :: "(data_type \<Rightarrow> string) \<Rightarrow> data_type \<Rightarrow> bool" where
  "token_unique dbg a =
     (\<forall>b s s' r r'. type_token dbg a = Inr s \<longrightarrow> type_token dbg b = Inr s' \<longrightarrow> plain_type a \<longrightarrow> plain_type b \<longrightarrow>
        follows r \<longrightarrow> follows r' \<longrightarrow> s @ r = s' @ r' \<longrightarrow> normal_type a = normal_type b \<and> r = r')"

lemma prefix_okI:
  "list_all (\<lambda>c. c \<noteq> CHR '':'' \<and> c \<noteq> CHR ''?'') (n @ u) \<Longrightarrow> plain_name n \<Longrightarrow> u = [] \<or> hd u = CHR ''='' \<Longrightarrow> prefix_ok (n @ u)"
  unfolding prefix_ok_def by blast

lemma prefix_ok_plain: "plain_name n \<Longrightarrow> prefix_ok n"
  using prefix_okI [of n "[]"] by (auto simp: plain_name_def list_all_iff)

lemma show_int_plain: "plain_name (show_int c)"
  unfolding plain_name_def list_all_iff by (auto dest: show_int_chars)

lemma prefix_ok_union: "plain_name n \<Longrightarrow> prefix_ok (show_int c @ ''='' @ n)"
proof -
  assume n: "plain_name n"
  then have "list_all (\<lambda>c. c \<noteq> CHR '':'' \<and> c \<noteq> CHR ''?'') (show_int c @ ''='' @ n)"
    using show_int_plain [of c] by (auto simp: plain_name_def list_all_iff)
  then show ?thesis
    using prefix_okI [of "show_int c" "''='' @ n"] show_int_plain [of c] by simp
qed

lemma child_text_split:
  assumes "child_text dbg c text"
  obtains token where "type_token dbg (snd (snd c)) = Inr token"
    "text = fst c @ (if fst (snd c) then ''?'' else []) @ '':'' @ token"
  using assms by (auto simp: child_text_def split: prod.splits)

lemma follows_child:
  assumes "child_text dbg c text" "child_ok c"
  shows "follows (CHR '','' # text @ x)" "text \<noteq> []" "hd text \<noteq> CHR ''>''"
proof -
  obtain token where t: "text = fst c @ (if fst (snd c) then ''?'' else []) @ '':'' @ token"
    using assms(1) by (rule child_text_split)
  obtain n u where p: "fst c = n @ u" "plain_name n" "u = [] \<or> hd u = CHR ''=''"
    using assms(2) by (auto simp: child_ok_def prefix_ok_def)
  define v where "v = u @ (if fst (snd c) then ''?'' else []) @ '':'' @ token @ x"
  have v: "v \<noteq> []" "hd v \<in> set '':?=''"
    using p(3) by (auto simp: v_def hd_append)
  have "CHR '','' # text @ x = '','' @ n @ v"
    by (simp add: t p(1) v_def)
  then show "follows (CHR '','' # text @ x)"
    using p(2) v unfolding follows_def by blast
  show "text \<noteq> []" by (simp add: t)
  show "hd text \<noteq> CHR ''>''"
    using p(2,3) by (cases n; cases u) (auto simp: t p(1) plain_name_def)
qed

lemma child_unique:
  assumes "token_unique dbg (snd (snd c))" "child_text dbg c text" "child_text dbg d text'"
    and "child_ok c" "child_ok d" "follows r" "follows r'" "text @ r = text' @ r'"
  shows "child_equiv c d \<and> r = r'"
proof -
  obtain token where t: "type_token dbg (snd (snd c)) = Inr token"
    "text = fst c @ (if fst (snd c) then ''?'' else []) @ '':'' @ token"
    using assms(2) by (rule child_text_split)
  obtain token' where t': "type_token dbg (snd (snd d)) = Inr token'"
    "text' = fst d @ (if fst (snd d) then ''?'' else []) @ '':'' @ token'"
    using assms(3) by (rule child_text_split)
  have "fst c = fst d \<and> ((if fst (snd c) then ''?'' else []) @ '':'' @ token) @ r
    = ((if fst (snd d) then ''?'' else []) @ '':'' @ token') @ r'"
    using assms(4,5,8) t(2) t'(2)
    by (intro delim_split [of "\<lambda>c. c \<noteq> CHR '':'' \<and> c \<noteq> CHR ''?''"]) (auto simp: child_ok_def prefix_ok_def)
  moreover from this have "fst (snd c) = fst (snd d)" "token @ r = token' @ r'"
    by (auto split: if_splits)
  ultimately show ?thesis
    using assms(1,4-7) t(1) t'(1) unfolding token_unique_def child_equiv_def child_ok_def by blast
qed

definition after_child :: "string list \<Rightarrow> string \<Rightarrow> string" where
  "after_child cs x = (if cs = [] then ''>'' @ x else '','' @ join '','' cs @ ''>'' @ x)"

lemma join_after: "join '','' (c # cs) @ ''>'' @ x = c @ after_child cs x"
  by (cases cs) (simp_all add: after_child_def)

lemma follows_after:
  assumes "list_all2 (child_text dbg) ch cs" "list_all child_ok ch"
  shows "follows (after_child cs x)"
proof (cases ch)
  case Nil
  with assms show ?thesis by (simp add: after_child_def)
next
  case (Cons c ch')
  with assms obtain t ts where "cs = t # ts" "child_text dbg c t" "child_ok c"
    by (auto simp: list_all2_Cons1)
  moreover have "'','' @ join '','' (t # ts) @ ''>'' @ x = CHR '','' # t @ after_child ts x"
    using join_after [of t ts x] by simp
  ultimately show ?thesis
    using follows_child(1) by (simp add: after_child_def)
qed

lemma children_unique:
  assumes "\<And>c. c \<in> set ch \<Longrightarrow> token_unique dbg (snd (snd c))"
    and "list_all2 (child_text dbg) ch cs" "list_all2 (child_text dbg) ch' cs'"
    and "list_all child_ok ch" "list_all child_ok ch'"
    and "join '','' cs @ ''>'' @ x = join '','' cs' @ ''>'' @ x'"
  shows "list_all2 child_equiv ch ch' \<and> x = x'"
  using assms
proof (induction ch arbitrary: ch' cs cs')
  case Nil
  then show ?case
  proof (cases ch')
    case (Cons d ds)
    then obtain t ts where t: "cs' = t # ts" "child_text dbg d t" "child_ok d"
      using Nil.prems by (auto simp: list_all2_Cons1)
    have "''>'' @ x = t @ after_child ts x'"
      using Nil.prems t join_after [of t ts x'] by simp
    then show ?thesis
      using follows_child(2,3) [OF t(2,3)] by (cases t) auto
  qed simp
next
  case (Cons c ch)
  then obtain t ts where t: "cs = t # ts" "child_text dbg c t" "list_all2 (child_text dbg) ch ts"
    by (auto simp: list_all2_Cons1)
  show ?case
  proof (cases ch')
    case Nil
    then have "t @ after_child ts x = ''>'' @ x'"
      using Cons.prems t join_after [of t ts x] by simp
    then show ?thesis
      using follows_child(2,3) [OF t(2)] Cons.prems(4) by (cases t) auto
  next
    case (Cons d ds)
    then obtain u us where u: "cs' = u # us" "child_text dbg d u" "list_all2 (child_text dbg) ds us"
      using Cons.prems(3) by (auto simp: list_all2_Cons1)
    have ok: "child_ok c" "child_ok d" "list_all child_ok ch" "list_all child_ok ds"
      using Cons.prems(4,5) Cons by simp_all
    have "t @ after_child ts x = u @ after_child us x'"
      using Cons.prems(6) t(1) u(1) join_after by metis
    then have eq: "child_equiv c d" "after_child ts x = after_child us x'"
      using child_unique [OF _ t(2) u(2) ok(1,2) follows_after follows_after] Cons.prems(1) t(3) u(3) ok(3,4)
      by (metis list.set_intros(1))+
    then have "(ts = [] \<and> us = [] \<and> x = x') \<or> join '','' ts @ ''>'' @ x = join '','' us @ ''>'' @ x'"
      by (cases "ts = []"; cases "us = []") (simp_all add: after_child_def)
    then have "list_all2 child_equiv ch ds \<and> x = x'"
      using Cons.IH [OF _ t(3) u(3) ok(3,4)] Cons.prems(1) t(3) u(3) by auto
    then show ?thesis
      using eq(1) Cons by simp
  qed
qed

lemma plain_name_literals [simp]:
  "plain_name ''item''" "plain_name ''key''" "plain_name ''value''" "plain_name ''index''" "plain_name ''run_ends''"
  "plain_name ''values''"
  by (simp_all add: plain_name_def)

lemma field_child_ok: "plain_field f \<Longrightarrow> child_ok (field_view (af_name f) f)"
  by (cases f) (simp add: child_ok_def field_view_def prefix_ok_plain)

lemma size_field_view: "size (snd (snd (field_view n f))) < size f"
  by (simp add: field_view_def size_af_data_type)

lemma children_ok:
  assumes "plain_type a" "type_children a = Some ch"
  shows "list_all child_ok ch" "\<And>c. c \<in> set ch \<Longrightarrow> size (snd (snd c)) < size a"
proof -
  have "list_all child_ok ch \<and> (\<forall>c\<in>set ch. size (snd (snd c)) < size a)"
  proof (cases a)
    case (Struct fs)
    have "size (snd (snd (field_view n f))) < size a" if "f \<in> set fs" for f n
      using that size_list_estimation' [of f fs "size f" size] size_field_view [of n f] by (simp add: Struct)
    moreover have "ch = map (\<lambda>f. field_view (af_name f) f) fs" "\<forall>f\<in>set fs. plain_field f"
      using assms by (simp_all add: Struct)
    ultimately show ?thesis
      by (simp add: list_all_iff field_child_ok)
  next
    case (Arrow_Union fs mode)
    have "size (snd (snd (field_view n f))) < size a" if "p \<in> set fs" "f = snd p" for p f n
      using that size_list_estimation' [of p fs "size f" "size_prod (\<lambda>x. 0) size"] size_field_view [of n f]
      by (cases p rule: prod.exhaust) (simp add: Arrow_Union)
    moreover have "child_ok (field_view (show_int c @ ''='' @ af_name f) f)" if "plain_field f" for c f
      using that prefix_ok_union [of "af_name f" c] by (cases f) (simp add: child_ok_def field_view_def)
    moreover have "ch = map (\<lambda>(c, f). field_view (show_int c @ ''='' @ af_name f) f) fs" "\<forall>(c, f)\<in>set fs. plain_field f"
      using assms by (simp_all add: Arrow_Union)
    ultimately show ?thesis
      by (simp add: list_all_iff case_prod_beta)
  next
    case (Arrow_Map e ks)
    then obtain n k v nul where e: "e = Field n (Struct [k, v]) nul"
      using assms(2) by (cases e) (auto elim!: type_children.elims)
    show ?thesis
      using assms size_field_view [of "''key''" k] size_field_view [of "''value''" v]
      by (auto simp: Arrow_Map e child_ok_def field_view_def prefix_ok_plain)
  next
    case (RunEndEncoded r v)
    show ?thesis
      using assms size_af_data_type [of r] size_af_data_type [of v]
      by (auto simp: RunEndEncoded child_ok_def prefix_ok_plain)
  qed (use assms size_af_data_type in \<open>auto simp: child_ok_def field_view_def prefix_ok_plain less_SucI trans_less_add1\<close>)
  then show "list_all child_ok ch" "\<And>c. c \<in> set ch \<Longrightarrow> size (snd (snd c)) < size a" by blast+
qed

lemma params_chars: "plain_type a \<Longrightarrow> list_all (\<lambda>c. c \<noteq> CHR '')'') (type_params a)"
proof -
  assume p: "plain_type a"
  have i: "CHR '')'' \<notin> set (show_int i)" and n: "CHR '')'' \<notin> set (show_nat k)" for i k
    using show_int_chars [of "CHR '')''" i] show_nat_digits [of "CHR '')''" k] by auto
  have u: "CHR '')'' \<notin> set (unit_token u)" for u
    by (cases u) simp_all
  show ?thesis
  proof (cases a)
    case (Timestamp u z)
    then show ?thesis using p by (cases z) (use u in \<open>auto simp: list_all_iff\<close>)
  qed (use i n u in \<open>auto simp: list_all_iff\<close>)
qed

definition children_text :: "(data_type \<Rightarrow> string) \<Rightarrow> data_type \<Rightarrow> string \<Rightarrow> bool" where
  "children_text dbg a body =
     (case type_children a of
        None \<Rightarrow> body = []
      | Some ch \<Rightarrow> \<exists>cs. list_all2 (child_text dbg) ch cs \<and> body = ''<'' @ join '','' cs @ ''>'')"

lemma token_parts:
  assumes "type_token dbg a = Inr s"
  obtains body where "children_text dbg a body" "s = type_kw a @ in_parens (type_params a) @ body @ type_suffix a"
    "type_rank a = 16 \<longrightarrow> type_children a \<noteq> None"
proof -
  have "type_children a \<noteq> None" if "type_rank a = 16"
    using that assms type_token_map [of dbg _ _ s] by (cases a) fastforce+
  then show thesis
    using that type_token_view [OF assms] by (auto simp: is_token_of_def children_text_def)
qed

lemma suffix_cases: "type_suffix a = [] \<or> hd (type_suffix a) = CHR '',''"
  by (cases a rule: type_suffix.cases) simp_all

lemma after_params:
  assumes "children_text dbg a body" "follows r"
  shows "body @ type_suffix a @ r = [] \<or> hd (body @ type_suffix a @ r) \<in> set ''<,>''"
    and "body = [] \<Longrightarrow> type_suffix a @ r = [] \<or> hd (type_suffix a @ r) \<in> set '',>''"
    and "body = [] \<longleftrightarrow> type_children a = None"
  using assms(1) suffix_cases [of a] follows_cases [OF assms(2)]
  by (auto simp: children_text_def hd_append split: option.splits)

lemma children_text_hd: "children_text dbg a body \<Longrightarrow> body \<noteq> [] \<Longrightarrow> \<exists>z. body = CHR ''<'' # z"
  by (auto simp: children_text_def split: option.splits)

lemma no_children_hd:
  assumes "children_text dbg a []" "follows r"
  shows "type_suffix a @ r \<noteq> CHR ''<'' # z"
  using after_params(2) [OF assms] by auto

lemma parens_split:
  assumes "in_parens p @ u = in_parens q @ v"
    and "list_all (\<lambda>c. c \<noteq> CHR '')'') p" "list_all (\<lambda>c. c \<noteq> CHR '')'') q"
    and "u = [] \<or> hd u \<noteq> CHR ''(''" "v = [] \<or> hd v \<noteq> CHR ''(''"
  shows "p = q \<and> u = v"
proof (cases "p = [] \<or> q = []")
  case True
  then show ?thesis
    using assms(1,4,5) by (cases u; cases v) (auto simp: in_parens_def split: if_splits)
next
  case False
  then have "p @ '')'' @ u = q @ '')'' @ v"
    using assms(1) by (simp add: in_parens_def)
  then have "p = q \<and> '')'' @ u = '')'' @ v"
    using assms(2,3) by (intro delim_split [of "\<lambda>c. c \<noteq> CHR '')''"]) simp_all
  then show ?thesis by simp
qed

lemma body_unique:
  assumes "\<And>c ch. type_children a = Some ch \<Longrightarrow> c \<in> set ch \<Longrightarrow> token_unique dbg (snd (snd c))"
    and "children_text dbg a body" "children_text dbg b body'" "plain_type a" "plain_type b"
    and "follows r" "follows r'" "body @ type_suffix a @ r = body' @ type_suffix b @ r'"
  shows "rel_option (list_all2 child_equiv) (type_children a) (type_children b)
    \<and> type_suffix a @ r = type_suffix b @ r'"
proof (cases "body = []")
  case True
  then have "body' = []"
    using no_children_hd [of dbg a r] children_text_hd [OF assms(3)] assms(2,6,8) by fastforce
  then show ?thesis
    using True after_params(3) [OF assms(2,6)] after_params(3) [OF assms(3,7)] assms(8) by simp
next
  case False
  then have "body' \<noteq> []"
    using no_children_hd [of dbg b r'] children_text_hd [OF assms(2)] assms(3,7,8)
    by (metis append_Cons append_Nil)
  with False obtain ch cs ch' cs' where c: "type_children a = Some ch" "list_all2 (child_text dbg) ch cs"
    "body = ''<'' @ join '','' cs @ ''>''" "type_children b = Some ch'" "list_all2 (child_text dbg) ch' cs'"
    "body' = ''<'' @ join '','' cs' @ ''>''"
    using assms(2,3) by (auto simp: children_text_def split: option.splits)
  have "list_all2 child_equiv ch ch' \<and> type_suffix a @ r = type_suffix b @ r'"
    using assms(1) [OF c(1)] c(2,5) children_ok(1) [OF assms(4) c(1)] children_ok(1) [OF assms(5) c(4)] assms(8) c(3,6)
    by (intro children_unique [of ch dbg cs ch' cs']) simp_all
  then show ?thesis
    by (simp add: c)
qed

lemma type_token_unique: "token_unique dbg a"
proof (induction a rule: measure_induct_rule [of size])
  case (less a)
  show ?case
    unfolding token_unique_def
  proof (intro allI impI)
    fix b s s' r r'
    assume tok: "type_token dbg a = Inr s" "type_token dbg b = Inr s'" and pl: "plain_type a" "plain_type b"
      and fo: "follows r" "follows r'" and eq: "s @ r = s' @ r'"
    obtain body where a: "children_text dbg a body" "s = type_kw a @ in_parens (type_params a) @ body @ type_suffix a"
      "type_rank a = 16 \<longrightarrow> type_children a \<noteq> None"
      using tok(1) by (rule token_parts)
    obtain body' where b: "children_text dbg b body'" "s' = type_kw b @ in_parens (type_params b) @ body' @ type_suffix b"
      "type_rank b = 16 \<longrightarrow> type_children b \<noteq> None"
      using tok(2) by (rule token_parts)
    note rest = after_params(1) [OF a(1) fo(1)] after_params(1) [OF b(1) fo(2)]
    have kw: "type_kw a = type_kw b \<and> in_parens (type_params a) @ body @ type_suffix a @ r
      = in_parens (type_params b) @ body' @ type_suffix b @ r'"
      using eq a(2) b(2) kw_chars rest
      by (intro delim_split [of "\<lambda>c. c \<notin> set ''(<,>''"]) (auto simp: stops_def in_parens_def)
    then have par: "type_params a = type_params b \<and> body @ type_suffix a @ r = body' @ type_suffix b @ r'"
      using rest params_chars [OF pl(1)] params_chars [OF pl(2)]
      by (intro parens_split) auto
    have ch: "rel_option (list_all2 child_equiv) (type_children a) (type_children b)
      \<and> type_suffix a @ r = type_suffix b @ r'"
      using body_unique [OF _ a(1) b(1) pl fo] par less.IH children_ok(2) [OF pl(1)] by blast
    then have "type_suffix a = type_suffix b \<and> r = r'"
      using suffix_unique fo by blast
    then show "normal_type a = normal_type b \<and> r = r'"
      using normal_type_cong [of a b] kw par ch a(3) b(3) by blast
  qed
qed

section \<open>The description determines the surface\<close>

lemma af_name_normal [simp]: "af_name (normal_field n f) = n"
  by (cases f) simp

lemma child_tokens_normal:
  assumes "\<And>g c. g \<in> set gs \<Longrightarrow> anon_child dbg g (af_name g) = Inr c
    \<Longrightarrow> anon_child dbg (normal_field (af_name g) g) (af_name g) = Inr c"
    and "child_tokens dbg gs = Inr cs"
  shows "child_tokens dbg (map (\<lambda>f. normal_field (af_name f) f) gs) = Inr cs"
  using assms by (induction gs arbitrary: cs) (auto simp: result_simps)

lemma union_tokens_normal:
  assumes "\<And>g c. g \<in> snd ` set gs \<Longrightarrow> anon_child dbg g (af_name g) = Inr c
    \<Longrightarrow> anon_child dbg (normal_field (af_name g) g) (af_name g) = Inr c"
    and "union_tokens dbg gs = Inr cs"
  shows "union_tokens dbg (map (\<lambda>(c, f). (c, normal_field (af_name f) f)) gs) = Inr cs"
  using assms by (induction gs arbitrary: cs) (auto simp: result_simps)

lemma type_token_normal: "type_token dbg a = Inr s \<Longrightarrow> type_token dbg (normal_type a) = Inr s"
proof (induction a arbitrary: s rule: measure_induct_rule [of size])
  case (less a)
  have anon: "anon_child dbg (normal_field m f) n = Inr c" if "anon_child dbg f n = Inr c" "size f \<le> size a" for f n m c
    using that less.IH [of "af_data_type f"] size_af_data_type [of f]
    by (cases f) (auto simp: result_simps)
  show ?case
  proof (cases a)
    case (Struct fs)
    have "size g \<le> size a" if "g \<in> set fs" for g
      using that size_list_estimation' [of g fs "size g" size] by (simp add: Struct)
    then show ?thesis
      using less.prems child_tokens_normal [of fs dbg] anon by (auto simp: Struct result_simps)
  next
    case (Arrow_Union fs mode)
    have "size (snd p) \<le> size a" if "p \<in> set fs" for p
      using that size_list_estimation' [of p fs "size (snd p)" "size_prod (\<lambda>x. 0) size"]
      by (cases p rule: prod.exhaust) (simp add: Arrow_Union)
    then show ?thesis
      using less.prems union_tokens_normal [of fs dbg] anon by (fastforce simp: Arrow_Union result_simps)
  next
    case (Arrow_Map e ks)
    from type_token_map [OF less.prems [unfolded Arrow_Map]] obtain n k v nul where e: "e = Field n (Struct [k, v]) nul"
      by blast
    show ?thesis
      using less.prems anon [of k "''key''" _ "''key''"] anon [of v "''value''" _ "''value''"]
      by (auto simp: Arrow_Map e result_simps)
  next
    case (RunEndEncoded r v)
    then show ?thesis
      using less.prems less.IH [of "af_data_type r"] less.IH [of "af_data_type v"] size_af_data_type [of r] size_af_data_type [of v]
      by (cases r; cases v) (auto simp: result_simps)
  qed (use less.prems less.IH anon in \<open>auto simp: result_simps\<close>)
qed

lemma type_token_eq_iff:
  assumes "type_token dbg a = Inr s" "type_token dbg b = Inr t" "plain_type a" "plain_type b"
  shows "s = t \<longleftrightarrow> normal_type a = normal_type b"
proof
  assume "s = t"
  then show "normal_type a = normal_type b"
    using type_token_unique [of dbg a] assms unfolding token_unique_def by (metis append_Nil2 follows_close(2))
next
  assume "normal_type a = normal_type b"
  then show "s = t"
    using type_token_normal [OF assms(1)] type_token_normal [OF assms(2)] by simp
qed

definition normal_schema :: "schema option \<Rightarrow> schema" where
  "normal_schema s = (case s of None \<Rightarrow> [] | Some fs \<Rightarrow> map (\<lambda>f. normal_field (af_name f) f) fs)"

definition plain_schema :: "schema option \<Rightarrow> bool" where
  "plain_schema s = (case s of None \<Rightarrow> True | Some fs \<Rightarrow> \<forall>f\<in>set fs. plain_type (af_data_type f))"

lemma normal_field_eq:
  "normal_field (af_name f) f = normal_field (af_name g) g \<longleftrightarrow>
   af_name f = af_name g \<and> af_nullable f = af_nullable g \<and> normal_type (af_data_type f) = normal_type (af_data_type g)"
  by (cases f; cases g) auto

lemma field_tokens_eq_iff:
  "field_tokens dbg fs = Inr ts \<Longrightarrow> field_tokens dbg gs = Inr us \<Longrightarrow>
   (\<forall>f\<in>set fs. plain_type (af_data_type f)) \<Longrightarrow> (\<forall>f\<in>set gs. plain_type (af_data_type f)) \<Longrightarrow>
   ts = us \<longleftrightarrow> map (\<lambda>f. normal_field (af_name f) f) fs = map (\<lambda>f. normal_field (af_name f) f) gs"
proof (induction fs gs arbitrary: ts us rule: list_induct2')
  case (4 f fs g gs)
  then obtain s ts' t us' where *: "type_token dbg (af_data_type f) = Inr s" "field_tokens dbg fs = Inr ts'"
    "ts = \<lparr> ft_name = af_name f, ft_nullable = af_nullable f, ft_type_token = s \<rparr> # ts'"
    "type_token dbg (af_data_type g) = Inr t" "field_tokens dbg gs = Inr us'"
    "us = \<lparr> ft_name = af_name g, ft_nullable = af_nullable g, ft_type_token = t \<rparr> # us'"
    by (auto simp: result_simps)
  then show ?case
    using 4 type_token_eq_iff [OF *(1,4)] by (auto simp: normal_field_eq)
qed (auto simp: result_simps)

lemma schema_tokens_eq_iff:
  assumes "schema_tokens dbg s = Inr ts" "schema_tokens dbg t = Inr us" "plain_schema s" "plain_schema t"
  shows "ts = us \<longleftrightarrow> normal_schema s = normal_schema t"
  using assms field_tokens_eq_iff [of dbg "case s of None \<Rightarrow> [] | Some fs \<Rightarrow> fs" ts "case t of None \<Rightarrow> [] | Some fs \<Rightarrow> fs" us]
  by (auto simp: schema_tokens_def normal_schema_def plain_schema_def split: option.splits)

text \<open>The wire surface of a method: what a client of it depends on.\<close>

definition method_surface :: "hash_method \<Rightarrow> string \<times> string \<times> schema \<times> schema option \<times> schema option" where
  "method_surface m =
     (hm_name m, hm_method_type m, normal_schema (hm_params_schema m),
      if hm_has_return m then Some (normal_schema (hm_result_schema m)) else None,
      if hm_has_header m then Some (normal_schema (hm_header_schema m)) else None)"

definition plain_method :: "hash_method \<Rightarrow> bool" where
  "plain_method m =
     (plain_schema (hm_params_schema m) \<and> plain_schema (hm_result_schema m) \<and> plain_schema (hm_header_schema m))"

lemma tokens_if_eq_iff:
  assumes "tokens_if dbg p s = Inr x" "tokens_if dbg q t = Inr y" "plain_schema s" "plain_schema t"
  shows "x = y \<longleftrightarrow> (if p then Some (normal_schema s) else None) = (if q then Some (normal_schema t) else None)"
  using assms schema_tokens_eq_iff [of dbg s _ t] by (auto simp: tokens_if_def result_simps split: if_splits)

lemma tokens_if_present: "tokens_if dbg p s = Inr x \<Longrightarrow> p \<longleftrightarrow> x \<noteq> None"
  by (auto simp: tokens_if_def result_simps split: if_splits)

lemma method_entry_eq_iff:
  assumes "method_entry_of dbg m = Inr e" "method_entry_of dbg n = Inr f" "plain_method m" "plain_method n"
  shows "e = f \<longleftrightarrow> method_surface m = method_surface n"
proof -
  obtain h p r where m: "tokens_if dbg (hm_has_header m) (hm_header_schema m) = Inr h"
    "schema_tokens dbg (hm_params_schema m) = Inr p" "tokens_if dbg (hm_has_return m) (hm_result_schema m) = Inr r"
    "e = \<lparr> me_has_header = hm_has_header m, me_has_return = hm_has_return m, me_header = h,
           me_name = hm_name m, me_params = p, me_result = r, me_method_type = hm_method_type m \<rparr>"
    using assms(1) by (auto simp: method_entry_of_def result_simps)
  obtain h' p' r' where n: "tokens_if dbg (hm_has_header n) (hm_header_schema n) = Inr h'"
    "schema_tokens dbg (hm_params_schema n) = Inr p'" "tokens_if dbg (hm_has_return n) (hm_result_schema n) = Inr r'"
    "f = \<lparr> me_has_header = hm_has_header n, me_has_return = hm_has_return n, me_header = h',
           me_name = hm_name n, me_params = p', me_result = r', me_method_type = hm_method_type n \<rparr>"
    using assms(2) by (auto simp: method_entry_of_def result_simps)
  have "h = h' \<longrightarrow> hm_has_header m = hm_has_header n" "r = r' \<longrightarrow> hm_has_return m = hm_has_return n"
    using tokens_if_present m(1,3) n(1,3) by blast+
  then have "e = f \<longleftrightarrow> hm_name m = hm_name n \<and> hm_method_type m = hm_method_type n \<and> h = h' \<and> p = p' \<and> r = r'"
    unfolding m(4) n(4) by auto
  moreover have "h = h' \<longleftrightarrow> (if hm_has_header m then Some (normal_schema (hm_header_schema m)) else None)
      = (if hm_has_header n then Some (normal_schema (hm_header_schema n)) else None)"
    "r = r' \<longleftrightarrow> (if hm_has_return m then Some (normal_schema (hm_result_schema m)) else None)
      = (if hm_has_return n then Some (normal_schema (hm_result_schema n)) else None)"
    "p = p' \<longleftrightarrow> normal_schema (hm_params_schema m) = normal_schema (hm_params_schema n)"
    using tokens_if_eq_iff [OF m(1) n(1)] tokens_if_eq_iff [OF m(3) n(3)] schema_tokens_eq_iff [OF m(2) n(2)]
      assms(3,4) by (simp_all add: plain_method_def)
  ultimately show ?thesis
    unfolding method_surface_def prod.inject by blast
qed

lemma method_entries_eq_iff:
  "method_entries dbg ms = Inr es \<Longrightarrow> method_entries dbg ns = Inr fs \<Longrightarrow> list_all plain_method ms \<Longrightarrow>
   list_all plain_method ns \<Longrightarrow> es = fs \<longleftrightarrow> map method_surface ms = map method_surface ns"
proof (induction ms ns arbitrary: es fs rule: list_induct2')
  case (4 m ms n ns)
  then obtain e es' f fs' where *: "method_entry_of dbg m = Inr e" "method_entries dbg ms = Inr es'" "es = e # es'"
    "method_entry_of dbg n = Inr f" "method_entries dbg ns = Inr fs'" "fs = f # fs'"
    by (auto simp: result_simps)
  then show ?case
    using 4 method_entry_eq_iff [OF *(1,4)] by auto
qed (auto simp: result_simps)

lemma field_token_json_inj: "field_token_json t = field_token_json u \<Longrightarrow> t = u"
  by (simp add: field_token_json_def)

lemma fields_json_inj: "fields_json ts = fields_json us \<longleftrightarrow> ts = us"
  using inj_map_eq_map [of field_token_json] field_token_json_inj by (simp add: fields_json_def inj_def)

lemma method_entry_json_inj: "method_entry_json e = method_entry_json f \<Longrightarrow> e = f"
  by (cases "me_header e"; cases "me_header f"; cases "me_result e"; cases "me_result f")
    (simp_all add: method_entry_json_def fields_json_inj)

lemma json_wf_method_entries: "json_wf (JArr (map method_entry_json es))"
proof -
  have t: "json_wf (fields_json ts)" for ts
    by (simp add: fields_json_def field_token_json_def obj_sorted_def)
  have "json_wf (method_entry_json e)" for e
    by (cases "me_header e"; cases "me_result e") (simp_all add: method_entry_json_def obj_sorted_def t)
  then show ?thesis by simp
qed

text \<open>What the JSON writer is relied on for: the text of an array or a string shows where it ends.\<close>

definition json_delimited :: "(json \<Rightarrow> string) \<Rightarrow> bool" where
  "json_delimited to_text =
     (\<forall>x y r r'. json_wf x \<longrightarrow> json_wf y \<longrightarrow> (\<exists>xs s. x = JArr xs \<or> x = JStr s) \<longrightarrow> (\<exists>ys t. y = JArr ys \<or> y = JStr t) \<longrightarrow>
        to_text x @ r = to_text y @ r' \<longrightarrow> x = y \<and> r = r')"

lemma json_delimitedD:
  "json_delimited to_text \<Longrightarrow> json_wf x \<Longrightarrow> json_wf y \<Longrightarrow> \<exists>xs s. x = JArr xs \<or> x = JStr s \<Longrightarrow>
   \<exists>ys t. y = JArr ys \<or> y = JStr t \<Longrightarrow> to_text x @ r = to_text y @ r' \<Longrightarrow> x = y \<and> r = r'"
  unfolding json_delimited_def by blast

lemma description_eq_iff:
  assumes "json_delimited to_text"
    and "canonical_description dbg to_text p ms = Inr d" "canonical_description dbg to_text q ns = Inr c"
    and "list_all plain_method ms" "list_all plain_method ns"
  shows "d = c \<longleftrightarrow> p = q \<and> map method_surface (sort_key hm_name ms) = map method_surface (sort_key hm_name ns)"
proof -
  obtain es where es: "method_entries dbg (sort_key hm_name ms) = Inr es"
    "d = ''{'' @ [CHR 0x22] @ ''methods'' @ [CHR 0x22] @ '':'' @ to_text (JArr (map method_entry_json es))
       @ '','' @ [CHR 0x22] @ ''protocol'' @ [CHR 0x22] @ '':'' @ to_text (JStr p) @ ''}''"
    using assms(2) by (auto simp: canonical_description_def result_simps)
  obtain fs where fs: "method_entries dbg (sort_key hm_name ns) = Inr fs"
    "c = ''{'' @ [CHR 0x22] @ ''methods'' @ [CHR 0x22] @ '':'' @ to_text (JArr (map method_entry_json fs))
       @ '','' @ [CHR 0x22] @ ''protocol'' @ [CHR 0x22] @ '':'' @ to_text (JStr q) @ ''}''"
    using assms(3) by (auto simp: canonical_description_def result_simps)
  have arr: "es = fs \<and> r = r'"
    if "to_text (JArr (map method_entry_json es)) @ r = to_text (JArr (map method_entry_json fs)) @ r'" for r r'
  proof -
    have "JArr (map method_entry_json es) = JArr (map method_entry_json fs) \<and> r = r'"
      using json_delimitedD [OF assms(1) json_wf_method_entries json_wf_method_entries _ _ that] by simp
    then show ?thesis
      using inj_map_eq_map [of method_entry_json] method_entry_json_inj by (simp add: inj_def)
  qed
  have str: "p = q" if "to_text (JStr p) @ r = to_text (JStr q) @ r'" for r r'
    using json_delimitedD [OF assms(1) _ _ _ _ that] by simp
  have "p = q \<and> es = fs" if "d = c"
  proof -
    have "es = fs \<and> '','' @ [CHR 0x22] @ ''protocol'' @ [CHR 0x22] @ '':'' @ to_text (JStr p) @ ''}''
      = '','' @ [CHR 0x22] @ ''protocol'' @ [CHR 0x22] @ '':'' @ to_text (JStr q) @ ''}''"
      by (rule arr) (use that in \<open>simp add: es(2) fs(2)\<close>)
    then show ?thesis
      using str [of "''}''" "''}''"] by simp
  qed
  then have "d = c \<longleftrightarrow> p = q \<and> es = fs"
    using es(2) fs(2) by blast
  then show ?thesis
    using method_entries_eq_iff [OF es(1) fs(1)] assms(4,5) by (simp add: list_all_iff)
qed

lemma sorted_surfaces:
  assumes "distinct (map hm_name ms)" "distinct (map hm_name ns)"
  shows "map method_surface (sort_key hm_name ms) = map method_surface (sort_key hm_name ns)
    \<longleftrightarrow> method_surface ` set ms = method_surface ` set ns"
proof -
  have name: "fst \<circ> method_surface = hm_name"
    by (auto simp: method_surface_def)
  have d: "distinct (map method_surface ms)" if "distinct (map hm_name ms)" for ms
    using that distinct_map [of fst "map method_surface ms"] by (simp add: name)
  have key: "sort_key fst (map method_surface xs) = map method_surface (sort_key hm_name ys)"
    if "distinct (map hm_name xs)" "mset (map method_surface xs) = mset (map method_surface ys)" for xs ys
  proof (rule sort_key_inj_key_eq)
    show "mset (map method_surface xs) = mset (map method_surface (sort_key hm_name ys))"
      using that(2) by simp
    show "inj_on fst (set (map method_surface xs))"
      using that(1) distinct_map [of fst "map method_surface xs"] by (simp add: name)
    show "sorted (map fst (map method_surface (sort_key hm_name ys)))"
      by (simp add: name)
  qed
  show ?thesis
  proof
    assume "map method_surface (sort_key hm_name ms) = map method_surface (sort_key hm_name ns)"
    then have "set (map method_surface (sort_key hm_name ms)) = set (map method_surface (sort_key hm_name ns))"
      by simp
    then show "method_surface ` set ms = method_surface ` set ns"
      by simp
  next
    assume "method_surface ` set ms = method_surface ` set ns"
    then have "mset (map method_surface ms) = mset (map method_surface ns)"
      using set_eq_iff_mset_eq_distinct [OF d [OF assms(1)] d [OF assms(2)]] by simp
    then show "map method_surface (sort_key hm_name ms) = map method_surface (sort_key hm_name ns)"
      using key [OF assms(1)] by (metis)
  qed
qed

section \<open>The hash identifies the protocol\<close>

text \<open>The two descriptions are not a collision of the digest.\<close>

definition digest_separates :: "token_crypto \<Rightarrow> string + string \<Rightarrow> string + string \<Rightarrow> bool" where
  "digest_separates T x y =
     (\<forall>d c. x = Inr d \<longrightarrow> y = Inr c \<longrightarrow>
        tc_sha256 T (as_bytes HASH_DOMAIN @ as_bytes d) = tc_sha256 T (as_bytes HASH_DOMAIN @ as_bytes c) \<longrightarrow> d = c)"


definition demo_hash_method :: "string \<Rightarrow> string \<Rightarrow> bool \<Rightarrow> hash_method" where
  "demo_hash_method name item nullable =
     \<lparr> hm_name = name, hm_method_type = ''unary'', hm_has_return = False, hm_has_header = False,
       hm_params_schema = Some [Field ''v'' (Arrow_List (Field item (Atom Int64_T) nullable)) False],
       hm_result_schema = Some [], hm_header_schema = None \<rparr>"

lemma put_json_delimited: "json_delimited put_json"
  unfolding json_delimited_def
  using take_json_put by (metis Pair_inject max.cobounded1 max.cobounded2 option.inject)

lemma demo_hash_ok:
  assumes "set ns = {''a'', ''b''}" "distinct ns"
  shows "\<exists>h. compute_protocol_hash T dbg to_text p (map (\<lambda>n. demo_hash_method n item nullable) ns) = Inr h"
proof -
  have "\<exists>es. method_entries dbg ms = Inr es" if "set ms \<subseteq> range (\<lambda>n. demo_hash_method n item nullable)" for ms
    using that by (induction ms) (auto simp: method_entry_of_def demo_hash_method_def tokens_if_def schema_tokens_def)
  then obtain es where "method_entries dbg (sort_key hm_name (map (\<lambda>n. demo_hash_method n item nullable) ns)) = Inr es"
    by (metis image_subset_iff list.set_map rangeI set_sort)
  then show ?thesis
    by (simp add: compute_protocol_hash_def canonical_description_def)
qed


text \<open>
  Outside those names the tokens are ambiguous: a struct field whose name spells another field, and the
  nullability of run-end encoded values.
\<close>

lemma type_tokens_collide:
  "type_token dbg (Struct [Field ''a:int8,b'' (Atom Int8_T) False])
     = type_token dbg (Struct [Field ''a'' (Atom Int8_T) False, Field ''b'' (Atom Int8_T) False])
   \<and> type_token dbg (RunEndEncoded r (Field n t True)) = type_token dbg (RunEndEncoded r (Field n t False))"
  by (cases r) simp

end
