(* ===== verification/Conn.thy ===== *)
theory Conn
  imports Stream_Turn Protocol_Hash
begin

text \<open>
  Computations on a byte-stream connection. A connection holds what the framed input still yields, the
  frames written so far, the outcomes of the writes to come, the shared-memory cache, the statistics and
  hook calls of the current request, and the world of the application. A computation returns a value, an
  error that \<^verbatim>\<open>?\<close> propagates, or a panic.
\<close>

section \<open>Connections\<close>

text \<open>
  An input stream is what opening its reader and the reads of it return, in order, after which it has ended.
  Where the reader stands after a failed read is up to the bytes: the streams behind one are arbitrary.
\<close>

record 'b input_stream =
  in_open :: "unit rpc_result"
  in_reads :: "('b \<times> metadata) rpc_result list"

datatype 'b out_frame = Open schema | Put 'b "metadata option" | Close | Flush

record call_statistics =
  cs_input_batches :: nat
  cs_input_rows :: nat
  cs_output_batches :: nat
  cs_output_rows :: nat

definition no_statistics :: call_statistics where
  "no_statistics = \<lparr> cs_input_batches = 0, cs_input_rows = 0, cs_output_batches = 0, cs_output_rows = 0 \<rparr>"

text \<open>
  What a hook is told of a call; the fields of \<^verbatim>\<open>DispatchInfo\<close> that only HTTP sets, the claims and the random
  stream id are left out, as are the byte counts of the statistics, which nothing sets. The shape of a request
  is the names and types of its columns and its row count.
\<close>

record dispatch_info =
  di_method :: string
  di_method_type :: string
  di_server_id :: string
  di_protocol :: string
  di_protocol_hash :: string
  di_protocol_version :: string
  di_request_id :: string
  di_transport_metadata :: metadata
  di_principal :: string
  di_auth_domain :: string
  di_authenticated :: bool
  di_request_shape :: "((string \<times> data_type) list \<times> nat) option"
  di_externalized_bytes :: nat

datatype hook_event = Dispatch_Start dispatch_info | Dispatch_End dispatch_info "rpc_error option" call_statistics

record ('b, 'w) conn =
  cn_frames :: "'b out_frame list"
  cn_faults :: "rpc_error option list"
  cn_inputs :: "'b input_stream list"
  cn_shm :: connection_shm
  cn_stats :: call_statistics
  cn_app_err :: "rpc_error option"
  cn_hooks :: "hook_event list"
  cn_externalized :: nat
  cn_world :: 'w

type_synonym ('b, 'w, 'x) io = "('b, 'w) conn \<Rightarrow> 'x rpc_result outcome \<times> ('b, 'w) conn"

definition io_of :: "'x rpc_result \<Rightarrow> ('b, 'w, 'x) io" where
  "io_of r c = (Done r, c)"

abbreviation io_ret :: "'x \<Rightarrow> ('b, 'w, 'x) io" where
  "io_ret x \<equiv> io_of (Inr x)"

definition io_bind :: "('b, 'w, 'x) io \<Rightarrow> ('x \<Rightarrow> ('b, 'w, 'y) io) \<Rightarrow> ('b, 'w, 'y) io" where
  "io_bind m f c =
     (case m c of
        (Panic, c') \<Rightarrow> (Panic, c')
      | (Done (Inl e), c') \<Rightarrow> (Done (Inl e), c')
      | (Done (Inr x), c') \<Rightarrow> f x c')"

definition io_update :: "(('b, 'w) conn \<Rightarrow> ('b, 'w) conn) \<Rightarrow> ('b, 'w, unit) io" where
  "io_update u c = (Done (Inr ()), u c)"

text \<open>A call of application code, which works on its world.\<close>

definition io_app :: "('w \<Rightarrow> 'x \<times> 'w) \<Rightarrow> ('b, 'w, 'x) io" where
  "io_app f c = (case f (cn_world c) of (x, w) \<Rightarrow> (Done (Inr x), c\<lparr> cn_world := w \<rparr>))"

text \<open>\<^verbatim>\<open>let _ = m;\<close>\<close>

definition io_ignore :: "('b, 'w, 'x) io \<Rightarrow> ('b, 'w, unit) io" where
  "io_ignore m c = (case m c of (Panic, c') \<Rightarrow> (Panic, c') | (Done _, c') \<Rightarrow> (Done (Inr ()), c'))"

section \<open>Writing\<close>

text \<open>A write either succeeds or fails with the next error of \<open>cn_faults\<close>; what failed is not in the log.\<close>

definition put_frame :: "'b out_frame \<Rightarrow> ('b, 'w, unit) io" where
  "put_frame fr c =
     (case cn_faults c of
        Some e # fs \<Rightarrow> (Done (Inl e), c\<lparr> cn_faults := fs \<rparr>)
      | fs \<Rightarrow> (Done (Inr ()), c\<lparr> cn_frames := cn_frames c @ [fr], cn_faults := tl fs \<rparr>))"

text \<open>
  A stream writer: its constructor writes the schema. The computation that uses it ends with \<^verbatim>\<open>finish\<close>; when it
  is left early, the destructor tries to end the stream.
\<close>

definition with_stream :: "schema \<Rightarrow> ('b, 'w, 'x) io \<Rightarrow> ('b, 'w, 'x) io" where
  "with_stream schema body =
     io_bind (put_frame (Open schema)) (\<lambda>_ c.
       case body c of
         (Done (Inr x), c') \<Rightarrow> (Done (Inr x), c')
       | (r, c') \<Rightarrow> (r, snd (put_frame Close c')))"

definition put_empty :: "(schema, 'b) shm_api \<Rightarrow> schema \<Rightarrow> metadata \<Rightarrow> ('b, 'w, unit) io" where
  "put_empty S schema md = io_bind (io_of (empty_batch S schema)) (\<lambda>b. put_frame (Put b (Some md)))"

text \<open>A log message or an error as an envelope on a zero-row batch, through the reused builder.\<close>

fun put_logs ::
  "(schema, 'b) shm_api \<Rightarrow> (json \<Rightarrow> string) \<Rightarrow> schema \<Rightarrow> log_message list \<Rightarrow> envelope_meta
   \<Rightarrow> ('b, 'w, envelope_meta) io" where
  "put_logs S to_text schema [] env = io_ret env"
| "put_logs S to_text schema (m # ms) env =
     (let env' = envelope_log to_text m env in
      io_bind (put_empty S schema (envelope_map env')) (\<lambda>_. put_logs S to_text schema ms env'))"

definition put_error ::
  "(schema, 'b) shm_api \<Rightarrow> (json \<Rightarrow> string) \<Rightarrow> schema \<Rightarrow> rpc_error \<Rightarrow> envelope_meta \<Rightarrow> ('b, 'w, envelope_meta) io" where
  "put_error S to_text schema err env =
     (let env' = envelope_error to_text err env in
      io_bind (put_empty S schema (envelope_map env')) (\<lambda>_. io_ret env'))"

definition write_error_stream ::
  "(schema, 'b) shm_api \<Rightarrow> (json \<Rightarrow> string) \<Rightarrow> schema \<Rightarrow> rpc_error \<Rightarrow> string \<Rightarrow> string \<Rightarrow> string option
   \<Rightarrow> ('b, 'w, unit) io" where
  "write_error_stream S to_text schema err server_id request_id tracebacks =
     with_stream schema
       (io_bind (put_empty S schema (build_error_metadata to_text err server_id request_id tracebacks)) (\<lambda>_.
        put_frame Close))"

definition write_unary_response :: "(schema, 'b) shm_api \<Rightarrow> 'b \<Rightarrow> metadata \<Rightarrow> ('b, 'w, unit) io" where
  "write_unary_response S b md =
     with_stream (sa_schema S b) (io_bind (put_frame (Put b (Some md))) (\<lambda>_. put_frame Close))"

section \<open>Reading\<close>

definition empty_ipc_stream :: rpc_error where
  "empty_ipc_stream = ipc_error ''empty IPC stream (no schema)''"

definition open_input :: "('b, 'w, ('b \<times> metadata) rpc_result list) io" where
  "open_input c =
     (case cn_inputs c of
        [] \<Rightarrow> (Done (Inl empty_ipc_stream), c)
      | i # is \<Rightarrow> (Done (and_then (in_open i) (\<lambda>_. Inr (in_reads i))), c\<lparr> cn_inputs := is \<rparr>))"

section \<open>Triples\<close>

text \<open>
  From a state with \<open>P\<close> a computation returns a value with \<open>Q\<close>, or fails or panics with \<open>R\<close>.
\<close>

named_theorems io_rules "rules for triples over connections"

fun io_post :: "('x \<Rightarrow> 'c \<Rightarrow> bool) \<Rightarrow> ('c \<Rightarrow> bool) \<Rightarrow> 'x rpc_result outcome \<times> 'c \<Rightarrow> bool" where
  "io_post Q R (Done (Inr x), c) = Q x c"
| "io_post Q R (Done (Inl e), c) = R c"
| "io_post Q R (Panic, c) = R c"

definition io_triple ::
  "(('b, 'w) conn \<Rightarrow> bool) \<Rightarrow> ('b, 'w, 'x) io \<Rightarrow> ('x \<Rightarrow> ('b, 'w) conn \<Rightarrow> bool) \<Rightarrow> (('b, 'w) conn \<Rightarrow> bool) \<Rightarrow> bool" where
  "io_triple P m Q R = (\<forall>c. P c \<longrightarrow> io_post Q R (m c))"

lemma outcome_cases:
  obtains (panic) "r = Panic" | (err) e where "r = Done (Inl e)" | (ok) x where "r = Done (Inr x)"
  by (cases r) (metis sumE)+

lemma io_post_mono:
  "io_post Q R rc \<Longrightarrow> (\<And>x c. Q x c \<Longrightarrow> Q' x c) \<Longrightarrow> (\<And>c. R c \<Longrightarrow> R' c) \<Longrightarrow> io_post Q' R' rc"
  by (induction Q R rc rule: io_post.induct) simp_all

lemma io_tripleI: "(\<And>c. P c \<Longrightarrow> io_post Q R (m c)) \<Longrightarrow> io_triple P m Q R"
  by (simp add: io_triple_def)

lemma io_tripleD: "io_triple P m Q R \<Longrightarrow> P c \<Longrightarrow> io_post Q R (m c)"
  by (simp add: io_triple_def)

lemma io_post_bind:
  assumes "io_post Q R (m c)" "\<And>x c'. Q x c' \<Longrightarrow> io_post T R (f x c')"
  shows "io_post T R (io_bind m f c)"
proof (cases "m c")
  case (Pair r c')
  then show ?thesis
    using assms by (cases r rule: outcome.exhaust [case_product sum.exhaust]) (auto simp: io_bind_def split: outcome.split sum.split)
qed

text \<open>A destructor that runs when a computation is left early.\<close>

lemma io_post_drop:
  assumes "io_post Q L rc" "\<And>c. L c \<Longrightarrow> R (d c)"
  shows "io_post Q R (case rc of (Done (Inr x), c') \<Rightarrow> (Done (Inr x), c') | (r, c') \<Rightarrow> (r, d c'))"
  using assms by (induction Q L rc rule: io_post.induct) simp_all

lemma io_triple_bind:
  assumes "io_triple P m Q R" "\<And>x. io_triple (Q x) (f x) T R"
  shows "io_triple P (io_bind m f) T R"
  using assms io_post_bind [of Q R m _ T f] by (simp add: io_triple_def)

lemma io_triple_of:
  assumes "\<And>c x. r = Inr x \<Longrightarrow> P c \<Longrightarrow> Q x c" "\<And>c e. r = Inl e \<Longrightarrow> P c \<Longrightarrow> R c"
  shows "io_triple P (io_of r) Q R"
  using assms by (cases r) (simp_all add: io_triple_def io_of_def)

lemma io_triple_update: "(\<And>c. P c \<Longrightarrow> Q () (u c)) \<Longrightarrow> io_triple P (io_update u) Q R"
  by (simp add: io_triple_def io_update_def)

lemma io_triple_pre: "io_triple P' m Q R \<Longrightarrow> (\<And>c. P c \<Longrightarrow> P' c) \<Longrightarrow> io_triple P m Q R"
  by (simp add: io_triple_def)

lemma io_triple_post:
  "io_triple P m Q' R' \<Longrightarrow> (\<And>x c. Q' x c \<Longrightarrow> Q x c) \<Longrightarrow> (\<And>c. R' c \<Longrightarrow> R c) \<Longrightarrow> io_triple P m Q R"
  by (auto simp: io_triple_def intro: io_post_mono)

section \<open>Well-formed output\<close>

text \<open>
  Reading the log of frames: between streams after so many complete ones, or inside a stream of some
  schema. A batch must have the schema of its stream.
\<close>

datatype stream_pos = Between nat | Inside nat schema

fun frame_step :: "(schema, 'b) shm_api \<Rightarrow> 'b out_frame \<Rightarrow> stream_pos \<Rightarrow> stream_pos option" where
  "frame_step S (Open s) (Between k) = Some (Inside k s)"
| "frame_step S (Put b md) (Inside k s) = (if sa_schema S b = s then Some (Inside k s) else None)"
| "frame_step S Close (Inside k s) = Some (Between (Suc k))"
| "frame_step S Flush st = Some st"
| "frame_step S fr st = None"

fun scan :: "(schema, 'b) shm_api \<Rightarrow> stream_pos \<Rightarrow> 'b out_frame list \<Rightarrow> stream_pos option" where
  "scan S st [] = Some st"
| "scan S st (fr # frs) = Option.bind (frame_step S fr st) (\<lambda>st'. scan S st' frs)"

lemma scan_append: "scan S st (xs @ ys) = Option.bind (scan S st xs) (\<lambda>st'. scan S st' ys)"
  by (induction xs arbitrary: st) (auto split: Option.bind_split)

text \<open>
  A state where the log has been read up to a position; in strict mode the input streams \<open>is\<close> are left and no
  write is going to fail. What a failure leaves behind, which strict mode excludes.
\<close>

definition at_pos :: "(schema, 'b) shm_api \<Rightarrow> bool \<Rightarrow> 'b input_stream list \<Rightarrow> stream_pos \<Rightarrow> ('b, 'w) conn \<Rightarrow> bool" where
  "at_pos S strict is st c =
     (scan S (Between 0) (cn_frames c) = Some st \<and> (strict \<longrightarrow> cn_inputs c = is \<and> cn_faults c = []))"

definition failed :: "(schema, 'b) shm_api \<Rightarrow> bool \<Rightarrow> ('b, 'w) conn \<Rightarrow> bool" where
  "failed S strict c = (\<not> strict \<and> scan S (Between 0) (cn_frames c) \<noteq> None)"

lemma put_frame_cases:
  obtains e fs where "cn_faults c = Some e # fs" "put_frame fr c = (Done (Inl e), c\<lparr> cn_faults := fs \<rparr>)"
  | "put_frame fr c = (Done (Inr ()), c\<lparr> cn_frames := cn_frames c @ [fr], cn_faults := tl (cn_faults c) \<rparr>)"
  by (cases "cn_faults c"; cases "hd (cn_faults c)") (auto simp: put_frame_def)

lemma put_frame_triple:
  assumes "frame_step S fr st = Some st'"
  shows "io_triple (at_pos S n is st) (put_frame fr) (\<lambda>_. at_pos S n is st') (\<lambda>c. \<not> n \<and> at_pos S n is st c)"
proof (rule io_tripleI)
  fix c
  assume "at_pos S n is st c"
  then show "io_post (\<lambda>_. at_pos S n is st') (\<lambda>c. \<not> n \<and> at_pos S n is st c) (put_frame fr c)"
    using assms by (cases rule: put_frame_cases [of c fr]) (auto simp: at_pos_def scan_append)
qed

lemma at_pos_failed: "\<not> n \<and> at_pos S n is st c \<Longrightarrow> failed S n c"
  by (auto simp: at_pos_def failed_def)

lemma put_triple [io_rules]:
  assumes "frame_step S fr st = Some st'"
  shows "io_triple (at_pos S n is st) (put_frame fr) (\<lambda>_. at_pos S n is st') (failed S n)"
  by (rule io_triple_post [OF put_frame_triple [OF assms]]) (assumption | rule at_pos_failed)+

text \<open>Inside a stream a failure leaves the stream open, for the destructor to end.\<close>

definition left_open :: "(schema, 'b) shm_api \<Rightarrow> bool \<Rightarrow> nat \<Rightarrow> schema \<Rightarrow> ('b, 'w) conn \<Rightarrow> bool" where
  "left_open S n k s c = (\<not> n \<and> scan S (Between 0) (cn_frames c) = Some (Inside k s))"

lemma put_in_stream [io_rules]:
  "sa_schema S b = s \<Longrightarrow> io_triple (at_pos S n is (Inside k s)) (put_frame (Put b md)) (\<lambda>_. at_pos S n is (Inside k s)) (left_open S n k s)"
  "io_triple (at_pos S n is (Inside k s)) (put_frame Close) (\<lambda>_. at_pos S n is (Between (Suc k))) (left_open S n k s)"
  "io_triple (at_pos S n is (Inside k s)) (put_frame Flush) (\<lambda>_. at_pos S n is (Inside k s)) (left_open S n k s)"
  by (rule io_triple_post [OF put_frame_triple]; simp add: at_pos_def left_open_def)+

lemma with_stream_triple [io_rules]:
  assumes "io_triple (at_pos S n is (Inside k s)) body (\<lambda>x. at_pos S n is' (Between (Suc k))) (left_open S n k s)"
  shows "io_triple (at_pos S n is (Between k)) (with_stream s body) (\<lambda>x. at_pos S n is' (Between (Suc k))) (failed S n)"
proof -
  have "failed S n (snd (put_frame Close c))" if "left_open S n k s c" for c
    by (cases rule: put_frame_cases [of c Close]) (use that in \<open>auto simp: left_open_def failed_def scan_append\<close>)
  then show ?thesis
    unfolding with_stream_def
    by (intro io_triple_bind [OF put_triple] io_tripleI io_post_drop [OF io_tripleD [OF assms]]) simp_all
qed

text \<open>
  What is relied on of the Arrow crates: an empty batch has the schema that was asked for and, in strict
  mode, can always be made.
\<close>

definition empties_ok :: "(schema, 'b) shm_api \<Rightarrow> bool \<Rightarrow> bool" where
  "empties_ok S n = ((\<forall>s b. empty_batch S s = Inr b \<longrightarrow> sa_schema S b = s) \<and> (n \<longrightarrow> (\<forall>s e. empty_batch S s \<noteq> Inl e)))"

lemma empty_triple [io_rules]:
  assumes "empties_ok S n"
  shows "io_triple (at_pos S n is (Inside k s)) (io_of (empty_batch S t))
    (\<lambda>b c. sa_schema S b = t \<and> at_pos S n is (Inside k s) c) (left_open S n k s)"
  using assms by (intro io_triple_of) (auto simp: empties_ok_def at_pos_def left_open_def)

lemma io_triple_fact: "(F \<Longrightarrow> io_triple P m Q R) \<Longrightarrow> io_triple (\<lambda>c. F \<and> P c) m Q R"
  by (auto simp: io_triple_def)

lemma put_empty_triple [io_rules]:
  assumes "empties_ok S n"
  shows "io_triple (at_pos S n is (Inside k s)) (put_empty S s md) (\<lambda>_. at_pos S n is (Inside k s)) (left_open S n k s)"
  unfolding put_empty_def
  by (intro io_triple_bind [OF empty_triple [OF assms]] io_triple_fact put_in_stream)

lemma put_logs_triple [io_rules]:
  assumes "empties_ok S n"
  shows "io_triple (at_pos S n is (Inside k s)) (put_logs S tt s ms env) (\<lambda>_. at_pos S n is (Inside k s)) (left_open S n k s)"
proof (induction ms arbitrary: env)
  case Nil
  show ?case by (auto intro: io_triple_of)
next
  case (Cons m ms)
  show ?case
    unfolding put_logs.simps Let_def by (intro io_triple_bind [OF put_empty_triple [OF assms]] Cons.IH)
qed

lemma put_error_triple [io_rules]:
  assumes "empties_ok S n"
  shows "io_triple (at_pos S n is (Inside k s)) (put_error S tt s err env) (\<lambda>_. at_pos S n is (Inside k s)) (left_open S n k s)"
  unfolding put_error_def Let_def by (intro io_triple_bind [OF put_empty_triple [OF assms]] io_triple_of) auto

lemma write_error_stream_triple [io_rules]:
  assumes "empties_ok S n"
  shows "io_triple (at_pos S n is (Between k)) (write_error_stream S tt s err sid rid tb)
    (\<lambda>_. at_pos S n is (Between (Suc k))) (failed S n)"
  unfolding write_error_stream_def
  by (intro with_stream_triple io_triple_bind [OF put_empty_triple [OF assms]] put_in_stream)

lemma write_unary_response_triple [io_rules]:
  "io_triple (at_pos S n is (Between k)) (write_unary_response S b md) (\<lambda>_. at_pos S n is (Between (Suc k))) (failed S n)"
  unfolding write_unary_response_def by (intro with_stream_triple io_triple_bind [OF put_in_stream(1)] put_in_stream) simp

lemma at_pos_update [simp]:
  "at_pos S n is st (c\<lparr> cn_stats := a \<rparr>) = at_pos S n is st c"
  "at_pos S n is st (c\<lparr> cn_app_err := e \<rparr>) = at_pos S n is st c"
  "at_pos S n is st (c\<lparr> cn_hooks := h \<rparr>) = at_pos S n is st c"
  "at_pos S n is st (c\<lparr> cn_externalized := x \<rparr>) = at_pos S n is st c"
  "at_pos S n is st (c\<lparr> cn_world := w \<rparr>) = at_pos S n is st c"
  "at_pos S n is st (c\<lparr> cn_shm := g \<rparr>) = at_pos S n is st c"
  by (simp_all add: at_pos_def)

lemma update_triple [io_rules]:
  "(\<And>c. at_pos S n is st c \<Longrightarrow> at_pos S n is st (u c)) \<Longrightarrow>
   io_triple (at_pos S n is st) (io_update u) (\<lambda>_. at_pos S n is st) R"
  by (rule io_triple_update)

lemma app_triple [io_rules]: "io_triple (at_pos S n is st) (io_app f) (\<lambda>_. at_pos S n is st) R"
  by (rule io_tripleI) (simp add: io_app_def split: prod.split)

lemma ret_triple [io_rules]: "io_triple P (io_ret x) (\<lambda>_. P) R"
  by (rule io_triple_of) auto

lemma ignore_flush_triple [io_rules]:
  "io_triple (at_pos S n is st) (io_ignore (put_frame Flush)) (\<lambda>_. at_pos S n is st) R"
proof (rule io_tripleI, goal_cases)
  case (1 c)
  then show ?case
    by (cases rule: put_frame_cases [of c Flush]) (auto simp: io_ignore_def at_pos_def scan_append)
qed

lemma open_triple [io_rules]:
  assumes "n \<Longrightarrow> is \<noteq> [] \<and> in_open (hd is) = Inr ()"
  shows "io_triple (at_pos S n is (Inside k s)) open_input (\<lambda>_. at_pos S n (tl is) (Inside k s)) (left_open S n k s)"
proof (rule io_tripleI, goal_cases)
  case (1 c)
  then show ?case
    using assms by (cases "cn_inputs c"; cases "in_open (hd (cn_inputs c))")
      (auto simp: open_input_def at_pos_def left_open_def)
qed

lemma ignore_open_triple [io_rules]:
  "io_triple (at_pos S n is st) (io_ignore open_input) (\<lambda>_. at_pos S n (tl is) st) R"
  by (rule io_tripleI) (auto simp: io_ignore_def open_input_def at_pos_def split: list.split)

end
