(* ===== verification/Reflection.thy ===== *)
theory Reflection
  imports Conn
begin

text \<open>
  The reflection protocol: \<^verbatim>\<open>vgi-rpc/src/reflection.rs\<close> and the hashes of \<^verbatim>\<open>server.rs\<close>. The rows of the answers
  are records; turning them into Arrow batches and bytes is the record \<open>reflection_api\<close>.
\<close>

section \<open>Descriptions\<close>

definition DESCRIBE_METHOD :: string where "DESCRIBE_METHOD = ''describe''"
definition LIST_PROTOCOLS_METHOD :: string where "LIST_PROTOCOLS_METHOD = ''list_protocols''"
definition IDEMPOTENCY_LEVELS :: "string list" where
  "IDEMPOTENCY_LEVELS = [''unknown'', ''no_side_effects'', ''idempotent'']"

record protocol_summary =
  ps_protocol :: string
  ps_protocol_version :: string
  ps_protocol_hash :: string
  ps_deprecated :: bool
  ps_deprecation_message :: string
  ps_features :: "string list"

record protocol_list =
  pl_server_id :: string
  pl_server_version :: string
  pl_request_version :: string
  pl_protocols :: "protocol_summary list"

record method_row =
  mr_name :: string
  mr_method_type :: string
  mr_has_return :: bool
  mr_has_header :: bool
  mr_stream_kind :: string
  mr_params_schema_ipc :: bytes
  mr_result_schema_ipc :: bytes
  mr_header_schema_ipc :: bytes
  mr_idempotency :: string
  mr_deprecated :: bool
  mr_deprecation_message :: string

record service_description =
  sd_summary :: protocol_summary
  sd_methods :: "method_row list"

text \<open>
  The IPC writer of the Arrow crate is a buffer that opening, writing and finishing extend; a string column
  is the list of its values, null or not; \<^verbatim>\<open>try_new\<close> fails with a message.
\<close>

record 'b reflection_api =
  ra_ipc_open :: "schema \<Rightarrow> string + bytes"
  ra_ipc_write :: "'b \<Rightarrow> bytes \<Rightarrow> string + bytes"
  ra_ipc_finish :: "bytes \<Rightarrow> string + bytes"
  ra_protocol_list :: "protocol_list \<Rightarrow> string + 'b"
  ra_service_description :: "service_description \<Rightarrow> string + 'b"
  ra_result :: "bytes \<Rightarrow> string + 'b"
  ra_utf8_column :: "'b \<Rightarrow> string \<Rightarrow> string option list option"

definition schema_to_ipc :: "'b reflection_api \<Rightarrow> schema \<Rightarrow> bytes rpc_result" where
  "schema_to_ipc A schema =
     and_then (map_err (\<lambda>e. protocol_error (''opening IPC writer: '' @ e)) (ra_ipc_open A schema)) (\<lambda>buf.
     map_err (\<lambda>e. protocol_error (''finishing IPC stream: '' @ e)) (ra_ipc_finish A buf))"

definition batch_to_ipc :: "(schema, 'b) shm_api \<Rightarrow> 'b reflection_api \<Rightarrow> 'b \<Rightarrow> bytes rpc_result" where
  "batch_to_ipc S A b =
     and_then (map_err (\<lambda>e. protocol_error (''opening IPC writer: '' @ e)) (ra_ipc_open A (sa_schema S b))) (\<lambda>buf.
     and_then (map_err (\<lambda>e. protocol_error (''writing batch: '' @ e)) (ra_ipc_write A b buf)) (\<lambda>buf.
     map_err (\<lambda>e. protocol_error (''finishing IPC stream: '' @ e)) (ra_ipc_finish A buf)))"

definition stream_kind_for :: "'f method_info \<Rightarrow> string" where
  "stream_kind_for info =
     (case mi_method_type info of
        Unary \<Rightarrow> []
      | Producer \<Rightarrow> ''producer''
      | Exchange \<Rightarrow> ''exchange''
      | Dynamic \<Rightarrow> if mi_declared_stream_kind info \<noteq> [] then mi_declared_stream_kind info else ''unknown'')"

definition summary_of :: "string \<times> string \<times> string \<Rightarrow> protocol_summary" where
  "summary_of p =
     (case p of (name, version, hash) \<Rightarrow>
        \<lparr> ps_protocol = name, ps_protocol_version = version, ps_protocol_hash = hash, ps_deprecated = False,
          ps_deprecation_message = [], ps_features = [] \<rparr>)"

definition build_protocol_list ::
  "'b reflection_api \<Rightarrow> string \<Rightarrow> string \<Rightarrow> string \<Rightarrow> (string \<times> string \<times> string) list \<Rightarrow> 'b rpc_result" where
  "build_protocol_list A server_id server_version request_version protocols =
     map_err (\<lambda>e. protocol_error (''building ProtocolList batch: '' @ e))
       (ra_protocol_list A \<lparr> pl_server_id = server_id, pl_server_version = server_version,
          pl_request_version = request_version, pl_protocols = map summary_of protocols \<rparr>)"

definition build_method_row :: "'b reflection_api \<Rightarrow> arrow_field method_info \<Rightarrow> method_row rpc_result" where
  "build_method_row A info =
     and_then (schema_to_ipc A (mi_params_schema info)) (\<lambda>params.
     and_then (if unary_has_return info then schema_to_ipc A (mi_result_schema info) else Inr []) (\<lambda>result.
     and_then (case mi_header_schema info of Some h \<Rightarrow> schema_to_ipc A h | None \<Rightarrow> Inr []) (\<lambda>header.
     Inr \<lparr> mr_name = mi_name info, mr_method_type = (if mi_method_type info = Unary then ''unary'' else ''stream''),
           mr_has_return = unary_has_return info, mr_has_header = (mi_header_schema info \<noteq> None),
           mr_stream_kind = stream_kind_for info, mr_params_schema_ipc = params, mr_result_schema_ipc = result,
           mr_header_schema_ipc = header, mr_idempotency = IDEMPOTENCY_LEVELS ! 0, mr_deprecated = False,
           mr_deprecation_message = [] \<rparr>)))"

fun build_method_rows :: "'b reflection_api \<Rightarrow> arrow_field method_info list \<Rightarrow> method_row list rpc_result" where
  "build_method_rows A [] = Inr []"
| "build_method_rows A (info # infos) =
     and_then (build_method_row A info) (\<lambda>r. and_then (build_method_rows A infos) (\<lambda>rs. Inr (r # rs)))"

definition build_service_description ::
  "'b reflection_api \<Rightarrow> string \<Rightarrow> string \<Rightarrow> string \<Rightarrow> arrow_field method_table \<Rightarrow> 'b rpc_result" where
  "build_service_description A protocol version hash methods =
     and_then (build_method_rows A (map snd (obj_of methods))) (\<lambda>rows.
     map_err (\<lambda>e. protocol_error (''building ServiceDescription batch: '' @ e))
       (ra_service_description A \<lparr> sd_summary = summary_of (protocol, version, hash), sd_methods = rows \<rparr>))"

definition reflection_describe_argument :: "'b reflection_api \<Rightarrow> 'b \<Rightarrow> string" where
  "reflection_describe_argument A b =
     (case ra_utf8_column A b ''protocol'' of
        Some (Some v # _) \<Rightarrow> v
      | _ \<Rightarrow> [])"

section \<open>Reflection describes itself\<close>

definition describe_params_schema :: schema where
  "describe_params_schema = [Field ''protocol'' (Atom Utf8_T) False]"

definition reflection_result_schema :: schema where
  "reflection_result_schema = [Field ''result'' (Atom Binary_T) False]"

definition method_info_unary :: "string \<Rightarrow> 'f list \<Rightarrow> 'f list \<Rightarrow> 'f method_info" where
  "method_info_unary name params result =
     \<lparr> mi_name = name, mi_method_type = Unary, mi_params_schema = params, mi_result_schema = result,
       mi_header_schema = None, mi_declared_stream_kind = [] \<rparr>"

definition reflection_methods :: "arrow_field method_table" where
  "reflection_methods =
     [(DESCRIBE_METHOD, method_info_unary DESCRIBE_METHOD describe_params_schema reflection_result_schema),
      (LIST_PROTOCOLS_METHOD, method_info_unary LIST_PROTOCOLS_METHOD [] reflection_result_schema)]"

definition sorted_reflection_method_names :: "string list" where
  "sorted_reflection_method_names = sort (map fst reflection_methods)"

section \<open>Answers\<close>

text \<open>What the hashes need; where a hash cannot be computed, \<^verbatim>\<open>unwrap_or_default\<close> makes it empty.\<close>

record hash_env =
  he_crypto :: token_crypto
  he_debug :: "data_type \<Rightarrow> string"
  he_to_text :: "json \<Rightarrow> string"

definition table_hash :: "hash_env \<Rightarrow> string \<Rightarrow> arrow_field method_table \<Rightarrow> string rpc_result" where
  "table_hash H name methods = binding_hash (he_crypto H) (he_debug H) (he_to_text H) name methods"

definition hash_or_default :: "hash_env \<Rightarrow> string \<Rightarrow> arrow_field method_table \<Rightarrow> string" where
  "hash_or_default H name methods = (case table_hash H name methods of Inr h \<Rightarrow> h | Inl _ \<Rightarrow> [])"

text \<open>The name, hash and version that a record of a call carries.\<close>

definition protocol_identity :: "hash_env \<Rightarrow> arrow_field rpc_server \<Rightarrow> string \<Rightarrow> string \<times> string \<times> string" where
  "protocol_identity H sv protocol =
     (if protocol = REFLECTION_PROTOCOL_NAME then
        (REFLECTION_PROTOCOL_NAME, hash_or_default H REFLECTION_PROTOCOL_NAME reflection_methods, [])
      else case (if protocol = IDENTITY_PROTOCOL_NAME then sv_identity sv else None) of
        Some ms \<Rightarrow> (IDENTITY_PROTOCOL_NAME, hash_or_default H IDENTITY_PROTOCOL_NAME ms, [])
      | None \<Rightarrow>
          (case find (\<lambda>p. hp_name p = protocol) (sv_extra_protocols sv) of
             Some extra \<Rightarrow> (hp_name extra, hash_or_default H (hp_name extra) (hp_methods extra), hp_version extra)
           | None \<Rightarrow>
               (sv_protocol_name sv, hash_or_default H (sv_protocol_name sv) (sv_methods sv), sv_protocol_version sv)))"

datatype 'b reflection_reply = Answer_Batch 'b | Answer_Error rpc_error

definition listed_protocols ::
  "hash_env \<Rightarrow> arrow_field rpc_server \<Rightarrow> string \<Rightarrow> string \<Rightarrow> (string \<times> string \<times> string) list" where
  "listed_protocols H sv app_hash refl_hash =
     (sv_protocol_name sv, sv_protocol_version sv, app_hash)
     # map (\<lambda>p. (hp_name p, hp_version p, hash_or_default H (hp_name p) (hp_methods p))) (sv_extra_protocols sv)
     @ [(REFLECTION_PROTOCOL_NAME, [], refl_hash)]
     @ (case sv_identity sv of
          Some ms \<Rightarrow> [(IDENTITY_PROTOCOL_NAME, [], hash_or_default H IDENTITY_PROTOCOL_NAME ms)]
        | None \<Rightarrow> [])"

definition describe_protocol ::
  "'b reflection_api \<Rightarrow> hash_env \<Rightarrow> arrow_field rpc_server \<Rightarrow> string \<Rightarrow> string \<Rightarrow> string \<Rightarrow> 'b reflection_reply rpc_result" where
  "describe_protocol A H sv app_hash refl_hash requested =
     (if requested = sv_protocol_name sv then
        and_then (build_service_description A (sv_protocol_name sv) (sv_protocol_version sv) app_hash (sv_methods sv))
          (\<lambda>b. Inr (Answer_Batch b))
      else case find (\<lambda>p. hp_name p = requested) (sv_extra_protocols sv) of
        Some extra \<Rightarrow>
          and_then (build_service_description A (hp_name extra) (hp_version extra)
              (hash_or_default H (hp_name extra) (hp_methods extra)) (hp_methods extra))
            (\<lambda>b. Inr (Answer_Batch b))
      | None \<Rightarrow>
          if requested = REFLECTION_PROTOCOL_NAME then
            and_then (build_service_description A REFLECTION_PROTOCOL_NAME [] refl_hash reflection_methods)
              (\<lambda>b. Inr (Answer_Batch b))
          else case (if requested = IDENTITY_PROTOCOL_NAME then sv_identity sv else None) of
            Some ms \<Rightarrow>
              and_then (build_service_description A IDENTITY_PROTOCOL_NAME []
                  (hash_or_default H IDENTITY_PROTOCOL_NAME ms) ms)
                (\<lambda>b. Inr (Answer_Batch b))
          | None \<Rightarrow> Inr (Answer_Error (protocol_not_supported requested (hosted_protocol_names sv))))"

definition no_reflection_method :: "string \<Rightarrow> rpc_error" where
  "no_reflection_method other =
     method_not_implemented (''Protocol '' @ [CHR 0x27] @ REFLECTION_PROTOCOL_NAME @ [CHR 0x27] @ '' has no method ''
       @ [CHR 0x27] @ other @ [CHR 0x27] @ ''. Available: '' @ debug_list sorted_reflection_method_names)"

definition reflection_answer ::
  "'b reflection_api \<Rightarrow> hash_env \<Rightarrow> arrow_field rpc_server \<Rightarrow> string \<Rightarrow> 'b \<Rightarrow> 'b reflection_reply rpc_result" where
  "reflection_answer A H sv method_name b =
     and_then (table_hash H (sv_protocol_name sv) (sv_methods sv)) (\<lambda>app_hash.
     and_then (table_hash H REFLECTION_PROTOCOL_NAME reflection_methods) (\<lambda>refl_hash.
     if method_name = LIST_PROTOCOLS_METHOD then
       and_then (build_protocol_list A (sv_server_id sv) [] REQUEST_VERSION (listed_protocols H sv app_hash refl_hash))
         (\<lambda>b. Inr (Answer_Batch b))
     else if method_name = DESCRIBE_METHOD then
       describe_protocol A H sv app_hash refl_hash (reflection_describe_argument A b)
     else Inr (Answer_Error (no_reflection_method method_name))))"

definition serve_reflection ::
  "(schema, 'b) shm_api \<Rightarrow> 'b reflection_api \<Rightarrow> hash_env \<Rightarrow> arrow_field rpc_server \<Rightarrow> arrow_field request \<Rightarrow> 'b
   \<Rightarrow> string option \<Rightarrow> ('b, 'w, bool) io" where
  "serve_reflection S A H sv req b tracebacks =
     io_bind (io_of (reflection_answer A H sv (rq_method req) b)) (\<lambda>answer.
       case answer of
         Answer_Error err \<Rightarrow>
           io_bind (write_error_stream S (he_to_text H) [] err (sv_server_id sv) (rq_request_id req) tracebacks)
             (\<lambda>_. io_ret True)
       | Answer_Batch batch \<Rightarrow>
           io_bind (io_of (batch_to_ipc S A batch)) (\<lambda>nested.
           io_bind (io_of (map_err (\<lambda>e. protocol_error (''building reflection result: '' @ e)) (ra_result A nested))) (\<lambda>out.
           io_bind (write_unary_response S out (build_envelope_metadata (sv_server_id sv) (rq_request_id req))) (\<lambda>_.
           io_ret True))))"

text \<open>With a hook installed the call is recorded, whatever comes of it.\<close>

definition outcome_error :: "'x rpc_result outcome \<Rightarrow> rpc_error option" where
  "outcome_error r = (case r of Done (Inl e) \<Rightarrow> Some e | _ \<Rightarrow> None)"

definition reflection_statistics :: "arrow_field request \<Rightarrow> call_statistics" where
  "reflection_statistics req =
     \<lparr> cs_input_batches = 1, cs_input_rows = bt_rows (rq_batch req), cs_output_batches = 1, cs_output_rows = 1 \<rparr>"

definition dispatch_info_from_request ::
  "hash_env \<Rightarrow> arrow_field rpc_server \<Rightarrow> arrow_field request \<Rightarrow> string \<Rightarrow> auth_context \<Rightarrow> dispatch_info" where
  "dispatch_info_from_request H sv req method_type auth =
     (case protocol_identity H sv (rq_protocol req) of (name, hash, version) \<Rightarrow>
        \<lparr> di_method = rq_method req, di_method_type = method_type, di_server_id = sv_server_id sv, di_protocol = name,
          di_protocol_hash = hash, di_protocol_version = version, di_request_id = rq_request_id req,
          di_transport_metadata = rq_metadata req, di_principal = ac_principal auth, di_auth_domain = ac_domain auth,
          di_authenticated = ac_authenticated auth, di_request_shape = None, di_externalized_bytes = 0 \<rparr>)"

definition request_shape_of :: "arrow_field request \<Rightarrow> (string \<times> data_type) list \<times> nat" where
  "request_shape_of req = (map (\<lambda>f. (af_name f, af_data_type f)) (bt_fields (rq_batch req)), bt_rows (rq_batch req))"

definition serve_reflection_logged ::
  "bool \<Rightarrow> (schema, 'b) shm_api \<Rightarrow> 'b reflection_api \<Rightarrow> hash_env \<Rightarrow> arrow_field rpc_server \<Rightarrow> arrow_field request \<Rightarrow> 'b
   \<Rightarrow> auth_context \<Rightarrow> string option \<Rightarrow> ('b, 'w, bool) io" where
  "serve_reflection_logged hooked S A H sv req b auth tracebacks c =
     (if \<not> hooked then serve_reflection S A H sv req b tracebacks c
      else
        let info = (dispatch_info_from_request H sv req ''unary'' auth)\<lparr> di_request_shape := Some (request_shape_of req) \<rparr> in
        case serve_reflection S A H sv req b tracebacks (c\<lparr> cn_hooks := cn_hooks c @ [Dispatch_Start info] \<rparr>) of
          (Panic, c') \<Rightarrow> (Panic, c')
        | (r, c') \<Rightarrow>
            (r, c'\<lparr> cn_hooks := cn_hooks c' @ [Dispatch_End info (outcome_error r) (reflection_statistics req)] \<rparr>))"

section \<open>Routing seen through reflection\<close>

text \<open>What a hosted name stands for: reflection itself, or the binding that routing resolves.\<close>

definition hosted_binding :: "arrow_field rpc_server \<Rightarrow> string \<Rightarrow> arrow_field hosted_protocol option" where
  "hosted_binding sv n =
     (if n = REFLECTION_PROTOCOL_NAME
      then Some \<lparr> hp_name = REFLECTION_PROTOCOL_NAME, hp_version = [], hp_methods = reflection_methods \<rparr>
      else resolve_binding sv n)"

lemma reserved_names [simp]:
  "prefix RESERVED_PROTOCOL_PREFIX REFLECTION_PROTOCOL_NAME" "prefix RESERVED_PROTOCOL_PREFIX IDENTITY_PROTOCOL_NAME"
  "REFLECTION_PROTOCOL_NAME \<noteq> IDENTITY_PROTOCOL_NAME" "IDENTITY_PROTOCOL_NAME \<noteq> REFLECTION_PROTOCOL_NAME"
  by (simp_all add: RESERVED_PROTOCOL_PREFIX_def REFLECTION_PROTOCOL_NAME_def IDENTITY_PROTOCOL_NAME_def)

lemma registered_not_reserved:
  assumes "register_names [] (application_names sv) = Done (Inr ())"
  shows "n \<in> set (application_names sv) \<Longrightarrow> n \<noteq> REFLECTION_PROTOCOL_NAME \<and> n \<noteq> IDENTITY_PROTOCOL_NAME"
  using register_names_ok [OF assms] valid_application_name reserved_names by blast

lemma registered_names:
  assumes "register_names [] (application_names sv) = Done (Inr ())"
  shows "sv_protocol_name sv \<noteq> REFLECTION_PROTOCOL_NAME" "sv_protocol_name sv \<noteq> IDENTITY_PROTOCOL_NAME"
    "p \<in> set (sv_extra_protocols sv) \<Longrightarrow> hp_name p \<noteq> REFLECTION_PROTOCOL_NAME \<and> hp_name p \<noteq> IDENTITY_PROTOCOL_NAME
      \<and> hp_name p \<noteq> sv_protocol_name sv"
    "distinct (map hp_name (sv_extra_protocols sv))"
proof -
  have d: "distinct (application_names sv)"
    using register_names_ok [OF assms] by blast
  show "sv_protocol_name sv \<noteq> REFLECTION_PROTOCOL_NAME" "sv_protocol_name sv \<noteq> IDENTITY_PROTOCOL_NAME"
    using registered_not_reserved [OF assms, of "sv_protocol_name sv"] by (auto simp: application_names_def)
  show "hp_name p \<noteq> REFLECTION_PROTOCOL_NAME \<and> hp_name p \<noteq> IDENTITY_PROTOCOL_NAME \<and> hp_name p \<noteq> sv_protocol_name sv"
    if "p \<in> set (sv_extra_protocols sv)"
    using registered_not_reserved [OF assms, of "hp_name p"] d imageI [OF that, of hp_name]
    by (auto simp: application_names_def)
  show "distinct (map hp_name (sv_extra_protocols sv))"
    using d by (simp add: application_names_def)
qed

lemma find_hosted: "distinct (map hp_name ps) \<Longrightarrow> p \<in> set ps \<Longrightarrow> find (\<lambda>q. hp_name q = hp_name p) ps = Some p"
  by (induction ps) auto

lemma find_unreserved:
  assumes "register_names [] (application_names sv) = Done (Inr ())"
  shows "find (\<lambda>p. hp_name p = REFLECTION_PROTOCOL_NAME) (sv_extra_protocols sv) = None"
    "find (\<lambda>p. hp_name p = IDENTITY_PROTOCOL_NAME) (sv_extra_protocols sv) = None"
  using registered_names(3) [OF assms] by (auto simp: find_None_iff)

lemma listed_names: "map fst (listed_protocols H sv a r) = hosted_protocol_names sv"
  by (simp add: listed_protocols_def hosted_protocol_names_def comp_def split: option.split)

text \<open>Every listed entry is the hosted binding of its name.\<close>

lemma listed_binding:
  assumes "register_names [] (application_names sv) = Done (Inr ())"
    and "table_hash H (sv_protocol_name sv) (sv_methods sv) = Inr a"
    and "table_hash H REFLECTION_PROTOCOL_NAME reflection_methods = Inr r"
    and "(n, v, h) \<in> set (listed_protocols H sv a r)"
  shows "\<exists>ms. hosted_binding sv n = Some \<lparr> hp_name = n, hp_version = v, hp_methods = ms \<rparr> \<and> h = hash_or_default H n ms"
proof -
  note names = registered_names [OF assms(1)] find_unreserved [OF assms(1)]
  consider "n = sv_protocol_name sv" "v = sv_protocol_version sv" "h = a"
    | p where "p \<in> set (sv_extra_protocols sv)" "n = hp_name p" "v = hp_version p" "h = hash_or_default H n (hp_methods p)"
    | "n = REFLECTION_PROTOCOL_NAME" "v = []" "h = r"
    | ms where "sv_identity sv = Some ms" "n = IDENTITY_PROTOCOL_NAME" "v = []" "h = hash_or_default H n ms"
    using assms(4) by (cases "sv_identity sv") (auto simp: listed_protocols_def)
  then show ?thesis
  proof cases
    case 1
    then show ?thesis using names assms(2) by (simp add: hosted_binding_def resolve_binding_def hash_or_default_def)
  next
    case 2
    then have "hosted_binding sv n = Some p"
      using names(3) [OF 2(1)] find_hosted [OF names(4) 2(1)] by (simp add: hosted_binding_def resolve_binding_def)
    then show ?thesis using 2 by (intro exI [of _ "hp_methods p"]) simp
  next
    case 3
    then show ?thesis using assms(3) by (simp add: hosted_binding_def hash_or_default_def)
  next
    case 4
    then show ?thesis using names by (simp add: hosted_binding_def resolve_binding_def)
  qed
qed

lemma describe_hosted:
  assumes "register_names [] (application_names sv) = Done (Inr ())"
    and "table_hash H (sv_protocol_name sv) (sv_methods sv) = Inr a"
    and "table_hash H REFLECTION_PROTOCOL_NAME reflection_methods = Inr r"
  shows "describe_protocol A H sv a r n =
    (case hosted_binding sv n of
       Some b \<Rightarrow> and_then (build_service_description A (hp_name b) (hp_version b)
          (hash_or_default H (hp_name b) (hp_methods b)) (hp_methods b)) (\<lambda>b. Inr (Answer_Batch b))
     | None \<Rightarrow> Inr (Answer_Error (protocol_not_supported n (hosted_protocol_names sv))))"
  using registered_names(1,2) [OF assms(1)] find_unreserved [OF assms(1)] assms(2,3)
  by (auto simp: describe_protocol_def hosted_binding_def resolve_binding_def hash_or_default_def split: option.split)

lemma identity_hosted:
  assumes "register_names [] (application_names sv) = Done (Inr ())" "hosted_binding sv n = Some b"
  shows "protocol_identity H sv n = (n, hash_or_default H n (hp_methods b), hp_version b)"
proof -
  note names = registered_names [OF assms(1)] find_unreserved [OF assms(1)]
  consider "n = REFLECTION_PROTOCOL_NAME" | "n = IDENTITY_PROTOCOL_NAME" | "n = sv_protocol_name sv"
    | "n \<noteq> REFLECTION_PROTOCOL_NAME" "n \<noteq> IDENTITY_PROTOCOL_NAME" "n \<noteq> sv_protocol_name sv"
    by blast
  then show ?thesis
  proof cases
    case 3
    moreover have "find (\<lambda>p. hp_name p = n) (sv_extra_protocols sv) = None"
      using 3 names(3) by (auto simp: find_None_iff)
    ultimately show ?thesis
      using assms(2) names(1,2) by (auto simp: protocol_identity_def hosted_binding_def resolve_binding_def)
  next
    case 4
    then have "find (\<lambda>p. hp_name p = n) (sv_extra_protocols sv) = Some b" "hp_name b = n"
      using assms(2) by (auto simp: hosted_binding_def resolve_binding_def find_Some_iff split: option.split_asm)
    then show ?thesis using 4 by (simp add: protocol_identity_def)
  qed (use assms(2) names in \<open>auto simp: protocol_identity_def hosted_binding_def resolve_binding_def split: option.split\<close>)
qed

lemma hosted_name: "n \<in> set (hosted_protocol_names sv) \<longleftrightarrow> hosted_binding sv n \<noteq> None"
proof -
  have "find (\<lambda>p. hp_name p = n) (sv_extra_protocols sv) = None \<longleftrightarrow> n \<notin> hp_name ` set (sv_extra_protocols sv)"
    by (auto simp: find_None_iff)
  then show ?thesis
    by (cases "find (\<lambda>p. hp_name p = n) (sv_extra_protocols sv)"; cases "sv_identity sv")
      (simp_all add: hosted_protocol_names_def hosted_binding_def resolve_binding_def)
qed

lemma registered_route:
  assumes "register_names [] (application_names sv) = Done (Inr ())" "resolve_binding sv n = Some b"
  shows "route sv n = Done (Inr b)"
proof -
  have reserved: "validate_protocol_name IDENTITY_PROTOCOL_NAME True = Done (Inr ())"
    by (simp add: validate_protocol_name_def IDENTITY_PROTOCOL_NAME_def MAX_PROTOCOL_NAME_BYTES_def is_valid_name_def
        is_ascii_alphabetic_def is_ascii_digit_def digit_val_def)
  have "n \<in> set (application_names sv) \<or> n = IDENTITY_PROTOCOL_NAME"
    using resolve_binding_Some [OF assms(2)] by (auto simp: application_names_def)
  then have "validate_protocol_name n True = Done (Inr ())"
    using register_names_ok [OF assms(1)] reserved
    by (auto simp: validate_protocol_name_def Let_def split: if_split_asm)
  moreover have "n \<noteq> []"
    using calculation by (auto simp: validate_protocol_name_def)
  ultimately show ?thesis
    using assms(2) by (simp add: route_def ok_or_def)
qed

text \<open>A table whose methods all have describable schemas has a hash; that of reflection always does.\<close>

definition describable :: "(data_type \<Rightarrow> string) \<Rightarrow> arrow_field method_info \<Rightarrow> bool" where
  "describable dbg info = (\<forall>e. method_entry_of dbg (hash_method_of info) \<noteq> Inl e)"

lemma method_entries_ok: "(\<forall>m\<in>set ms. \<forall>e. method_entry_of dbg m \<noteq> Inl e) \<Longrightarrow> \<exists>es. method_entries dbg ms = Inr es"
proof (induction ms)
  case (Cons m ms)
  then obtain e es where "method_entry_of dbg m = Inr e" "method_entries dbg ms = Inr es"
    by (cases "method_entry_of dbg m") auto
  then show ?case by simp
qed simp

lemma table_hash_ok:
  assumes "list_all (describable (he_debug H)) (map snd methods)"
  shows "\<exists>h. table_hash H n methods = Inr h"
proof -
  have "\<forall>m\<in>set (sort_key hm_name (hash_methods methods)). \<forall>e. method_entry_of (he_debug H) m \<noteq> Inl e"
    using assms by (auto simp: hash_methods_def describable_def list_all_iff)
  then show ?thesis
    using method_entries_ok
    by (fastforce simp: table_hash_def binding_hash_def compute_protocol_hash_def canonical_description_def)
qed

lemma atom_tokens: "\<forall>f\<in>set fs. \<exists>t. af_data_type f = Atom t \<Longrightarrow> \<exists>ts. field_tokens dbg fs = Inr ts"
  by (induction fs) auto

lemma unary_describable:
  assumes "\<forall>f\<in>set ps. \<exists>t. af_data_type f = Atom t" "\<forall>f\<in>set rs. \<exists>t. af_data_type f = Atom t"
  shows "describable dbg (method_info_unary n ps rs)"
  using atom_tokens [OF assms(1), of dbg] atom_tokens [OF assms(2), of dbg]
  by (auto simp: describable_def method_entry_of_def hash_method_of_def method_info_unary_def tokens_if_def schema_tokens_def)

lemma reflection_describable: "list_all (describable dbg) (map snd reflection_methods)"
  by (simp add: reflection_methods_def describe_params_schema_def reflection_result_schema_def unary_describable)

section \<open>Properties\<close>


definition demo_echo :: "arrow_field method_info" where
  "demo_echo = method_info_unary ''echo'' [Field ''v'' (Atom Int64_T) False] [Field ''result'' (Atom Utf8_T) False]"

definition demo_hosting :: "arrow_field rpc_server" where
  "demo_hosting = \<lparr> sv_server_id = ''s'', sv_omit_tracebacks = False, sv_protocol_name = ''demo.Echo'',
     sv_protocol_version = ''1.2.0'', sv_methods = [(''echo'', demo_echo)],
     sv_extra_protocols = [\<lparr> hp_name = ''demo.More'', hp_version = [], hp_methods = [] \<rparr>],
     sv_identity = Some [] \<rparr>"

definition demo_hash_env :: hash_env where
  "demo_hash_env = \<lparr> he_crypto = demo_crypto, he_debug = \<lambda>_. [], he_to_text = put_json \<rparr>"

text \<open>Batches that are a schema and a row count.\<close>

definition demo_reflection :: "(schema \<times> nat) reflection_api" where
  "demo_reflection = \<lparr> ra_ipc_open = \<lambda>_. Inr [1], ra_ipc_write = \<lambda>b buf. Inr (buf @ [2]), ra_ipc_finish = \<lambda>buf. Inr (buf @ [3]),
     ra_protocol_list = \<lambda>_. Inr ([], 1), ra_service_description = \<lambda>_. Inr ([], 1),
     ra_result = \<lambda>_. Inr (reflection_result_schema, 1), ra_utf8_column = \<lambda>_ _. None \<rparr>"

lemma demo_hosting_registered: "register_names [] (application_names demo_hosting) = Done (Inr ())"
  by (simp add: demo_hosting_def application_names_def validate_protocol_name_def MAX_PROTOCOL_NAME_BYTES_def
      is_valid_name_def is_ascii_alphabetic_def RESERVED_PROTOCOL_PREFIX_def)

lemma demo_hosting_hashed: "\<exists>h. table_hash H (sv_protocol_name demo_hosting) (sv_methods demo_hosting) = Inr h"
  by (rule table_hash_ok) (simp add: demo_hosting_def demo_echo_def unary_describable)


end
