(* ===== verification/External.thy ===== *)
theory External
  imports Stream_Turn Http_Codec
begin

text \<open>
  External locations: \<^verbatim>\<open>vgi-rpc/src/external.rs\<close> and the pointer batches of \<^verbatim>\<open>external_ref.rs\<close>. The storage backend, the
  fetcher and the URL validator are what the deployment supplies, functions over a world \<open>'w\<close>; the URL parser
  and the zstd crate are records of functions. The bytes uploaded during a call are counted in a
  thread-local, which is an argument and a result here.
\<close>

section \<open>Strings\<close>

text \<open>\<^verbatim>\<open>str::replace\<close>: an empty pattern matches before every character and at the end.\<close>

definition is_continuation :: "char \<Rightarrow> bool" where
  "is_continuation c = (0x80 \<le> byte_of c \<and> byte_of c < 0xC0)"

function replace_matches :: "string \<Rightarrow> string \<Rightarrow> string \<Rightarrow> string" where
  "replace_matches pat to s =
     (if s = [] \<or> pat = [] then s
      else if prefix pat s then to @ replace_matches pat to (drop (length pat) s)
      else hd s # replace_matches pat to (tl s))"
  by pat_completeness auto
termination by (relation "measure (\<lambda>(_, _, s). length s)") auto

declare replace_matches.simps [simp del]

definition str_replace :: "string \<Rightarrow> string \<Rightarrow> string \<Rightarrow> string" where
  "str_replace pat to s =
     (if pat = [] then concat (map (\<lambda>c. (if is_continuation c then [] else to) @ [c]) s) @ to
      else replace_matches pat to s)"

section \<open>Addresses and validators\<close>

datatype ip_addr = V4 "8 word" "8 word" "8 word" "8 word" | V6 "16 word list"

datatype url_host = Host_Ipv4 "8 word" "8 word" "8 word" "8 word" | Host_Ipv6 "16 word list" | Host_Domain string

record parsed_url =
  pu_scheme :: string
  pu_host :: "url_host option"
  pu_port_or_known_default :: "nat option"

text \<open>The URL crate: parsing, and a parsed URL printed without credentials, query and fragment.\<close>

record url_api =
  ua_parse :: "string \<Rightarrow> string + parsed_url"
  ua_stripped :: "string \<Rightarrow> string option"

definition redact_external_url :: "url_api \<Rightarrow> string \<Rightarrow> string" where
  "redact_external_url U raw = (case ua_stripped U raw of None \<Rightarrow> ''<invalid external URL>'' | Some s \<Rightarrow> s)"

type_synonym 'w url_validator = "'w \<Rightarrow> string \<Rightarrow> unit rpc_result"

definition validate_external_url :: "url_api \<Rightarrow> 'w url_validator \<Rightarrow> 'w \<Rightarrow> string \<Rightarrow> unit rpc_result" where
  "validate_external_url U validator w raw =
     map_err (\<lambda>err. let redacted = redact_external_url U raw in
         err\<lparr> e_message := str_replace raw redacted (e_message err),
              e_traceback := str_replace raw redacted (e_traceback err) \<rparr>)
       (validator w raw)"

definition https_only_validator :: "'w url_validator" where
  "https_only_validator w url =
     (if prefix ''https://'' url then Inr () else Inl (value_error ''external location URL must be https://''))"

definition any_url_validator :: "'w url_validator" where
  "any_url_validator w url = Inr ()"

definition unsafe_v4 :: "8 word \<Rightarrow> 8 word \<Rightarrow> 8 word \<Rightarrow> 8 word \<Rightarrow> bool" where
  "unsafe_v4 a b c d =
     (a = 127
      \<or> (a = 10 \<or> a = 172 \<and> and b 0xf0 = 16 \<or> a = 192 \<and> b = 168)
      \<or> a = 169 \<and> b = 254
      \<or> a = 0 \<and> b = 0 \<and> c = 0 \<and> d = 0
      \<or> a = 255 \<and> b = 255 \<and> c = 255 \<and> d = 255
      \<or> 224 \<le> a \<and> a \<le> 239
      \<or> (a = 192 \<and> b = 0 \<and> c = 2 \<or> a = 198 \<and> b = 51 \<and> c = 100 \<or> a = 203 \<and> b = 0 \<and> c = 113)
      \<or> a = 100 \<and> and b 0xc0 = 0x40)"

text \<open>\<^verbatim>\<open>to_ipv4_mapped\<close> on the segments.\<close>

definition to_ipv4_mapped :: "16 word list \<Rightarrow> (8 word \<times> 8 word \<times> 8 word \<times> 8 word) option" where
  "to_ipv4_mapped segs =
     (if take 6 segs = [0, 0, 0, 0, 0, 0xffff] then
        Some (ucast (drop_bit 8 (segs ! 6)), ucast (segs ! 6), ucast (drop_bit 8 (segs ! 7)), ucast (segs ! 7))
      else None)"

definition unsafe_v6 :: "16 word list \<Rightarrow> bool" where
  "unsafe_v6 segs =
     (let seg0 = segs ! 0 in
      segs = [0, 0, 0, 0, 0, 0, 0, 1]
      \<or> segs = [0, 0, 0, 0, 0, 0, 0, 0]
      \<or> and seg0 0xff00 = 0xff00
      \<or> and seg0 0xfe00 = 0xfc00
      \<or> and seg0 0xffc0 = 0xfe80
      \<or> (case to_ipv4_mapped segs of Some (a, b, c, d) \<Rightarrow> unsafe_v4 a b c d | None \<Rightarrow> False))"

definition reject_unsafe_ip :: "ip_addr \<Rightarrow> unit rpc_result" where
  "reject_unsafe_ip ip =
     (if (case ip of V4 a b c d \<Rightarrow> unsafe_v4 a b c d | V6 segs \<Rightarrow> unsafe_v6 segs) then
        Inl (value_error ''external location host resolves to a non-routable / internal address'')
      else Inr ())"

fun reject_unsafe_ips :: "ip_addr list \<Rightarrow> unit rpc_result" where
  "reject_unsafe_ips [] = Inr ()"
| "reject_unsafe_ips (ip # ips) = and_then (reject_unsafe_ip ip) (\<lambda>_. reject_unsafe_ips ips)"

text \<open>\<open>lookup\<close> is the resolver of the host: the addresses of a name at this moment, or its failure.\<close>

definition safe_https_validator :: "url_api \<Rightarrow> ('w \<Rightarrow> string \<Rightarrow> nat \<Rightarrow> string + ip_addr list) \<Rightarrow> 'w url_validator" where
  "safe_https_validator U lookup w raw =
     and_then (map_err (\<lambda>e. value_error (''invalid external location URL: '' @ e)) (ua_parse U raw)) (\<lambda>url.
     if pu_scheme url \<noteq> ''https'' then Inl (value_error ''external location URL must be https://'')
     else and_then (ok_or (value_error ''external location URL has no host'') (pu_host url)) (\<lambda>host.
       case host of
         Host_Ipv4 a b c d \<Rightarrow> reject_unsafe_ip (V4 a b c d)
       | Host_Ipv6 segs \<Rightarrow> reject_unsafe_ip (V6 segs)
       | Host_Domain name \<Rightarrow>
           let lname = to_ascii_lowercase name in
           if lname = ''localhost'' \<or> suffix ''.localhost'' lname then
             Inl (value_error ''external location host is not publicly routable'')
           else
             let port = (case pu_port_or_known_default url of Some p \<Rightarrow> p | None \<Rightarrow> 443) in
             and_then (map_err (\<lambda>e. value_error (''external location host does not resolve: '' @ e))
                 (lookup w name port)) (\<lambda>addrs.
             and_then (reject_unsafe_ips addrs) (\<lambda>_.
             if addrs = [] then Inl (value_error ''external location host does not resolve'') else Inr ()))))"

section \<open>Payloads\<close>

datatype compression = No_Compression | Zstd_Level int

text \<open>The bulk compressor: made for a level, told to record the content size, and run.\<close>

record zstd_bulk =
  zb_new :: "int \<Rightarrow> string + unit"
  zb_content_size :: "string + unit"
  zb_compress :: "int \<Rightarrow> bytes \<Rightarrow> string + bytes"

definition compress_payload :: "zstd_bulk \<Rightarrow> bytes \<Rightarrow> compression \<Rightarrow> bytes rpc_result" where
  "compress_payload Z ipc_bytes codec =
     (case codec of
        No_Compression \<Rightarrow> Inr ipc_bytes
      | Zstd_Level level \<Rightarrow>
          and_then (map_err (\<lambda>e. runtime_error (''zstd encoder: '' @ e)) (zb_new Z level)) (\<lambda>_.
          and_then (map_err (\<lambda>e. runtime_error (''zstd contentsize: '' @ e)) (zb_content_size Z)) (\<lambda>_.
          map_err (\<lambda>e. runtime_error (''zstd encode: '' @ e)) (zb_compress Z level ipc_bytes))))"

fun decode_capped :: "nat \<Rightarrow> bytes \<Rightarrow> bytes list \<Rightarrow> string option \<Rightarrow> bytes rpc_result" where
  "decode_capped max_size out [] failed =
     (case failed of
        None \<Rightarrow> Inr out
      | Some e \<Rightarrow> Inl (runtime_error (''zstd decode: '' @ e)))"
| "decode_capped max_size out (chunk # chunks) failed =
     (if max_size < length out + length chunk then
        Inl (runtime_error (''zstd decode: output exceeds max_decompressed_bytes='' @ show_nat max_size))
      else decode_capped max_size (out @ chunk) chunks failed)"

definition decompress_payload :: "coding_api \<Rightarrow> bytes \<Rightarrow> compression \<Rightarrow> nat \<Rightarrow> bytes rpc_result" where
  "decompress_payload C bs codec max_size =
     (case codec of
        No_Compression \<Rightarrow>
          if max_size < length bs then
            Inl (runtime_error (''external payload '' @ show_nat (length bs) @ '' bytes exceeds max_decompressed_bytes=''
              @ show_nat max_size))
          else Inr bs
      | Zstd_Level _ \<Rightarrow>
          and_then (map_err (\<lambda>e. runtime_error (''zstd decode: '' @ e)) (zs_open C bs)) (\<lambda>_.
          and_then (map_err (\<lambda>e. runtime_error (''zstd window limit: '' @ e))
            (zs_window_log_max C (zstd_window_log_for_limit max_size))) (\<lambda>_.
          let (chunks, failed) = zs_reads C bs (zstd_window_log_for_limit max_size) in
          decode_capped max_size [] chunks failed)))"

definition sha256_hex :: "token_crypto \<Rightarrow> bytes \<Rightarrow> string" where
  "sha256_hex T bs = bytes_to_hex (tc_sha256 T bs)"

section \<open>Configuration\<close>

record 'w external_config =
  ec_threshold_bytes :: nat
  ec_compression :: compression
  ec_upload :: "bytes \<Rightarrow> compression \<Rightarrow> 'w \<Rightarrow> string rpc_result \<times> 'w"
  ec_fetch_with_policy ::
    "'w url_validator \<Rightarrow> string \<Rightarrow> compression \<Rightarrow> nat \<Rightarrow> nat \<Rightarrow> 'w \<Rightarrow> (bytes \<times> compression) rpc_result \<times> 'w"
  ec_url_validator :: "'w url_validator"
  ec_max_decompressed_bytes :: nat
  ec_max_encoded_bytes :: nat
  ec_max_redirects :: nat

definition external_config_new ::
  "'w url_validator \<Rightarrow> (bytes \<Rightarrow> compression \<Rightarrow> 'w \<Rightarrow> string rpc_result \<times> 'w)
   \<Rightarrow> ('w url_validator \<Rightarrow> string \<Rightarrow> compression \<Rightarrow> nat \<Rightarrow> nat \<Rightarrow> 'w \<Rightarrow> (bytes \<times> compression) rpc_result \<times> 'w)
   \<Rightarrow> 'w external_config" where
  "external_config_new safe_validator storage fetcher =
     \<lparr> ec_threshold_bytes = 1024 * 1024, ec_compression = No_Compression, ec_upload = storage,
       ec_fetch_with_policy = fetcher, ec_url_validator = safe_validator,
       ec_max_decompressed_bytes = 1024 * 1024 * 1024, ec_max_encoded_bytes = 1024 * 1024 * 1024, ec_max_redirects = 5 \<rparr>"

text \<open>The default \<^verbatim>\<open>fetch_with_policy\<close> of a fetcher that follows no redirects.\<close>

definition default_fetch_with_policy ::
  "url_api \<Rightarrow> (string \<Rightarrow> compression \<Rightarrow> nat \<Rightarrow> 'w \<Rightarrow> bytes rpc_result \<times> 'w)
   \<Rightarrow> 'w url_validator \<Rightarrow> string \<Rightarrow> compression \<Rightarrow> nat \<Rightarrow> nat \<Rightarrow> 'w \<Rightarrow> (bytes \<times> compression) rpc_result \<times> 'w" where
  "default_fetch_with_policy U fetch validator url codec max_bytes max_redirects w =
     (case validate_external_url U validator w url of
        Inl e \<Rightarrow> (Inl e, w)
      | Inr _ \<Rightarrow> (case fetch url codec max_bytes w of (r, w') \<Rightarrow> (and_then r (\<lambda>bs. Inr (bs, codec)), w')))"

text \<open>Everything of the Arrow, cryptography, zstd and URL crates.\<close>

record ('s, 'b, 'd, 't) external_api =
  xa_arrow :: "('s, 'b, 'd) arrow_api"
  xa_shm :: "('s, 'b) shm_api"
  xa_writer :: "('s, 'b, 't) arrow_writer_api"
  xa_crypto :: token_crypto
  xa_codings :: coding_api
  xa_zstd :: zstd_bulk
  xa_url :: url_api

section \<open>Counting uploads\<close>

text \<open>A scope replaces the counter by zero and keeps what the enclosing one had; its end gives the count back.\<close>

definition externalized_scope_new :: "nat \<Rightarrow> nat \<times> nat" where
  "externalized_scope_new counter = (counter, 0)"

definition externalized_scope_finish :: "nat \<Rightarrow> nat \<Rightarrow> nat \<times> nat" where
  "externalized_scope_finish outer counter = (counter, outer)"

definition upload_payload ::
  "(bytes \<Rightarrow> compression \<Rightarrow> 'w \<Rightarrow> string rpc_result \<times> 'w) \<Rightarrow> bytes \<Rightarrow> compression \<Rightarrow> nat \<times> 'w
   \<Rightarrow> string rpc_result \<times> nat \<times> 'w" where
  "upload_payload storage payload codec cw =
     (case storage payload codec (snd cw) of (r, w) \<Rightarrow> (r, fst cw + length payload, w))"

section \<open>Externalizing\<close>

record encoded_payload =
  ep_raw_len :: nat
  ep_sha :: string
  ep_payload :: bytes

record 'b prepared_external =
  px_encoded :: encoded_payload
  px_ptr :: 'b
  px_md :: metadata

definition LOCATION_FETCH_MS_KEY :: string where "LOCATION_FETCH_MS_KEY = ''vgi_rpc.location.fetch_ms''"
definition LOCATION_SOURCE_KEY :: string where "LOCATION_SOURCE_KEY = ''vgi_rpc.location.source''"

definition is_location_key :: "string \<Rightarrow> bool" where
  "is_location_key k = (k = LOCATION_KEY \<or> k = LOCATION_SHA256_KEY \<or> k = LOCATION_FETCH_MS_KEY \<or> k = LOCATION_SOURCE_KEY)"

definition encode_payload :: "('s, 'b, 'd, 't) external_api \<Rightarrow> bytes \<Rightarrow> compression \<Rightarrow> encoded_payload rpc_result" where
  "encode_payload X ipc_bytes codec =
     and_then (compress_payload (xa_zstd X) ipc_bytes codec) (\<lambda>payload.
     Inr \<lparr> ep_raw_len = length ipc_bytes, ep_sha = sha256_hex (xa_crypto X) ipc_bytes, ep_payload = payload \<rparr>)"

definition cap_bytes :: "'b prepared_external \<Rightarrow> nat" where
  "cap_bytes p = ep_raw_len (px_encoded p)"

definition prepare_externalize_batch_inner ::
  "('s, 'b, 'd, 't) external_api \<Rightarrow> 'b \<Rightarrow> 's \<Rightarrow> metadata option \<Rightarrow> 'w external_config \<Rightarrow> bool
   \<Rightarrow> 'b prepared_external option rpc_result" where
  "prepare_externalize_batch_inner X b declared_schema inline_metadata cfg force =
     (if sa_num_rows (xa_shm X) b = 0 then Inr None
      else
        let md = filter (\<lambda>(k, _). \<not> is_location_key k) (case inline_metadata of None \<Rightarrow> [] | Some m \<Rightarrow> m) in
        and_then (write_one_batch_as (xa_writer X) b declared_schema (if md = [] then None else Some md)) (\<lambda>ipc_bytes.
        if \<not> force \<and> length ipc_bytes < ec_threshold_bytes cfg then Inr None
        else
          and_then (encode_payload X ipc_bytes (ec_compression cfg)) (\<lambda>encoded.
          and_then (empty_batch (xa_shm X) declared_schema) (\<lambda>ptr.
          Inr (Some \<lparr> px_encoded = encoded, px_ptr = ptr, px_md = md \<rparr>)))))"

definition prepare_externalize_batch ::
  "('s, 'b, 'd, 't) external_api \<Rightarrow> 'b \<Rightarrow> 's \<Rightarrow> metadata option \<Rightarrow> 'w external_config
   \<Rightarrow> 'b prepared_external option rpc_result" where
  "prepare_externalize_batch X b schema md cfg = prepare_externalize_batch_inner X b schema md cfg False"

definition prepare_externalize_batch_forced ::
  "('s, 'b, 'd, 't) external_api \<Rightarrow> 'b \<Rightarrow> 's \<Rightarrow> metadata option \<Rightarrow> 'w external_config
   \<Rightarrow> 'b prepared_external option rpc_result" where
  "prepare_externalize_batch_forced X b schema md cfg = prepare_externalize_batch_inner X b schema md cfg True"

definition upload_prepared ::
  "('s, 'b, 'd, 't) external_api \<Rightarrow> 'b prepared_external \<Rightarrow> 'w external_config \<Rightarrow> nat \<times> 'w
   \<Rightarrow> ('b \<times> metadata) rpc_result \<times> nat \<times> 'w" where
  "upload_prepared X p cfg cw =
     (case upload_payload (ec_upload cfg) (ep_payload (px_encoded p)) (ec_compression cfg) cw of
        (Inl e, cw) \<Rightarrow> (Inl e, cw)
      | (Inr url, cw) \<Rightarrow>
          (case validate_external_url (xa_url X) (ec_url_validator cfg) (snd cw) url of
             Inl e \<Rightarrow> (Inl e, cw)
           | Inr _ \<Rightarrow>
               (Inr (px_ptr p, md_insert LOCATION_SHA256_KEY (ep_sha (px_encoded p)) (md_insert LOCATION_KEY url (px_md p))), cw)))"

definition maybe_externalize_batch ::
  "('s, 'b, 'd, 't) external_api \<Rightarrow> 'b \<Rightarrow> 's \<Rightarrow> metadata option \<Rightarrow> 'w external_config \<Rightarrow> nat \<times> 'w
   \<Rightarrow> ('b \<times> metadata) option rpc_result \<times> nat \<times> 'w" where
  "maybe_externalize_batch X b declared_schema inline_metadata cfg cw =
     (case prepare_externalize_batch X b declared_schema inline_metadata cfg of
        Inl e \<Rightarrow> (Inl e, cw)
      | Inr None \<Rightarrow> (Inr None, cw)
      | Inr (Some p) \<Rightarrow> (case upload_prepared X p cfg cw of (r, cw) \<Rightarrow> (and_then r (\<lambda>x. Inr (Some x)), cw)))"

section \<open>References published ahead\<close>

definition external_ref_new :: "string \<Rightarrow> string option \<Rightarrow> external_ref rpc_result" where
  "external_ref_new url sha =
     (if url = [] then Inl (value_error ''ExternalRef.url must be non-empty'')
      else case sha of
        None \<Rightarrow> Inr \<lparr> xr_url = url, xr_sha256 = None \<rparr>
      | Some digest \<Rightarrow>
          if length digest = 64 \<and> list_all (\<lambda>c. is_ascii_digit c \<or> c \<in> set ''abcdef'') digest
          then Inr \<lparr> xr_url = url, xr_sha256 = Some digest \<rparr>
          else Inl (value_error ''ExternalRef.sha256 must be 64 lowercase hex characters (or None)''))"

definition pointer_batch :: "('s, 'b) shm_api \<Rightarrow> external_ref \<Rightarrow> 's \<Rightarrow> ('b \<times> metadata) rpc_result" where
  "pointer_batch S r schema =
     and_then (empty_batch S schema) (\<lambda>b.
     let md = md_insert LOCATION_KEY (xr_url r) [] in
     Inr (b, case xr_sha256 r of None \<Rightarrow> md | Some digest \<Rightarrow> md_insert LOCATION_SHA256_KEY digest md))"

definition serialize_batch_to_ipc :: "('s, 'b, 'd, 't) external_api \<Rightarrow> 'b \<Rightarrow> bytes rpc_result" where
  "serialize_batch_to_ipc X b = write_one_batch_as (xa_writer X) b (sa_schema (xa_shm X) b) None"

definition publish_external ::
  "('s, 'b, 'd, 't) external_api \<Rightarrow> 'b \<Rightarrow> (bytes \<Rightarrow> compression \<Rightarrow> 'w \<Rightarrow> string rpc_result \<times> 'w) \<Rightarrow> compression
   \<Rightarrow> bool \<Rightarrow> nat \<times> 'w \<Rightarrow> external_ref rpc_result \<times> nat \<times> 'w" where
  "publish_external X b storage codec include_sha256 cw =
     (if sa_num_rows (xa_shm X) b \<noteq> 1 then
        (Inl (value_error (''publish_external expects a 1-row result batch, got ''
           @ show_nat (sa_num_rows (xa_shm X) b) @ '' rows'')), cw)
      else case and_then (serialize_batch_to_ipc X b) (\<lambda>ipc. encode_payload X ipc codec) of
        Inl e \<Rightarrow> (Inl e, cw)
      | Inr encoded \<Rightarrow>
          (case upload_payload storage (ep_payload encoded) codec cw of
             (Inl e, cw) \<Rightarrow> (Inl e, cw)
           | (Inr url, cw) \<Rightarrow> (external_ref_new url (if include_sha256 then Some (ep_sha encoded) else None), cw)))"

section \<open>Resolving\<close>

text \<open>Reading may run forever on a parser that reports errors without end, which is the value \<^term>\<open>None\<close>.\<close>

definition deserialize_single_batch_with_metadata ::
  "('s, 'b, 'd) arrow_api \<Rightarrow> bytes \<Rightarrow> ('b \<times> metadata) rpc_result option" where
  "deserialize_single_batch_with_metadata A ipc_bytes =
     (case stream_reader_new A [Chunk ipc_bytes] of
        None \<Rightarrow> None
      | Some (Inl e) \<Rightarrow> Some (Inl e)
      | Some (Inr s) \<Rightarrow>
          map_option (\<lambda>(r, _). and_then r (ok_or (runtime_error ''external batch stream is empty''))) (read_next A s))"

definition deserialize_single_batch :: "('s, 'b, 'd) arrow_api \<Rightarrow> bytes \<Rightarrow> 'b rpc_result option" where
  "deserialize_single_batch A ipc_bytes =
     map_option (\<lambda>r. and_then r (\<lambda>(b, _). Inr b)) (deserialize_single_batch_with_metadata A ipc_bytes)"

definition checked_payload ::
  "('s, 'b, 'd, 't) external_api \<Rightarrow> metadata \<Rightarrow> 'w external_config \<Rightarrow> bytes \<times> compression \<Rightarrow> bytes rpc_result" where
  "checked_payload X md cfg fetched =
     and_then (decompress_payload (xa_codings X) (fst fetched) (snd fetched) (ec_max_decompressed_bytes cfg)) (\<lambda>ipc_bytes.
     case md_get md LOCATION_SHA256_KEY of
       None \<Rightarrow> Inr ipc_bytes
     | Some expected \<Rightarrow>
         let actual = sha256_hex (xa_crypto X) ipc_bytes in
         if expected \<noteq> actual then
           Inl (runtime_error (''external location checksum: SHA-256 mismatch (expected '' @ expected @ '', got '' @ actual @ '')''))
         else Inr ipc_bytes)"

definition fetch_external_ipc_bytes ::
  "('s, 'b, 'd, 't) external_api \<Rightarrow> metadata \<Rightarrow> 'w external_config \<Rightarrow> 'w \<Rightarrow> bytes option rpc_result \<times> 'w" where
  "fetch_external_ipc_bytes X md cfg w =
     (case md_get md LOCATION_KEY of
        None \<Rightarrow> (Inr None, w)
      | Some url \<Rightarrow>
          (case ec_fetch_with_policy cfg (ec_url_validator cfg) url (ec_compression cfg) (ec_max_encoded_bytes cfg)
                  (ec_max_redirects cfg) w of
             (r, w) \<Rightarrow> (and_then r (\<lambda>fetched. and_then (checked_payload X md cfg fetched) (\<lambda>bs. Inr (Some bs))), w)))"

text \<open>\<open>fetch_ms\<close> is the measured time, printed with two decimals.\<close>

definition resolved_metadata :: "metadata \<Rightarrow> metadata \<Rightarrow> string \<Rightarrow> string \<Rightarrow> metadata" where
  "resolved_metadata pointer_md inner_md url fetch_ms =
     (let user_md = filter (\<lambda>(k, _). \<not> is_location_key k) pointer_md;
          user_md = fold (\<lambda>(k, v) acc. if is_location_key k then acc else md_insert k v acc) inner_md user_md
      in md_insert LOCATION_SOURCE_KEY url (md_insert LOCATION_FETCH_MS_KEY fetch_ms user_md))"

definition resolve_external_location ::
  "('s, 'b, 'd, 't) external_api \<Rightarrow> string \<Rightarrow> 'b \<Rightarrow> metadata \<Rightarrow> 'w external_config \<Rightarrow> 'w
   \<Rightarrow> (('b \<times> metadata) rpc_result \<times> 'w) option" where
  "resolve_external_location X fetch_ms b md cfg w =
     (case md_get md LOCATION_KEY of
        None \<Rightarrow> Some (Inr (b, md), w)
      | Some url \<Rightarrow>
          (case ec_fetch_with_policy cfg (ec_url_validator cfg) url (ec_compression cfg) (ec_max_encoded_bytes cfg)
                  (ec_max_redirects cfg) w of
             (Inl e, w) \<Rightarrow> Some (Inl e, w)
           | (Inr fetched, w) \<Rightarrow>
               (case checked_payload X md cfg fetched of
                  Inl e \<Rightarrow> Some (Inl e, w)
                | Inr ipc_bytes \<Rightarrow>
                    map_option (\<lambda>r. (and_then r (\<lambda>(resolved, inner_md).
                        Inr (resolved, resolved_metadata md inner_md url fetch_ms)), w))
                      (deserialize_single_batch_with_metadata (xa_arrow X) ipc_bytes))))"

section \<open>One batch through a stream\<close>

text \<open>
  What the Arrow crates are relied on for a batch with metadata that does not take the direct path: the
  encoder makes a schema message and a batch message, framed as the format prescribes, and no dictionaries;
  the decoder gives the batch and the metadata back.
\<close>

definition packed_message ::
  "('s, 'b, 't) arrow_writer_api \<Rightarrow> encoded_data \<Rightarrow> metadata option \<Rightarrow> bytes rpc_result" where
  "packed_message W data md =
     (case md of
        None \<Rightarrow> Inr (ed_ipc_message data)
      | Some m \<Rightarrow> if m = [] then Inr (ed_ipc_message data) else repack_record_batch_message_with_metadata W (ed_ipc_message data) m)"

definition encodes_with ::
  "('s, 'b, 't) arrow_writer_api \<Rightarrow> 'b \<Rightarrow> 's \<Rightarrow> metadata option \<Rightarrow> bytes \<times> bytes \<Rightarrow> bytes \<times> bytes \<Rightarrow> bool" where
  "encodes_with W b schema md sf bf =
     (aw_num_columns W b \<noteq> 1
      \<and> (\<exists>senc data msg tr tr' m n.
           aw_schema_to_bytes W schema (aw_new_tracker W) = (senc, tr) \<and> writes_encapsulated W senc m
           \<and> aw_encode W b tr = (Inr ([], data), tr') \<and> packed_message W data md = Inr msg
           \<and> writes_encapsulated W (data\<lparr> ed_ipc_message := msg \<rparr>) n
           \<and> sf = (ed_ipc_message senc @ replicate m 0, ed_arrow_data senc)
           \<and> bf = (msg @ replicate n 0, ed_arrow_data data)))"

definition decodes_with ::
  "('s, 'b, 'd) arrow_api \<Rightarrow> bytes \<times> bytes \<Rightarrow> bytes \<times> bytes \<Rightarrow> 'b \<Rightarrow> metadata \<Rightarrow> bool" where
  "decodes_with A sf bf b md =
     (frame_ok (root_as_message A) MAX_IPC_SCHEMA_BYTES sf
      \<and> frame_ok (root_as_message A) MAX_IPC_MESSAGE_BYTES bf
      \<and> (\<exists>sm schema bm rb. root_as_message A (fst sf) = Inr sm \<and> fb_header_type sm = HT_Schema
           \<and> fb_schema_fields sm = Some True \<and> fb_to_schema A sm = Done schema
           \<and> root_as_message A (fst bf) = Inr bm \<and> fb_header_type bm = HT_Record_Batch
           \<and> fb_record_batch bm = Some rb
           \<and> validate_record_batch_buffers rb (length (snd bf)) = Inr ()
           \<and> read_record_batch A (snd bf) bm schema (no_dictionaries A) = Done (Inr b)
           \<and> (\<forall>k. md_get (parse_custom_metadata bm) k = md_get md k)))"

lemma stream_write_out:
  assumes "stream_write W b md sw = (Inr (), sw')" "aw_num_columns W b \<noteq> 1" "\<not> sw_finished sw"
    and "aw_encode W b (sw_tracker sw) = (Inr ([], data), tr')" "packed_message W data md = Inr msg"
    and "writes_encapsulated W (data\<lparr> ed_ipc_message := msg \<rparr>) n"
  shows "out_of sw' = out_of sw @ encapsulate (msg @ replicate n 0) (ed_arrow_data data)" "\<not> sw_finished sw'"
proof -
  have p: "(case md of None \<Rightarrow> Inr (ed_ipc_message data) | Some m \<Rightarrow> if m = [] then Inr (ed_ipc_message data)
      else repack_record_batch_message_with_metadata W (ed_ipc_message data) m) = Inr msg"
    using assms(5) by (simp add: packed_message_def)
  then obtain cw where w: "write_message W (data\<lparr> ed_ipc_message := msg \<rparr>) (sw_writer sw) = (Inr (), cw)"
      "sw' = sw\<lparr> sw_writer := cw, sw_tracker := tr' \<rparr>"
    using assms(1-4) by (auto simp: stream_write_def write_single_large_binary_direct_def Let_def split: prod.splits)
  then show "out_of sw' = out_of sw @ encapsulate (msg @ replicate n 0) (ed_arrow_data data)"
    using write_message_out [OF assms(6) w(1)] by (simp add: out_of_def)
  show "\<not> sw_finished sw'"
    using w(2) assms(3) by simp
qed

lemma written_one:
  assumes "encodes_with W b schema md sf bf" "write_one_batch_as W b schema md = Inr out"
  shows "out = encapsulate (fst sf) (snd sf) @ encapsulate (fst bf) (snd bf) @ eos_marker"
proof -
  obtain senc data msg tr tr' m n where enc: "aw_num_columns W b \<noteq> 1"
    "aw_schema_to_bytes W schema (aw_new_tracker W) = (senc, tr)" "writes_encapsulated W senc m"
    "aw_encode W b tr = (Inr ([], data), tr')" "packed_message W data md = Inr msg"
    "writes_encapsulated W (data\<lparr> ed_ipc_message := msg \<rparr>) n"
    "sf = (ed_ipc_message senc @ replicate m 0, ed_arrow_data senc)" "bf = (msg @ replicate n 0, ed_arrow_data data)"
    using assms(1) by (auto simp: encodes_with_def)
  let ?w = "\<lparr> w_script = [], w_out = [], w_calls = [], w_flushes = [], w_room = None \<rparr>"
  obtain sw sw1 sw2 where s: "fst (stream_writer_new W ?w schema) = Inr sw" "stream_write W b md sw = (Inr (), sw1)"
    "stream_finish sw1 = (Inr (), sw2)" "out = out_of sw2"
    using assms(2) by (auto simp: write_one_batch_as_def split: sum.splits prod.splits)
  have new: "write_message W senc (chunked_new ?w) = (Inr (), sw_writer sw)" "sw_tracker sw = tr" "\<not> sw_finished sw"
    using s(1) enc(2) by (auto simp: stream_writer_new_def split: prod.splits sum.splits)
  then have "out_of sw = encapsulate (fst sf) (snd sf)"
    using write_message_out [OF enc(3) new(1)] enc(7) by (simp add: out_of_def chunked_new_def)
  moreover note stream_write_out [OF s(2) enc(1) new(3) _ enc(5,6)] finish_out(1) [OF s(3)]
  ultimately show ?thesis
    using enc(4,8) new(2) s(4) by simp
qed

lemma distinct_md_insert [simp]: "distinct (map fst md) \<Longrightarrow> distinct (map fst (md_insert k v md))"
  by (induction md) (auto simp: md_insert_def dom_update)

lemma distinct_parsed: "distinct (map fst (parse_custom_metadata m))"
proof -
  have "distinct (map fst acc) \<Longrightarrow> distinct (map fst (fold (\<lambda>(k, v) md. md_insert (or_empty k) (or_empty v) md) kvs acc))" for kvs acc
    by (induction kvs arbitrary: acc) auto
  then show ?thesis
    by (simp add: parse_custom_metadata_def split: option.split)
qed

lemma read_one:
  assumes "decodes_with A sf bf b md"
    and "ipc = encapsulate (fst sf) (snd sf) @ encapsulate (fst bf) (snd bf) @ eos_marker"
  shows "\<exists>md'. deserialize_single_batch_with_metadata A ipc = Some (Inr (b, md')) \<and> (\<forall>k. md_get md' k = md_get md k)
    \<and> distinct (map fst md')"
proof -
  obtain sm schema bm rb where d: "root_as_message A (fst sf) = Inr sm" "fb_header_type sm = HT_Schema"
    "fb_schema_fields sm = Some True" "fb_to_schema A sm = Done schema"
    "root_as_message A (fst bf) = Inr bm" "fb_header_type bm = HT_Record_Batch" "fb_record_batch bm = Some rb"
    "validate_record_batch_buffers rb (length (snd bf)) = Inr ()"
    "read_record_batch A (snd bf) bm schema (no_dictionaries A) = Done (Inr b)"
    "\<forall>k. md_get (parse_custom_metadata bm) k = md_get md k"
    and f: "frame_ok (root_as_message A) MAX_IPC_SCHEMA_BYTES (fst sf, snd sf)"
    "frame_ok (root_as_message A) MAX_IPC_MESSAGE_BYTES (fst bf, snd bf)"
    using assms(1) by (auto simp: decodes_with_def)
  have c: "clean [Chunk ipc]" "content [Chunk ipc] = ipc"
    using assms(2) by (simp_all add: encapsulate_def)
  obtain r1 where r1: "read_message_bytes (root_as_message A) [Chunk ipc] MAX_IPC_SCHEMA_BYTES
      = Some (Inr (Some (Message (raw_of (fst sf, snd sf)))), r1)"
    "content r1 = encapsulate (fst bf) (snd bf) @ eos_marker" "clean r1"
    using read_encapsulated [OF c(1) _ f(1)] c(2) assms(2) by fastforce
  obtain r2 where r2: "read_message_bytes (root_as_message A) r1 MAX_IPC_MESSAGE_BYTES
      = Some (Inr (Some (Message (raw_of (fst bf, snd bf)))), r2)"
    using read_encapsulated [OF r1(3,2) f(2)] by blast
  let ?s = "\<lparr> sr_reader = r1, sr_schema = schema, sr_dictionaries = no_dictionaries A, sr_finished = False,
    sr_saw_eos = False, sr_relaxed_schema = None \<rparr>"
  have "stream_reader_new A [Chunk ipc] = Some (Inr ?s)"
    using r1(1) d(1-4) by (simp add: stream_reader_new_def raw_of_def decode_guard_def ok_or_def)
  moreover have "read_next A ?s = Some (Inr (Some (b, parse_custom_metadata bm)), ?s\<lparr> sr_reader := r2 \<rparr>)"
    using r2 d(5-9)
    by (simp add: read_next.simps message_step_def raw_of_def decode_guard_def ok_or_def decode_schema_def Let_def)
  ultimately show ?thesis
    using d(10) distinct_parsed [of bm] by (simp add: deserialize_single_batch_with_metadata_def ok_or_def)
qed

section \<open>Metadata and payload come back\<close>

lemma md_get_filter: "md_get (filter (\<lambda>(k, _). \<not> is_location_key k) md) k = (if is_location_key k then None else md_get md k)"
  by (induction md) (auto simp: md_get_Cons split: if_split_asm)

lemma md_get_merge:
  assumes "distinct (map fst inner)"
  shows "md_get (fold (\<lambda>(k, v) acc. if is_location_key k then acc else md_insert k v acc) inner acc) k =
    (if is_location_key k then md_get acc k else case md_get inner k of None \<Rightarrow> md_get acc k | Some v \<Rightarrow> Some v)"
  using assms
proof (induction inner arbitrary: acc)
  case (Cons kv inner)
  then have "md_get inner (fst kv) = None"
    by (simp add: md_get_def map_of_eq_None_iff)
  then show ?case
    using Cons by (cases kv) (auto simp: md_get_Cons split: option.split)
qed simp

text \<open>
  The codec that is configured gives back what it compressed, as one run of the streaming decoder; the storage
  gives back what was uploaded while it is small enough to be fetched.
\<close>

definition zstd_restores :: "('s, 'b, 'd, 't) external_api \<Rightarrow> 'w external_config \<Rightarrow> bool" where
  "zstd_restores X cfg =
     (\<forall>level bs z. ec_compression cfg = Zstd_Level level \<longrightarrow> zb_compress (xa_zstd X) level bs = Inr z \<longrightarrow>
        length bs \<le> ec_max_decompressed_bytes cfg \<longrightarrow>
        (let lg = zstd_window_log_for_limit (ec_max_decompressed_bytes cfg) in
         zs_open (xa_codings X) z = Inr () \<and> zs_window_log_max (xa_codings X) lg = Inr ()
         \<and> (\<exists>chunks. zs_reads (xa_codings X) z lg = (chunks, None) \<and> concat chunks = bs)))"

definition storage_keeps :: "'w external_config \<Rightarrow> bool" where
  "storage_keeps cfg =
     (\<forall>payload w url w'. length payload \<le> ec_max_encoded_bytes cfg \<longrightarrow>
        ec_upload cfg payload (ec_compression cfg) w = (Inr url, w') \<longrightarrow>
        fst (ec_fetch_with_policy cfg (ec_url_validator cfg) url (ec_compression cfg) (ec_max_encoded_bytes cfg)
          (ec_max_redirects cfg) w') = Inr (payload, ec_compression cfg))"

lemma decode_capped_all: "length out + length (concat chunks) \<le> n \<Longrightarrow> decode_capped n out chunks None = Inr (out @ concat chunks)"
  by (induction chunks arbitrary: out) auto

lemma decompress_compressed:
  assumes "zstd_restores X cfg" "compress_payload (xa_zstd X) bs (ec_compression cfg) = Inr z"
    and "length bs \<le> ec_max_decompressed_bytes cfg"
  shows "decompress_payload (xa_codings X) z (ec_compression cfg) (ec_max_decompressed_bytes cfg) = Inr bs"
proof (cases "ec_compression cfg")
  case No_Compression
  then show ?thesis using assms(2,3) by (simp add: compress_payload_def decompress_payload_def)
next
  case (Zstd_Level level)
  let ?lg = "zstd_window_log_for_limit (ec_max_decompressed_bytes cfg)"
  have "zb_compress (xa_zstd X) level bs = Inr z"
    using assms(2) Zstd_Level by (auto simp: compress_payload_def result_simps)
  then obtain chunks where "zs_open (xa_codings X) z = Inr ()" "zs_window_log_max (xa_codings X) ?lg = Inr ()"
    "zs_reads (xa_codings X) z ?lg = (chunks, None)" "concat chunks = bs"
    using assms(1,3) Zstd_Level unfolding zstd_restores_def Let_def by blast
  then show ?thesis
    using Zstd_Level assms(3) decode_capped_all [of "[]" chunks] by (simp add: decompress_payload_def)
qed

lemma externalized_parts:
  assumes "maybe_externalize_batch X b schema md0 cfg cw = (Inr (Some (ptr, pmd)), cw')"
  defines "md \<equiv> filter (\<lambda>(k, _). \<not> is_location_key k) (case md0 of None \<Rightarrow> [] | Some m \<Rightarrow> m)"
  obtains ipc payload url where
    "write_one_batch_as (xa_writer X) b schema (if md = [] then None else Some md) = Inr ipc"
    "ec_threshold_bytes cfg \<le> length ipc" "compress_payload (xa_zstd X) ipc (ec_compression cfg) = Inr payload"
    "ec_upload cfg payload (ec_compression cfg) (snd cw) = (Inr url, snd cw')" "fst cw' = fst cw + length payload"
    "pmd = md_insert LOCATION_SHA256_KEY (sha256_hex (xa_crypto X) ipc) (md_insert LOCATION_KEY url md)"
    "prepare_externalize_batch X b schema md0 cfg = Inr (Some \<lparr> px_encoded = \<lparr> ep_raw_len = length ipc,
       ep_sha = sha256_hex (xa_crypto X) ipc, ep_payload = payload \<rparr>, px_ptr = ptr, px_md = md \<rparr>)"
proof -
  obtain p where p: "prepare_externalize_batch X b schema md0 cfg = Inr (Some p)"
    "upload_prepared X p cfg cw = (Inr (ptr, pmd), cw')"
    using assms(1) by (auto simp: maybe_externalize_batch_def result_simps split: sum.splits option.splits prod.splits)
  then obtain ipc payload ptr' where i: "write_one_batch_as (xa_writer X) b schema (if md = [] then None else Some md) = Inr ipc"
    "ec_threshold_bytes cfg \<le> length ipc" "compress_payload (xa_zstd X) ipc (ec_compression cfg) = Inr payload"
    "p = \<lparr> px_encoded = \<lparr> ep_raw_len = length ipc, ep_sha = sha256_hex (xa_crypto X) ipc, ep_payload = payload \<rparr>,
      px_ptr = ptr', px_md = md \<rparr>"
    by (auto simp: prepare_externalize_batch_def prepare_externalize_batch_inner_def Let_def md_def result_simps
        encode_payload_def not_less split: if_split_asm)
  then obtain url where "ec_upload cfg payload (ec_compression cfg) (snd cw) = (Inr url, snd cw')"
    "fst cw' = fst cw + length payload"
    "pmd = md_insert LOCATION_SHA256_KEY (sha256_hex (xa_crypto X) ipc) (md_insert LOCATION_KEY url md)" "ptr' = ptr"
    using p(2) by (auto simp: upload_prepared_def upload_payload_def split: sum.splits prod.splits)
  then show thesis
    using that i p(1) by blast
qed

lemma location_keys [simp]:
  "is_location_key LOCATION_KEY" "is_location_key LOCATION_SHA256_KEY" "is_location_key LOCATION_FETCH_MS_KEY"
  "is_location_key LOCATION_SOURCE_KEY" "LOCATION_KEY \<noteq> LOCATION_SHA256_KEY" "LOCATION_KEY \<noteq> LOCATION_SOURCE_KEY"
  "LOCATION_KEY \<noteq> LOCATION_FETCH_MS_KEY" "LOCATION_SHA256_KEY \<noteq> LOCATION_FETCH_MS_KEY"
  "LOCATION_SHA256_KEY \<noteq> LOCATION_SOURCE_KEY"
  by (simp_all add: is_location_key_def LOCATION_KEY_def LOCATION_SHA256_KEY_def LOCATION_FETCH_MS_KEY_def LOCATION_SOURCE_KEY_def)

lemma resolved_get:
  assumes "distinct (map fst inner)"
  shows "md_get (resolved_metadata pmd inner url ms) k =
    (if k = LOCATION_SOURCE_KEY then Some url else if k = LOCATION_FETCH_MS_KEY then Some ms
     else if is_location_key k then None
     else case md_get inner k of None \<Rightarrow> md_get pmd k | Some v \<Rightarrow> Some v)"
  by (simp add: resolved_metadata_def Let_def md_get_merge [OF assms] md_get_filter split: option.split)

section \<open>Blocks of addresses\<close>

text \<open>Addresses as numbers, and membership in a block given by its first address and prefix length.\<close>

definition v4_number :: "8 word \<Rightarrow> 8 word \<Rightarrow> 8 word \<Rightarrow> 8 word \<Rightarrow> nat" where
  "v4_number a b c d = ((unat a * 256 + unat b) * 256 + unat c) * 256 + unat d"

definition v6_number :: "16 word list \<Rightarrow> nat" where
  "v6_number segs = foldl (\<lambda>n s. n * 65536 + unat s) 0 segs"

definition in_block :: "nat \<Rightarrow> nat \<Rightarrow> nat \<times> nat \<Rightarrow> bool" where
  "in_block width n blk = (case blk of (base, len) \<Rightarrow> n div 2 ^ (width - len) = base div 2 ^ (width - len))"

definition unroutable_v4 :: "(nat \<times> nat) list" where
  "unroutable_v4 =
     [(v4_number 127 0 0 0, 8), (v4_number 10 0 0 0, 8), (v4_number 172 16 0 0, 12), (v4_number 192 168 0 0, 16),
      (v4_number 169 254 0 0, 16), (v4_number 0 0 0 0, 32), (v4_number 255 255 255 255, 32), (v4_number 224 0 0 0, 4),
      (v4_number 192 0 2 0, 24), (v4_number 198 51 100 0, 24), (v4_number 203 0 113 0, 24), (v4_number 100 64 0 0, 10)]"

definition unroutable_v6 :: "(nat \<times> nat) list" where
  "unroutable_v6 = [(1, 128), (0, 128), (0xff00 * 2 ^ 112, 8), (0xfc00 * 2 ^ 112, 7), (0xfe80 * 2 ^ 112, 10)]"

fun unroutable :: "ip_addr \<Rightarrow> bool" where
  "unroutable (V4 a b c d) = list_ex (in_block 32 (v4_number a b c d)) unroutable_v4"
| "unroutable (V6 segs) =
     (let n = v6_number segs in
      list_ex (in_block 128 n) unroutable_v6
      \<or> in_block 128 n (0xffff * 2 ^ 32, 96) \<and> list_ex (in_block 32 (n mod 2 ^ 32)) unroutable_v4)"

lemma and_high:
  fixes w :: "'a::len word"
  assumes "c = push_bit k c'" "m = not (mask k)"
  shows "and w m = c \<longleftrightarrow> drop_bit k w = drop_bit k c"
proof -
  have h: "and w m = push_bit k (drop_bit k w)"
    unfolding assms(2) by (rule bit_word_eqI) (auto simp: bit_simps)
  have "drop_bit k (push_bit k (drop_bit k x)) = drop_bit k x" for x :: "'a word"
    by (rule bit_word_eqI) (auto simp: bit_simps dest: bit_imp_le_length)
  moreover have "c = push_bit k (drop_bit k c)"
    unfolding assms(1) by (rule bit_word_eqI) (auto simp: bit_simps)
  ultimately show ?thesis
    unfolding h by metis
qed

lemma masked:
  fixes w :: "'a::len word"
  assumes "c = push_bit k c'" "m = not (mask k)" "unat c div 2 ^ k = v"
  shows "and w m = c \<longleftrightarrow> unat w div 2 ^ k = v"
proof -
  have "drop_bit k w = drop_bit k c \<longleftrightarrow> unat w div 2 ^ k = unat c div 2 ^ k"
    unfolding word_unat_eq_iff unat_drop_bit_eq by (simp add: drop_bit_eq_div)
  then show ?thesis
    using and_high [OF assms(1,2), of w] assms(3) by simp
qed

lemma masked_octets:
  "and (b :: 8 word) 0xf0 = 16 \<longleftrightarrow> unat b div 16 = 1"
  "and (b :: 8 word) 0xc0 = 0x40 \<longleftrightarrow> unat b div 64 = 1"
  using masked [of "16 :: 8 word" 4 1 "0xf0" 1 b] masked [of "0x40 :: 8 word" 6 1 "0xc0" 1 b]
  by (simp_all add: mask_eq_exp_minus_1 push_bit_eq_mult)

lemma masked_segments:
  "and (s :: 16 word) 0xff00 = 0xff00 \<longleftrightarrow> unat s div 2 ^ 8 = 0xff"
  "and (s :: 16 word) 0xfe00 = 0xfc00 \<longleftrightarrow> unat s div 2 ^ 9 = 0x7e"
  "and (s :: 16 word) 0xffc0 = 0xfe80 \<longleftrightarrow> unat s div 2 ^ 6 = 0x3fa"
  using masked [of "0xff00 :: 16 word" 8 "0xff" "0xff00" "0xff" s] masked [of "0xfc00 :: 16 word" 9 "0x7e" "0xfe00" "0x7e" s]
    masked [of "0xfe80 :: 16 word" 6 "0x3fa" "0xffc0" "0x3fa" s]
  by (simp_all add: mask_eq_exp_minus_1 push_bit_eq_mult)

lemma octet: "unat (x :: 8 word) < 256"
  using unsigned_less [of x] by (simp add: unat_arith_simps)

lemma digit_less: "(c :: nat) < b \<Longrightarrow> (a * b + c) div b = a"
  by simp

lemma digits_eq: "(c :: nat) < n \<Longrightarrow> d < n \<Longrightarrow> a * n + c = b * n + d \<longleftrightarrow> a = b \<and> c = d"
  by (metis add_right_cancel digit_less add_left_cancel)

lemma v4_digits:
  "v4_number a b c d div 2 ^ 8 = (unat a * 256 + unat b) * 256 + unat c"
  "v4_number a b c d div 2 ^ 16 = unat a * 256 + unat b"
  "v4_number a b c d div 2 ^ 24 = unat a"
  "v4_number a b c d div 2 ^ 28 = unat a div 16"
  "v4_number a b c d div 2 ^ 20 = unat a * 16 + unat b div 16"
  "v4_number a b c d div 2 ^ 22 = unat a * 4 + unat b div 64"
proof -
  let ?n = "v4_number a b c d"
  have p: "(2 :: nat) ^ 8 = 256" by simp
  have s: "?n div 2 ^ (k + l) = ?n div 2 ^ k div 2 ^ l" for k l
    by (simp add: power_add div_mult2_eq)
  show 1: "?n div 2 ^ 8 = (unat a * 256 + unat b) * 256 + unat c"
    using digit_less [OF octet [of d], of "(unat a * 256 + unat b) * 256 + unat c"]
    by (simp only: v4_number_def p)
  show 2: "?n div 2 ^ 16 = unat a * 256 + unat b"
    using s [of 8 8] digit_less [OF octet [of c], of "unat a * 256 + unat b"] 1 by simp
  show 3: "?n div 2 ^ 24 = unat a"
    using s [of 16 8] digit_less [OF octet [of b], of "unat a"] 2 by simp
  show "?n div 2 ^ 28 = unat a div 16"
    using s [of 24 4] 3 by simp
  have "(x * 256 + y) div 16 = x * 16 + y div 16" "(x * 256 + y) div 64 = x * 4 + y div 64" for x y :: nat
    using div_mult_self1 [of 16 y "x * 16"] div_mult_self1 [of 64 y "x * 4"] by (simp_all add: algebra_simps)
  then show "?n div 2 ^ 20 = unat a * 16 + unat b div 16" "?n div 2 ^ 22 = unat a * 4 + unat b div 64"
    using s [of 16 4] s [of 16 6] 2 by simp_all
qed

lemma v4_blocks:
  "in_block 32 (v4_number a b c d) (v4_number p 0 0 0, 8) \<longleftrightarrow> a = p"
  "in_block 32 (v4_number a b c d) (v4_number p q 0 0, 16) \<longleftrightarrow> a = p \<and> b = q"
  "in_block 32 (v4_number a b c d) (v4_number p q r 0, 24) \<longleftrightarrow> a = p \<and> b = q \<and> c = r"
  "in_block 32 (v4_number a b c d) (v4_number p q r t, 32) \<longleftrightarrow> a = p \<and> b = q \<and> c = r \<and> d = t"
  "in_block 32 (v4_number a b c d) (v4_number 172 16 0 0, 12) \<longleftrightarrow> a = 172 \<and> unat b div 16 = 1"
  "in_block 32 (v4_number a b c d) (v4_number 224 0 0 0, 4) \<longleftrightarrow> unat a div 16 = 14"
  "in_block 32 (v4_number a b c d) (v4_number 100 64 0 0, 10) \<longleftrightarrow> a = 100 \<and> unat b div 64 = 1"
proof -
  note digits = v4_digits [simplified]
  show "in_block 32 (v4_number a b c d) (v4_number p 0 0 0, 8) \<longleftrightarrow> a = p"
    by (simp add: in_block_def digits word_unat_eq_iff)
  show "in_block 32 (v4_number a b c d) (v4_number p q 0 0, 16) \<longleftrightarrow> a = p \<and> b = q"
    by (simp add: in_block_def digits word_unat_eq_iff digits_eq octet)
  show "in_block 32 (v4_number a b c d) (v4_number p q r 0, 24) \<longleftrightarrow> a = p \<and> b = q \<and> c = r"
    using digits_eq [OF octet [of c] octet [of r], of "unat a * 256 + unat b" "unat p * 256 + unat q"]
      digits_eq [OF octet [of b] octet [of q], of "unat a" "unat p"] v4_digits(1)
    by (simp add: in_block_def word_unat_eq_iff)
  show "in_block 32 (v4_number a b c d) (v4_number p q r t, 32) \<longleftrightarrow> a = p \<and> b = q \<and> c = r \<and> d = t"
    unfolding in_block_def word_unat_eq_iff prod.case v4_number_def diff_self_eq_0 power_0 div_by_1
      digits_eq [OF octet octet] by blast
  have "unat b div 16 < 16" "unat b div 64 < 4"
    using octet [of b] by (simp_all add: less_mult_imp_div_less)
  then show "in_block 32 (v4_number a b c d) (v4_number 172 16 0 0, 12) \<longleftrightarrow> a = 172 \<and> unat b div 16 = 1"
    "in_block 32 (v4_number a b c d) (v4_number 100 64 0 0, 10) \<longleftrightarrow> a = 100 \<and> unat b div 64 = 1"
    using digits_eq [of "unat b div 16" 16 1 "unat a" 172] digits_eq [of "unat b div 64" 4 1 "unat a" 100]
    by (simp_all add: in_block_def digits word_unat_eq_iff)
  show "in_block 32 (v4_number a b c d) (v4_number 224 0 0 0, 4) \<longleftrightarrow> unat a div 16 = 14"
    by (simp add: in_block_def digits)
qed

lemma unsafe_v4_blocks: "unsafe_v4 a b c d \<longleftrightarrow> list_ex (in_block 32 (v4_number a b c d)) unroutable_v4"
proof -
  have "224 \<le> a \<and> a \<le> 239 \<longleftrightarrow> unat a div 16 = 14"
    using div_mult_mod_eq [of "unat a" 16] mod_less_divisor [of 16 "unat a"]
    by (simp add: word_le_nat_alt) linarith
  then show ?thesis
    by (simp only: unsafe_v4_def unroutable_v4_def masked_octets list_ex_Nil_iff list_ex_Cons_iff v4_blocks
        disj_assoc simp_thms)
qed

lemma segment_less: "unat (x :: 16 word) < 65536"
  using unsigned_less [of x] by (simp add: unat_arith_simps)

lemma v6_snoc: "v6_number (xs @ [x]) = v6_number xs * 65536 + unat x"
  by (simp add: v6_number_def)

lemma v6_inj: "length xs = length ys \<Longrightarrow> v6_number xs = v6_number ys \<longleftrightarrow> xs = ys"
proof (induction xs arbitrary: ys rule: rev_induct)
  case (snoc x xs)
  then obtain y zs where "ys = zs @ [y]" "length xs = length zs"
    by (cases ys rule: rev_cases) auto
  then show ?case
    using snoc.IH digits_eq [OF segment_less segment_less] by (simp add: v6_snoc word_unat_eq_iff)
qed simp

lemma v6_take: "k \<le> length xs \<Longrightarrow> v6_number xs div 2 ^ (16 * k) = v6_number (take (length xs - k) xs)"
proof (induction k arbitrary: xs)
  case (Suc k)
  then obtain x ys where x: "xs = ys @ [x]"
    by (cases xs rule: rev_cases) auto
  have "v6_number xs div 2 ^ (16 * Suc k) = v6_number xs div 65536 div 2 ^ (16 * k)"
    by (simp add: power_add div_mult2_eq)
  also have "\<dots> = v6_number ys div 2 ^ (16 * k)"
    unfolding x v6_snoc digit_less [OF segment_less] ..
  also have "\<dots> = v6_number (take (length xs - Suc k) xs)"
    using Suc x by simp
  finally show ?case .
qed simp

lemma segment_octets:
  "v4_number (ucast (drop_bit 8 x)) (ucast x) (ucast (drop_bit 8 y)) (ucast y) = unat (x :: 16 word) * 65536 + unat (y :: 16 word)"
proof -
  have "unat (ucast (drop_bit 8 x) :: 8 word) * 256 + unat (ucast x :: 8 word) = unat x" for x :: "16 word"
  proof -
    have "unat (drop_bit 8 x) = unat x div 256"
      unfolding unat_drop_bit_eq by (simp add: drop_bit_eq_div)
    then have "unat (ucast (drop_bit 8 x) :: 8 word) = unat x div 256 mod 256"
      unfolding unsigned_ucast_eq by (simp only: take_bit_eq_mod) simp
    moreover have "unat (ucast x :: 8 word) = unat x mod 256"
      unfolding unsigned_ucast_eq by (simp only: take_bit_eq_mod) simp
    moreover have "unat x div 256 < 256"
      using segment_less [of x] by (simp add: less_mult_imp_div_less)
    ultimately show ?thesis by (simp only: mod_less div_mult_mod_eq)
  qed
  from this [of x] this [of y] show ?thesis
    by (simp add: v4_number_def algebra_simps)
qed

lemma unsafe_v6_blocks:
  assumes "length segs = 8"
  shows "unsafe_v6 segs \<longleftrightarrow> unroutable (V6 segs)"
proof -
  let ?n = "v6_number segs"
  obtain s0 rest where s0: "segs = s0 # rest"
    using assms by (cases segs) auto
  have one: "?n div 2 ^ 112 = unat s0"
    using v6_take [of 7 segs] assms s0 by (simp add: v6_number_def)
  have high: "?n div 2 ^ (112 + k) = unat s0 div 2 ^ k" for k
    using one by (simp add: power_add div_mult2_eq)
  have b: "in_block 128 ?n (1, 128) \<longleftrightarrow> segs = [0, 0, 0, 0, 0, 0, 0, 1]"
    "in_block 128 ?n (0, 128) \<longleftrightarrow> segs = [0, 0, 0, 0, 0, 0, 0, 0]"
    using v6_inj [of segs "[0, 0, 0, 0, 0, 0, 0, 1]"] v6_inj [of segs "[0, 0, 0, 0, 0, 0, 0, 0]"] assms
    by (simp_all add: in_block_def v6_number_def)
  have h: "in_block 128 ?n (0xff00 * 2 ^ 112, 8) \<longleftrightarrow> unat s0 div 2 ^ 8 = 0xff"
    "in_block 128 ?n (0xfc00 * 2 ^ 112, 7) \<longleftrightarrow> unat s0 div 2 ^ 9 = 0x7e"
    "in_block 128 ?n (0xfe80 * 2 ^ 112, 10) \<longleftrightarrow> unat s0 div 2 ^ 6 = 0x3fa"
    using high [of 8] high [of 9] high [of 6] by (simp_all add: in_block_def)
  have "take 6 segs = [0, 0, 0, 0, 0, 0xffff] \<longleftrightarrow> v6_number (take 6 segs) = v6_number [0, 0, 0, 0, 0, 0xffff]"
    using v6_inj [of "take 6 segs" "[0, 0, 0, 0, 0, 0xffff]"] assms by simp
  then have m: "in_block 128 ?n (0xffff * 2 ^ 32, 96) \<longleftrightarrow> take 6 segs = [0, 0, 0, 0, 0, 0xffff]"
    using v6_take [of 2 segs] assms by (simp add: in_block_def v6_number_def)
  have "segs = (take 6 segs @ [segs ! 6]) @ [segs ! 7]"
    using take_Suc_conv_app_nth [of 6 segs] take_Suc_conv_app_nth [of 7 segs] assms by simp
  then have "?n = v6_number (take 6 segs) * 2 ^ 32 + (unat (segs ! 6) * 65536 + unat (segs ! 7))"
    using v6_snoc [of "take 6 segs @ [segs ! 6]" "segs ! 7"] v6_snoc [of "take 6 segs" "segs ! 6"]
    by (simp add: algebra_simps)
  moreover have "unat (segs ! 6) * 65536 + unat (segs ! 7) < 2 ^ 32"
    using segment_less [of "segs ! 6"] segment_less [of "segs ! 7"] by simp
  ultimately have "?n mod 2 ^ 32 = unat (segs ! 6) * 65536 + unat (segs ! 7)"
    by simp
  moreover have "segs ! 0 = s0" using s0 by simp
  ultimately show ?thesis
    unfolding unsafe_v6_def unroutable.simps Let_def unroutable_v6_def list_ex_Nil_iff list_ex_Cons_iff b h m
      masked_segments to_ipv4_mapped_def unsafe_v4_blocks
    using segment_octets [of "segs ! 6" "segs ! 7"]
    by (cases "take 6 segs = [0, 0, 0, 0, 0, 0xffff]") (simp_all add: unsafe_v4_blocks)
qed

fun ip_ok :: "ip_addr \<Rightarrow> bool" where
  "ip_ok (V4 a b c d) = True"
| "ip_ok (V6 segs) = (length segs = 8)"

lemma reject_unsafe_ip_iff: "ip_ok ip \<Longrightarrow> reject_unsafe_ip ip = Inr () \<longleftrightarrow> \<not> unroutable ip"
  by (cases ip) (simp_all add: reject_unsafe_ip_def unsafe_v4_blocks unsafe_v6_blocks del: unroutable.simps(2))

lemma reject_unsafe_ips_iff: "list_all ip_ok ips \<Longrightarrow> reject_unsafe_ips ips = Inr () \<longleftrightarrow> \<not> list_ex unroutable ips"
  by (induction ips) (auto simp: result_simps reject_unsafe_ip_iff)

text \<open>The addresses that a host stands for when it is looked at.\<close>

definition host_addresses ::
  "('w \<Rightarrow> string \<Rightarrow> nat \<Rightarrow> string + ip_addr list) \<Rightarrow> 'w \<Rightarrow> nat option \<Rightarrow> url_host \<Rightarrow> ip_addr list" where
  "host_addresses lookup w port host =
     (case host of
        Host_Ipv4 a b c d \<Rightarrow> [V4 a b c d]
      | Host_Ipv6 segs \<Rightarrow> [V6 segs]
      | Host_Domain name \<Rightarrow>
          if to_ascii_lowercase name = ''localhost'' \<or> suffix ''.localhost'' (to_ascii_lowercase name) then []
          else case lookup w name (case port of Some p \<Rightarrow> p | None \<Rightarrow> 443) of Inl _ \<Rightarrow> [] | Inr ips \<Rightarrow> ips)"

section \<open>Properties\<close>


definition demo_urls :: url_api where
  "demo_urls = \<lparr> ua_parse = \<lambda>_. Inr \<lparr> pu_scheme = ''https'', pu_host = Some (Host_Domain ''store.example''),
     pu_port_or_known_default = Some 443 \<rparr>, ua_stripped = \<lambda>s. Some s \<rparr>"



text \<open>A codec whose messages are single bytes, and a storage that keeps the last upload.\<close>

definition demo_message_md :: fb_message where
  "demo_message_md = (demo_frame HT_Record_Batch 1)\<lparr> fb_custom_metadata := Some (md_vector [(''k'', ''v'')]) \<rparr>"

definition demo_md_encoder :: "(unit, bytes, unit) arrow_writer_api" where
  "demo_md_encoder = demo_encoder\<lparr> aw_root_as_message := \<lambda>_. Inr (demo_frame HT_Record_Batch 1), aw_build_message := \<lambda>_. [3] \<rparr>"

definition demo_md_decoder :: "(unit, bytes, unit) arrow_api" where
  "demo_md_decoder = demo_decoder\<lparr> root_as_message := \<lambda>bs. Inr (if hd bs = 1 then (demo_frame HT_Schema 0)\<lparr> fb_schema_fields := Some True \<rparr>
     else demo_message_md) \<rparr>"

definition demo_external :: "(unit, bytes, unit, unit) external_api" where
  "demo_external = \<lparr> xa_arrow = demo_md_decoder, xa_shm = demo_arrays, xa_writer = demo_md_encoder, xa_crypto = demo_crypto,
     xa_codings = demo_codings, xa_zstd = \<lparr> zb_new = \<lambda>_. Inr (), zb_content_size = Inr (), zb_compress = \<lambda>_ bs. Inr bs \<rparr>,
     xa_url = demo_urls \<rparr>"

definition demo_storage :: "bytes external_config" where
  "demo_storage = \<lparr> ec_threshold_bytes = 10, ec_compression = Zstd_Level 3, ec_upload = \<lambda>bs _ _. (Inr ''https://store.example/1'', bs),
     ec_fetch_with_policy = \<lambda>_ _ c _ _ w. (Inr (w, c), w), ec_url_validator = any_url_validator,
     ec_max_decompressed_bytes = 1000, ec_max_encoded_bytes = 1000, ec_max_redirects = 5 \<rparr>"

definition idle :: "chunked_writer \<Rightarrow> bool" where
  "idle cw = (willing cw \<and> w_flushes (cw_inner cw) = [])"

lemma idle_write: "idle cw \<Longrightarrow> \<exists>cw'. write_all bs cw = (Inr (), cw') \<and> idle cw'"
  using write_all_delivered [of bs cw] by (cases "write_all bs cw") (auto simp: idle_def delivered_def)

lemma demo_md_message:
  "write_message demo_md_encoder enc cw =
     (case write_all (encapsulate (ed_ipc_message enc) (ed_arrow_data enc)) cw of
        (res, cw') \<Rightarrow> (map_err (\<lambda>e. rpc_of_arrow (err_msg e)) res, cw'))"
  using demo_write_message [of enc cw] by (simp add: write_message_def demo_md_encoder_def)

lemma demo_md_codec:
  "encodes_with demo_md_encoder [9] () (Some [(''k'', ''v'')]) ([1], []) ([3], [9])"
  "decodes_with demo_md_decoder ([1], []) ([3], [9]) [9] [(''k'', ''v'')]"
proof -
  have w: "writes_encapsulated demo_md_encoder enc 0" for enc
    using demo_writer_api_laws(2) [of "demo_frame HT_Schema 0" enc]
    by (simp add: writes_encapsulated_def demo_md_encoder_def demo_encoder_def)
  have p: "packed_message demo_md_encoder \<lparr> ed_ipc_message = [2], ed_arrow_data = [9] \<rparr> (Some [(''k'', ''v'')]) = Inr [3]"
    by (simp add: packed_message_def repack_record_batch_message_with_metadata_def demo_md_encoder_def demo_frame_def ok_or_def)
  show "encodes_with demo_md_encoder [9] () (Some [(''k'', ''v'')]) ([1], []) ([3], [9])"
    unfolding encodes_with_def
    by (intro conjI exI [of _ "\<lparr> ed_ipc_message = [1], ed_arrow_data = [] \<rparr>"]
        exI [of _ "\<lparr> ed_ipc_message = [2], ed_arrow_data = [9] \<rparr>"] exI [of _ "[3]"] exI [of _ "()"] exI [of _ "0 :: nat"])
      (simp_all add: w p, simp_all add: demo_md_encoder_def demo_encoder_simps)
  show "decodes_with demo_md_decoder ([1], []) ([3], [9]) [9] [(''k'', ''v'')]"
    by (simp add: decodes_with_def frame_ok_def demo_md_decoder_def demo_decoder_def demo_message_md_def demo_frame_def
        MAX_IPC_SCHEMA_BYTES_def MAX_IPC_MESSAGE_BYTES_def u32_max_def validate_record_batch_buffers_def
        parse_custom_metadata_def md_vector_def or_empty_def md_get_Cons)
qed

lemma demo_md_written: "\<exists>ipc. write_one_batch_as demo_md_encoder [9] () (Some [(''k'', ''v'')]) = Inr ipc"
proof -
  let ?w = "\<lparr> w_script = [], w_out = [], w_calls = [], w_flushes = [], w_room = None \<rparr>"
  have "idle (chunked_new ?w)"
    by (simp add: idle_def willing_def chunked_new_def MAX_WRITE_CHUNK_def)
  then obtain cw1 where 1: "write_all (encapsulate [1] []) (chunked_new ?w) = (Inr (), cw1)" "idle cw1"
    using idle_write by blast
  obtain cw2 where 2: "write_all (encapsulate [3] [9]) cw1 = (Inr (), cw2)" "idle cw2"
    using idle_write [OF 1(2)] by blast
  define sw where "sw = \<lparr> sw_writer = cw1, sw_schema = (), sw_tracker = (), sw_finished = False \<rparr>"
  have e: "aw_num_columns demo_md_encoder b = 2" "aw_schema_to_bytes demo_md_encoder s t = (\<lparr> ed_ipc_message = [1], ed_arrow_data = [] \<rparr>, ())"
    "aw_encode demo_md_encoder b t = (Inr ([], \<lparr> ed_ipc_message = [2], ed_arrow_data = b \<rparr>), ())" for b s t
    by (simp_all add: demo_md_encoder_def demo_encoder_simps)
  have "stream_writer_new demo_md_encoder ?w () = (Inr sw, cw1)"
    using 1(1) by (simp add: stream_writer_new_def demo_md_message sw_def e)
  moreover have "stream_write demo_md_encoder [9] (Some [(''k'', ''v'')]) sw = (Inr (), sw\<lparr> sw_writer := cw2 \<rparr>)"
  proof -
    have "repack_record_batch_message_with_metadata demo_md_encoder [2] [(''k'', ''v'')] = Inr [3]"
      by (simp add: repack_record_batch_message_with_metadata_def demo_md_encoder_def demo_frame_def ok_or_def)
    then show ?thesis
      using 2(1) by (simp add: stream_write_def write_single_large_binary_direct_def demo_md_message sw_def e)
  qed
  moreover have "fst (stream_finish (sw\<lparr> sw_writer := cw2 \<rparr>)) = Inr ()"
    using finish_willing(4) [of "sw\<lparr> sw_writer := cw2 \<rparr>"] 2(2) by (simp add: idle_def sw_def)
  ultimately show ?thesis
    by (cases "stream_finish (sw\<lparr> sw_writer := cw2 \<rparr>)") (simp add: write_one_batch_as_def)
qed

lemma demo_user_md: "filter (\<lambda>(k, _). \<not> is_location_key k) [(LOCATION_KEY, ''stale''), (''k'', ''v'')] = [(''k'', ''v'')]"
  by (simp add: is_location_key_def LOCATION_KEY_def LOCATION_SHA256_KEY_def LOCATION_FETCH_MS_KEY_def LOCATION_SOURCE_KEY_def)


end
