(* ===== verification/Serve.thy ===== *)
theory Serve
  imports Reflection External
begin

text \<open>
  The serve loop of \<^verbatim>\<open>vgi-rpc/src/server.rs\<close> over a byte-stream connection: reading a request, answering a unary
  call, the lockstep loop of a stream and the loop over requests, on the connections of \<^verbatim>\<open>Conn\<close>. The loop has a
  connection cache for shared memory. A slot that a zero-copy batch holds until it is dropped is
  released outside the model, and uploads that application code makes itself are part of its world.
\<close>

section \<open>The environment of the loop\<close>

text \<open>
  The crates, the server with its application, storage and hook. A column of a batch is a value \<open>'c\<close>; casting a
  column and building a batch fail with a message.
\<close>

record ('b, 'c, 'd, 't, 'st, 'w) serve_env =
  ev_api :: "(schema, 'b, 'd, 't) external_api"
  ev_reflection :: "'b reflection_api"
  ev_hash :: hash_env
  ev_show_schema :: "schema \<Rightarrow> string"
  ev_column :: "'b \<Rightarrow> nat \<Rightarrow> 'c"
  ev_cast :: "'c \<Rightarrow> data_type \<Rightarrow> string + 'c"
  ev_try_new :: "schema \<Rightarrow> 'c list \<Rightarrow> string + 'b"
  ev_shm_threshold :: nat
  ev_os_attach :: "string \<Rightarrow> nat \<Rightarrow> bytes rpc_result"
  ev_external :: "'w external_config option"
  ev_server :: "arrow_field rpc_server"
  ev_application :: "(arrow_field, 'b, 'st, 'w) application"
  ev_hooked :: bool

abbreviation ev_shm :: "('b, 'c, 'd, 't, 'st, 'w) serve_env \<Rightarrow> (schema, 'b) shm_api" where
  "ev_shm E \<equiv> xa_shm (ev_api E)"

abbreviation ev_to_text :: "('b, 'c, 'd, 't, 'st, 'w) serve_env \<Rightarrow> json \<Rightarrow> string" where
  "ev_to_text E \<equiv> he_to_text (ev_hash E)"

section \<open>Unary calls\<close>

text \<open>The segment a response may use: the cached one when the request signalled shared memory.\<close>

definition shm_ref :: "bool \<Rightarrow> ('b, 'w) conn \<Rightarrow> shm_segment option" where
  "shm_ref used c = (if used then cs_segment (cn_shm c) else None)"

definition set_segment :: "shm_segment option \<Rightarrow> ('b, 'w) conn \<Rightarrow> ('b, 'w) conn" where
  "set_segment g c = (case g of None \<Rightarrow> c | Some _ \<Rightarrow> c\<lparr> cn_shm := (cn_shm c)\<lparr> cs_segment := g \<rparr> \<rparr>)"

text \<open>Routing a batch through shared memory; the pointer, when the batch went there.\<close>

definition route_shm ::
  "('b, 'c, 'd, 't, 'st, 'w) serve_env \<Rightarrow> bool \<Rightarrow> 'b \<Rightarrow> metadata \<Rightarrow> ('b, 'w, ('b \<times> metadata) option) io" where
  "route_shm E used b md c =
     (case shm_ref used c of
        None \<Rightarrow> (Done (Inr None), c)
      | Some g \<Rightarrow>
          (case maybe_write_to_shm (xa_writer (ev_api E)) (ev_shm E) (ev_shm_threshold E) b md (Some g) of
             (Panic, g') \<Rightarrow> (Panic, set_segment g' c)
           | (Done (Inl e), g') \<Rightarrow> (Done (Inl e), set_segment g' c)
           | (Done (Inr (written, written_md)), g') \<Rightarrow>
               (Done (Inr (if md_contains written_md SHM_OFFSET_KEY then Some (written, written_md) else None)),
                set_segment g' c)))"

definition externalize ::
  "('b, 'c, 'd, 't, 'st, 'w) serve_env \<Rightarrow> 'b \<Rightarrow> schema \<Rightarrow> metadata option
   \<Rightarrow> ('b, 'w, ('b \<times> metadata) option rpc_result) io" where
  "externalize E b schema md c =
     (case ev_external E of
        None \<Rightarrow> (Done (Inr (Inr None)), c)
      | Some cfg \<Rightarrow>
          (case maybe_externalize_batch (ev_api E) b schema md cfg (cn_externalized c, cn_world c) of
             (r, n, w) \<Rightarrow> (Done (Inr r), c\<lparr> cn_externalized := n, cn_world := w \<rparr>)))"

definition count_output :: "nat \<Rightarrow> ('b, 'w) conn \<Rightarrow> ('b, 'w) conn" where
  "count_output rows c =
     c\<lparr> cn_stats := (cn_stats c)\<lparr> cs_output_batches := cs_output_batches (cn_stats c) + 1,
                                 cs_output_rows := cs_output_rows (cn_stats c) + rows \<rparr> \<rparr>"

definition unary_value ::
  "('b, 'c, 'd, 't, 'st, 'w) serve_env \<Rightarrow> bool \<Rightarrow> schema \<Rightarrow> 'b option \<Rightarrow> ('b, 'w, unit) io" where
  "unary_value E used schema maybe_batch =
     io_bind (case maybe_batch of Some b \<Rightarrow> io_ret b | None \<Rightarrow> io_of (empty_batch (ev_shm E) schema)) (\<lambda>out.
     io_bind (io_update (\<lambda>c. c\<lparr> cn_stats := (cn_stats c)\<lparr> cs_output_batches := 1,
         cs_output_rows := sa_num_rows (ev_shm E) out \<rparr> \<rparr>)) (\<lambda>_.
     io_bind (route_shm E used out []) (\<lambda>pointer.
       case pointer of
         Some (written, md) \<Rightarrow> io_bind (put_frame (Put written (Some md))) (\<lambda>_. put_frame Close)
       | None \<Rightarrow>
           io_bind (externalize E out schema None) (\<lambda>ext.
             case ext of
               Inr (Some (ptr, md)) \<Rightarrow> io_bind (put_frame (Put ptr (Some md))) (\<lambda>_. put_frame Close)
             | _ \<Rightarrow> io_bind (put_frame (Put out None)) (\<lambda>_. put_frame Close)))))"

definition unary_ref ::
  "('b, 'c, 'd, 't, 'st, 'w) serve_env \<Rightarrow> schema \<Rightarrow> external_ref \<Rightarrow> ('b, 'w, unit) io" where
  "unary_ref E schema r =
     io_bind (io_of (pointer_batch (ev_shm E) r schema)) (\<lambda>(ptr, md).
     io_bind (io_update (\<lambda>c. c\<lparr> cn_stats := (cn_stats c)\<lparr> cs_output_batches := 1 \<rparr> \<rparr>)) (\<lambda>_.
     io_bind (put_frame (Put ptr (Some md))) (\<lambda>_. put_frame Close)))"

text \<open>The answer to a call that failed before any output, as a complete stream.\<close>

definition put_failure ::
  "('b, 'c, 'd, 't, 'st, 'w) serve_env \<Rightarrow> schema \<Rightarrow> log_message list \<Rightarrow> rpc_error \<Rightarrow> envelope_meta \<Rightarrow> ('b, 'w, unit) io" where
  "put_failure E schema logs err env =
     with_stream schema
       (io_bind (put_logs (ev_shm E) (ev_to_text E) schema logs env) (\<lambda>env.
        io_bind (put_error (ev_shm E) (ev_to_text E) schema err env) (\<lambda>_. put_frame Close)))"

definition serve_unary ::
  "('b, 'c, 'd, 't, 'st, 'w) serve_env \<Rightarrow> bool \<Rightarrow> string \<Rightarrow> arrow_field method_info \<Rightarrow> arrow_field request \<Rightarrow> 'b \<Rightarrow> call_context
   \<Rightarrow> ('b, 'w, unit) io" where
  "serve_unary E used protocol info req b ctx =
     (let tb = traceback_origin (ev_server E) (rq_protocol req) (rq_method req);
          schema = mi_result_schema info;
          env = envelope_new (sv_server_id (ev_server E)) (rq_request_id req) tb
      in io_bind (io_app (\<lambda>w. let (r, logs, ref, w) = ap_unary (ev_application E) protocol req b ctx w in
             ((guarded r, logs, ref), w))) (\<lambda>(r, logs, ref).
         case r of
           Inr maybe_batch \<Rightarrow>
             with_stream schema
               (io_bind (put_logs (ev_shm E) (ev_to_text E) schema logs env) (\<lambda>_.
                  case ref of
                    Some x \<Rightarrow> unary_ref E schema x
                  | None \<Rightarrow> unary_value E used schema maybe_batch))
         | Inl err \<Rightarrow>
             io_bind (put_failure E schema logs err env) (\<lambda>_.
             io_update (\<lambda>c. c\<lparr> cn_app_err := Some err \<rparr>))))"

section \<open>Streams\<close>

definition names_mismatch :: "schema \<Rightarrow> schema \<Rightarrow> (string \<times> string) option" where
  "names_mismatch src target = find (\<lambda>(t, s). s \<noteq> t) (zip (map af_name target) (map af_name src))"

fun cast_columns ::
  "('b, 'c, 'd, 't, 'st, 'w) serve_env \<Rightarrow> 'b \<Rightarrow> nat \<Rightarrow> schema \<Rightarrow> 'c list rpc_result" where
  "cast_columns E b i [] = Inr []"
| "cast_columns E b i (f # fs) =
     (let src = ev_column E b i in
      and_then
        (if af_data_type (sa_schema (ev_shm E) b ! i) = af_data_type f then Inr src
         else map_err (\<lambda>e. type_error (''cast field '' @ af_name f @ '': '' @ e)) (ev_cast E src (af_data_type f))) (\<lambda>col.
      and_then (cast_columns E b (Suc i) fs) (\<lambda>cols. Inr (col # cols))))"

definition cast_batch :: "('b, 'c, 'd, 't, 'st, 'w) serve_env \<Rightarrow> 'b \<Rightarrow> schema \<Rightarrow> 'b rpc_result" where
  "cast_batch E b target =
     (let src = sa_schema (ev_shm E) b in
      if length src \<noteq> length target then
        Inl (type_error (''Input schema mismatch: expected '' @ show_nat (length target) @ '' fields, got ''
          @ show_nat (length src)))
      else case names_mismatch src target of
        Some (t, s) \<Rightarrow>
          Inl (type_error (''Input schema mismatch: expected field '' @ debug_str t @ '', got '' @ debug_str s))
      | None \<Rightarrow>
          and_then (cast_columns E b 0 target) (\<lambda>cols. map_err rpc_of_arrow (ev_try_new E target cols)))"

definition cast_input ::
  "('b, 'c, 'd, 't, 'st, 'w) serve_env \<Rightarrow> schema option \<Rightarrow> 'b \<Rightarrow> 'b rpc_result" where
  "cast_input E input_schema b =
     (case input_schema of
        Some expected \<Rightarrow> if sa_schema (ev_shm E) b \<noteq> expected then cast_batch E b expected else Inr b
      | None \<Rightarrow> Inr b)"

text \<open>One tick's pointer, resolved; a copied dictionary batch releases its slot at once.\<close>

definition resolve_input ::
  "('b, 'c, 'd, 't, 'st, 'w) serve_env \<Rightarrow> bool \<Rightarrow> 'b \<Rightarrow> metadata \<Rightarrow> ('b, 'w, 'b \<times> metadata) io" where
  "resolve_input E used b md c =
     (case resolve_shm_batch (xa_arrow (ev_api E)) (ev_shm E) b md (shm_ref used c) of
        (Inl e, g) \<Rightarrow> (Done (Inl e), set_segment g c)
      | (Inr res, g) \<Rightarrow>
          (let g = (case (rs_release_offset res, g) of
                      (Some off, Some seg) \<Rightarrow> Some (snd (segment_free seg off))
                    | _ \<Rightarrow> g)
           in (Done (Inr (rs_batch res, rs_metadata res)), set_segment g c)))"

definition emit_data ::
  "('b, 'c, 'd, 't, 'st, 'w) serve_env \<Rightarrow> bool \<Rightarrow> schema \<Rightarrow> 'b \<Rightarrow> metadata option \<Rightarrow> ('b, 'w, unit) io" where
  "emit_data E used schema b md =
     io_bind (io_update (count_output (sa_num_rows (ev_shm E) b))) (\<lambda>_.
     io_bind (route_shm E used b (case md of None \<Rightarrow> [] | Some m \<Rightarrow> m)) (\<lambda>pointer.
       case pointer of
         Some (written, written_md) \<Rightarrow> put_frame (Put written (Some written_md))
       | None \<Rightarrow>
           io_bind (externalize E b schema md) (\<lambda>ext.
             case ext of
               Inr (Some (ptr, ptr_md)) \<Rightarrow> put_frame (Put ptr (Some ptr_md))
             | Inr None \<Rightarrow> put_frame (Put b md)
             | Inl e \<Rightarrow>
                 io_bind (io_update (\<lambda>c. c\<lparr> cn_app_err := Some e \<rparr>)) (\<lambda>_. put_frame (Put b md)))))"

fun emit_items ::
  "('b, 'c, 'd, 't, 'st, 'w) serve_env \<Rightarrow> bool \<Rightarrow> schema \<Rightarrow> 'b emitted list \<Rightarrow> envelope_meta
   \<Rightarrow> ('b, 'w, envelope_meta) io" where
  "emit_items E used schema [] env = io_ret env"
| "emit_items E used schema (Emit_Log m # items) env =
     io_bind (put_logs (ev_shm E) (ev_to_text E) schema [m] env) (emit_items E used schema items)"
| "emit_items E used schema (Emit_Batch b md # items) env =
     io_bind (emit_data E used schema b md) (\<lambda>_. emit_items E used schema items env)"

definition cancel_stream ::
  "('b, 'c, 'd, 't, 'st, 'w) serve_env \<Rightarrow> schema \<Rightarrow> 'st stream_state \<Rightarrow> call_context \<Rightarrow> envelope_meta
   \<Rightarrow> ('b, 'w, unit) io" where
  "cancel_stream E schema st ctx env =
     (let s = (case st of Producer_State s \<Rightarrow> s | Exchange_State s \<Rightarrow> s) in
      io_bind (io_app (\<lambda>w. let (r, logs, w) = ap_on_cancel (ev_application E) s ctx w in ((call_guard r, logs), w))) (\<lambda>(r, logs).
      io_bind (put_logs (ev_shm E) (ev_to_text E) schema logs env) (\<lambda>env.
        case r of
          Inr _ \<Rightarrow> io_ret ()
        | Inl err \<Rightarrow>
            io_bind (put_error (ev_shm E) (ev_to_text E) schema err env) (\<lambda>_.
            io_update (\<lambda>c. c\<lparr> cn_app_err := Some err \<rparr>)))))"

text \<open>The dispatch of one tick: the state, the collector, the logs, the world and the guarded result.\<close>

definition run_turn ::
  "(arrow_field, 'b, 'st, 'w) application \<Rightarrow> 'st stream_state \<Rightarrow> 'b \<Rightarrow> (arrow_field, 'b) collector \<Rightarrow> call_context \<Rightarrow> 'w
   \<Rightarrow> 'st stream_state \<times> (arrow_field, 'b, 'st, 'w) turn" where
  "run_turn app st input out ctx w =
     (case st of
        Producer_State s \<Rightarrow> (let t = ap_produce app s out ctx w in (Producer_State (tn_state t), t))
      | Exchange_State s \<Rightarrow> (let t = ap_exchange app s input out ctx w in (Exchange_State (tn_state t), t)))"

text \<open>One iteration of the lockstep loop after the tick was resolved; whether the loop goes on.\<close>

definition stream_tick ::
  "('b, 'c, 'd, 't, 'st, 'w) serve_env \<Rightarrow> bool \<Rightarrow> schema \<Rightarrow> schema option \<Rightarrow> call_context \<Rightarrow> 'b
   \<Rightarrow> 'st stream_state \<times> envelope_meta \<Rightarrow> ('b, 'w, ('st stream_state \<times> envelope_meta) option) io" where
  "stream_tick E used schema input_schema ctx input se =
     (case se of (st, env) \<Rightarrow>
      case cast_input E input_schema input of
        Inl e \<Rightarrow> io_bind (put_error (ev_shm E) (ev_to_text E) schema e env) (\<lambda>_. io_ret None)
      | Inr casted \<Rightarrow>
          io_bind (io_app (\<lambda>w. let (st', t) = run_turn (ev_application E) st casted
              (collector_new schema (input_schema = None)) ctx w in ((st', t), tn_world t))) (\<lambda>(st', t).
          io_bind (put_logs (ev_shm E) (ev_to_text E) schema (tn_logs t) env) (\<lambda>env.
            case guarded (tn_result t) of
              Inl err \<Rightarrow>
                io_bind (put_error (ev_shm E) (ev_to_text E) schema err env) (\<lambda>_.
                io_bind (io_update (\<lambda>c. c\<lparr> cn_app_err := Some err \<rparr>)) (\<lambda>_. io_ret None))
            | Inr _ \<Rightarrow>
                io_bind (emit_items E used schema (oc_items (tn_out t)) env) (\<lambda>env.
                io_bind (put_frame Flush) (\<lambda>_.
                io_ret (if oc_finished (tn_out t) then None else Some (st', env)))))))"

definition count_input :: "nat \<Rightarrow> ('b, 'w) conn \<Rightarrow> ('b, 'w) conn" where
  "count_input rows c =
     c\<lparr> cn_stats := (cn_stats c)\<lparr> cs_input_batches := cs_input_batches (cn_stats c) + 1,
                                 cs_input_rows := cs_input_rows (cn_stats c) + rows \<rparr> \<rparr>"

fun lockstep ::
  "('b, 'c, 'd, 't, 'st, 'w) serve_env \<Rightarrow> bool \<Rightarrow> schema \<Rightarrow> schema option \<Rightarrow> call_context
   \<Rightarrow> ('b \<times> metadata) rpc_result list \<Rightarrow> 'st stream_state \<times> envelope_meta \<Rightarrow> ('b, 'w, unit) io" where
  "lockstep E used schema input_schema ctx [] se = io_ret ()"
| "lockstep E used schema input_schema ctx (Inl _ # reads) se = io_ret ()"
| "lockstep E used schema input_schema ctx (Inr (b, md) # reads) se =
     io_bind (resolve_input E used b md) (\<lambda>(input, input_md).
     io_bind (io_update (count_input (sa_num_rows (ev_shm E) input))) (\<lambda>_.
     let ctx' = set_tick_metadata input_md ctx in
     if md_get input_md CANCEL_KEY \<noteq> None then cancel_stream E schema (fst se) ctx' (snd se)
     else
       io_bind (stream_tick E used schema input_schema ctx' input se) (\<lambda>next.
         case next of
           None \<Rightarrow> io_ret ()
         | Some se' \<Rightarrow> lockstep E used schema input_schema ctx reads se')))"

definition put_header ::
  "('b, 'c, 'd, 't, 'st, 'w) serve_env \<Rightarrow> log_message list \<Rightarrow> 'b option \<Rightarrow> metadata option \<Rightarrow> envelope_meta
   \<Rightarrow> ('b, 'w, envelope_meta) io" where
  "put_header E logs header_batch header_md env =
     (case header_batch of
        None \<Rightarrow> io_ret env
      | Some h \<Rightarrow>
          (let hs = sa_schema (ev_shm E) h in
           with_stream hs
             (io_bind (put_logs (ev_shm E) (ev_to_text E) hs logs env) (\<lambda>env.
              io_bind (put_frame (Put h header_md)) (\<lambda>_.
              io_bind (put_frame Close) (\<lambda>_. io_ret env))))))"

definition stream_body ::
  "('b, 'c, 'd, 't, 'st, 'w) serve_env \<Rightarrow> bool \<Rightarrow> log_message list \<Rightarrow> (arrow_field, 'b, 'st) stream_result \<Rightarrow> call_context
   \<Rightarrow> envelope_meta \<Rightarrow> ('b, 'w, unit) io" where
  "stream_body E used logs s ctx env =
     (let schema = so_output_schema s in
      with_stream schema
        (io_bind (put_frame Flush) (\<lambda>_.
         io_bind open_input (\<lambda>reads.
         io_bind (io_of (empty_batch (ev_shm E) schema)) (\<lambda>_.
         io_bind (if so_header s = None then put_logs (ev_shm E) (ev_to_text E) schema logs env else io_ret env) (\<lambda>env.
         io_bind (lockstep E used schema (so_input_schema s) ctx reads (so_state s, env)) (\<lambda>_.
         put_frame Close)))))))"

definition serve_stream ::
  "('b, 'c, 'd, 't, 'st, 'w) serve_env \<Rightarrow> bool \<Rightarrow> string \<Rightarrow> arrow_field method_info \<Rightarrow> arrow_field request \<Rightarrow> 'b
   \<Rightarrow> call_context \<Rightarrow> ('b, 'w, unit) io" where
  "serve_stream E used protocol info req b ctx =
     (let tb = traceback_origin (ev_server E) (rq_protocol req) (rq_method req);
          env = envelope_new (sv_server_id (ev_server E)) (rq_request_id req) tb
      in io_bind (io_app (\<lambda>w. let (r, logs, w) = ap_stream (ev_application E) protocol req b ctx w in
             ((guarded r, logs), w))) (\<lambda>(r, logs).
         case r of
           Inl err \<Rightarrow>
             io_bind (put_failure E (mi_result_schema info) logs err env) (\<lambda>_.
             io_bind (io_ignore open_input) (\<lambda>_.
             io_update (\<lambda>c. c\<lparr> cn_app_err := Some err \<rparr>)))
         | Inr s \<Rightarrow>
             io_bind (put_header E logs (so_header s) (so_header_metadata s) env) (\<lambda>env.
             io_bind (io_ignore (put_frame Flush)) (\<lambda>_.
             stream_body E used logs s ctx env))))"

section \<open>Requests\<close>

text \<open>
  The message of a failed open is compared in lower case; no letter outside ASCII has a lower case inside the two
  searched texts, so lowering the ASCII letters decides the same.
\<close>

definition is_eof_message :: "rpc_error \<Rightarrow> bool" where
  "is_eof_message e =
     (let msg = to_ascii_lowercase (e_message e) in contains_str ''empty ipc stream'' msg \<or> contains_str ''eof'' msg)"

text \<open>The rest of a drained stream: its first failed read.\<close>

fun drain_reads :: "('b \<times> metadata) rpc_result list \<Rightarrow> unit rpc_result" where
  "drain_reads [] = Inr ()"
| "drain_reads (Inl e # reads) = Inl e"
| "drain_reads (Inr _ # reads) = drain_reads reads"

definition refresh_shm ::
  "('b, 'c, 'd, 't, 'st, 'w) serve_env \<Rightarrow> metadata \<Rightarrow> ('b, 'w, unit) io" where
  "refresh_shm E md c =
     (case connection_refresh (ev_os_attach E) md (cn_shm c) of
        Panic \<Rightarrow> (Panic, c)
      | Done shm \<Rightarrow> (Done (Inr ()), c\<lparr> cn_shm := shm \<rparr>))"

text \<open>A request whose first batch was read: the rest is drained, and a pointer resolved through the cache.\<close>

definition accept_request ::
  "('b, 'c, 'd, 't, 'st, 'w) serve_env \<Rightarrow> 'b \<Rightarrow> metadata \<Rightarrow> ('b \<times> metadata) rpc_result list
   \<Rightarrow> ('b, 'w, ('b \<times> metadata \<times> bool) option) io" where
  "accept_request E b md reads =
     (let used = md_contains md SHM_OFFSET_KEY \<or> md_contains md SHM_SEGMENT_NAME_KEY in
      io_bind (io_of (drain_reads reads)) (\<lambda>_.
      io_bind (refresh_shm E md) (\<lambda>_.
        if is_shm_pointer_batch (ev_shm E) b md
        then io_bind (resolve_input E True b md) (\<lambda>(b, md). io_ret (Some (b, md, used)))
        else io_ret (Some (b, md, used)))))"

definition read_request ::
  "('b, 'c, 'd, 't, 'st, 'w) serve_env \<Rightarrow> ('b, 'w, ('b \<times> metadata \<times> bool) option) io" where
  "read_request E c =
     (case open_input c of
        (Done (Inl e), c') \<Rightarrow> if is_eof_message e then (Done (Inr None), c') else (Done (Inl e), c')
      | (Done (Inr []), c') \<Rightarrow> (Done (Inr None), c')
      | (Done (Inr (Inl e # _)), c') \<Rightarrow> (Done (Inl e), c')
      | (Done (Inr (Inr (b, md) # reads)), c') \<Rightarrow> accept_request E b md reads c'
      | (Panic, c') \<Rightarrow> (Panic, c'))"

definition batch_view :: "(schema, 'b) shm_api \<Rightarrow> 'b \<Rightarrow> arrow_field batch" where
  "batch_view S b = \<lparr> bt_fields = sa_schema S b, bt_rows = sa_num_rows S b \<rparr>"

text \<open>
  Dispatch of a method between the two calls of the hook, in a scope that counts uploads; an error that ends
  the connection skips the second call.
\<close>

definition method_info_of ::
  "('b, 'c, 'd, 't, 'st, 'w) serve_env \<Rightarrow> auth_context \<Rightarrow> arrow_field method_info \<Rightarrow> arrow_field request \<Rightarrow> dispatch_info" where
  "method_info_of E auth info req =
     (dispatch_info_from_request (ev_hash E) (ev_server E) req
        (if mi_method_type info = Unary then ''unary'' else ''stream'') auth)\<lparr> di_request_shape := Some (request_shape_of req) \<rparr>"

definition begin_call ::
  "('b, 'c, 'd, 't, 'st, 'w) serve_env \<Rightarrow> dispatch_info \<Rightarrow> arrow_field request \<Rightarrow> ('b, 'w, nat) io" where
  "begin_call E di req c =
     (let (outer, counter) = externalized_scope_new (cn_externalized c) in
      (Done (Inr outer), c\<lparr> cn_app_err := None,
         cn_stats := no_statistics\<lparr> cs_input_batches := 1, cs_input_rows := bt_rows (rq_batch req) \<rparr>,
         cn_hooks := cn_hooks c @ (if ev_hooked E then [Dispatch_Start di] else []),
         cn_externalized := counter \<rparr>))"

definition end_call :: "('b, 'c, 'd, 't, 'st, 'w) serve_env \<Rightarrow> dispatch_info \<Rightarrow> nat \<Rightarrow> ('b, 'w, unit) io" where
  "end_call E di outer =
     io_update (\<lambda>c.
       let (uploaded, counter) = externalized_scope_finish outer (cn_externalized c) in
       c\<lparr> cn_externalized := counter,
          cn_hooks := cn_hooks c
            @ (if ev_hooked E
               then [Dispatch_End (di\<lparr> di_externalized_bytes := uploaded \<rparr>) (cn_app_err c) (cn_stats c)] else []) \<rparr>)"

definition invoke_method ::
  "('b, 'c, 'd, 't, 'st, 'w) serve_env \<Rightarrow> bool \<Rightarrow> auth_context \<Rightarrow> 'b \<Rightarrow> arrow_field hosted_protocol
   \<Rightarrow> arrow_field method_info \<Rightarrow> arrow_field request \<Rightarrow> ('b, 'w, bool) io" where
  "invoke_method E used auth b bnd info req =
     (let ctx = for_request_on_connection (sv_server_id (ev_server E)) req auth;
          di = method_info_of E auth info req
      in io_bind (begin_call E di req) (\<lambda>outer.
         io_bind
           (case mi_method_type info of
              Unary \<Rightarrow> serve_unary E used (hp_name bnd) info req b ctx
            | _ \<Rightarrow> serve_stream E used (hp_name bnd) info req b ctx) (\<lambda>_.
         io_bind (end_call E di outer) (\<lambda>_. io_ret True))))"

text \<open>What the routing decision of \<^verbatim>\<open>Binding\<close> leads to.\<close>

definition serve_dispatch ::
  "('b, 'c, 'd, 't, 'st, 'w) serve_env \<Rightarrow> bool \<Rightarrow> auth_context \<Rightarrow> 'b \<Rightarrow> arrow_field dispatch \<Rightarrow> ('b, 'w, bool) io" where
  "serve_dispatch E used auth b d =
     (case d of
        Error_Stream schema err request_id tb \<Rightarrow>
          io_bind (write_error_stream (ev_shm E) (ev_to_text E) schema err (sv_server_id (ev_server E)) request_id tb)
            (\<lambda>_. io_ret True)
      | Handshake md \<Rightarrow>
          io_bind (io_of (empty_batch (ev_shm E) [])) (\<lambda>eb.
          io_bind (with_stream [] (io_bind (put_frame (Put eb (Some md))) (\<lambda>_. put_frame Close))) (\<lambda>_. io_ret True))
      | Reflect req \<Rightarrow>
          serve_reflection_logged (ev_hooked E) (ev_shm E) (ev_reflection E) (ev_hash E) (ev_server E) req b auth
            (traceback_origin (ev_server E) (rq_protocol req) (rq_method req))
      | Invoke bnd info req \<Rightarrow> invoke_method E used auth b bnd info req)"

definition serve_one :: "('b, 'c, 'd, 't, 'st, 'w) serve_env \<Rightarrow> auth_context \<Rightarrow> ('b, 'w, bool) io" where
  "serve_one E auth =
     io_bind (read_request E) (\<lambda>rd.
       case rd of
         None \<Rightarrow> io_ret False
       | Some (b, md, used) \<Rightarrow>
           (case dispatch_request (ev_show_schema E) True (ev_server E) (batch_view (ev_shm E) b) md of
              Panic \<Rightarrow> (\<lambda>c. (Panic, c))
            | Done d \<Rightarrow> serve_dispatch E used auth b d))"

definition serve_one_conn :: "('b, 'c, 'd, 't, 'st, 'w) serve_env \<Rightarrow> auth_context \<Rightarrow> ('b, 'w, bool) io" where
  "serve_one_conn E auth c =
     (case serve_one E auth c of
        (Panic, c') \<Rightarrow> (Panic, c')
      | (r, c') \<Rightarrow> (r, snd (put_frame Flush c')))"

section \<open>The loop\<close>

text \<open>No step puts input back, and reading a request takes at least one input stream.\<close>

definition consumes :: "('b, 'w, 'x) io \<Rightarrow> bool" where
  "consumes m = (\<forall>c. length (cn_inputs (snd (m c))) \<le> length (cn_inputs c))"

named_theorems consume_rules "computations that put no input back"

lemma consumesI: "(\<And>c. length (cn_inputs (snd (m c))) \<le> length (cn_inputs c)) \<Longrightarrow> consumes m"
  by (simp add: consumes_def)

lemma consumes_same: "(\<And>c. cn_inputs (snd (m c)) = cn_inputs c) \<Longrightarrow> consumes m"
  by (simp add: consumes_def)

lemma consumesD: "consumes m \<Longrightarrow> m c = (r, c') \<Longrightarrow> length (cn_inputs c') \<le> length (cn_inputs c)"
  by (metis consumes_def snd_conv)

lemma consumes_bind [consume_rules]:
  assumes "consumes m" "\<And>x. consumes (f x)"
  shows "consumes (io_bind m f)"
proof (rule consumesI)
  fix c
  obtain r c' where m: "m c = (r, c')" by fastforce
  have le: "length (cn_inputs c') \<le> length (cn_inputs c)"
    using consumesD [OF assms(1) m] .
  have "length (cn_inputs (snd (f x c'))) \<le> length (cn_inputs c)" for x
    using assms(2) [of x] le order_trans unfolding consumes_def by blast
  then show "length (cn_inputs (snd (io_bind m f c))) \<le> length (cn_inputs c)"
    using m le by (cases r rule: outcome.exhaust [case_product sum.exhaust])
      (simp_all add: io_bind_def split: outcome.split sum.split)
qed

lemma consumes_of [consume_rules]: "consumes (io_of r)"
  by (rule consumes_same) (simp add: io_of_def)

lemma consumes_update [consume_rules]: "(\<And>c. cn_inputs (u c) = cn_inputs c) \<Longrightarrow> consumes (io_update u)"
  by (rule consumes_same) (simp add: io_update_def)

lemma inputs_put [simp]: "cn_inputs (snd (put_frame fr c)) = cn_inputs c"
  by (simp add: put_frame_def split: list.split option.split)

lemma consumes_put [consume_rules]: "consumes (put_frame fr)"
  by (rule consumes_same) simp

lemma consumes_ignore [consume_rules]:
  assumes "consumes m" shows "consumes (io_ignore m)"
proof (rule consumesI)
  fix c
  obtain r c' where m: "m c = (r, c')" by fastforce
  show "length (cn_inputs (snd (io_ignore m c))) \<le> length (cn_inputs c)"
    using consumesD [OF assms m] m by (cases r) (simp_all add: io_ignore_def)
qed

lemma consumes_with_stream [consume_rules]:
  assumes "consumes body" shows "consumes (with_stream s body)"
  unfolding with_stream_def
proof (intro consumes_bind consumes_put consumesI)
  fix c :: "('a, 'b) conn"
  obtain r c' where m: "body c = (r, c')" by fastforce
  show "length (cn_inputs (snd (case body c of (Done (Inr x), c') \<Rightarrow> (Done (Inr x), c')
      | (r, c') \<Rightarrow> (r, snd (put_frame Close c'))))) \<le> length (cn_inputs c)"
    using consumesD [OF assms m] m by (cases r rule: outcome.exhaust [case_product sum.exhaust])
      (simp_all split: outcome.split sum.split)
qed

lemma consumes_open [consume_rules]: "consumes open_input"
  by (rule consumesI) (simp add: open_input_def split: list.split)

lemma consumes_at:
  assumes "\<And>c. \<exists>m c0. f c = m c0 \<and> consumes m \<and> cn_inputs c0 = cn_inputs c"
  shows "consumes f"
  using assms unfolding consumes_def by metis

lemma consumes_put_empty [consume_rules]: "consumes (put_empty S schema md)"
  unfolding put_empty_def by (intro consume_rules)

lemma consumes_put_logs [consume_rules]: "consumes (put_logs S to_text schema ms env)"
proof (induction ms arbitrary: env)
  case (Cons m ms)
  then show ?case unfolding put_logs.simps Let_def by (intro consumes_bind consumes_put_empty)
qed (simp add: consumes_of)

lemma inputs_set_segment [simp]: "cn_inputs (set_segment g c) = cn_inputs c"
  by (simp add: set_segment_def split: option.split)

lemma consumes_plain [consume_rules]:
  "consumes (route_shm E used b md)" "consumes (externalize E b schema md0)" "consumes (resolve_input E used b md)"
  "consumes (refresh_shm E md)"
  by (rule consumes_same; simp add: route_shm_def externalize_def resolve_input_def refresh_shm_def Let_def
      split: option.split prod.split outcome.split sum.split)+

lemma consumes_writes [consume_rules]:
  "consumes (put_error S to_text schema err env)" "consumes (write_error_stream S to_text schema err sid rid tb)"
  "consumes (write_unary_response S b md)" "consumes (put_failure E schema logs err env)"
  unfolding put_error_def write_error_stream_def write_unary_response_def put_failure_def Let_def
  by (intro consume_rules)+

lemma consumes_cases [consume_rules]:
  "consumes m \<Longrightarrow> (\<And>x. consumes (f x)) \<Longrightarrow> consumes (case_option m f opt)"
  "(\<And>x y. consumes (h x y)) \<Longrightarrow> consumes (case_prod h p)"
  "(\<And>x. consumes (f x)) \<Longrightarrow> (\<And>y. consumes (g y)) \<Longrightarrow> consumes (case_sum f g r)"
  "consumes m \<Longrightarrow> consumes m' \<Longrightarrow> consumes (if P then m else m')"
  by (simp_all split: option.split prod.split sum.split)

lemma consumes_unary [consume_rules]:
  "consumes (unary_value E used schema b)" "consumes (unary_ref E schema r)"
  unfolding unary_value_def unary_ref_def by (intro consume_rules; simp)+

lemma consumes_emit_items [consume_rules]: "consumes (emit_items E used schema items env)"
  by (induction E used schema items env rule: emit_items.induct)
    (simp_all only: emit_items.simps emit_data_def, (intro consume_rules; simp add: count_output_def)+)

lemma consumes_app [consume_rules]: "consumes (io_app f)"
  by (rule consumes_same) (simp add: io_app_def split: prod.split)

lemma consumes_serve_unary [consume_rules]: "consumes (serve_unary E used protocol info req b ctx)"
  unfolding serve_unary_def Let_def by (intro consume_rules; simp)

lemma consumes_ticks [consume_rules]:
  "consumes (cancel_stream E schema st ctx env)" "consumes (stream_tick E used schema input_schema ctx input se)"
  unfolding cancel_stream_def stream_tick_def Let_def by (intro consume_rules; simp)+

lemma consumes_lockstep [consume_rules]: "consumes (lockstep E used schema input_schema ctx reads se)"
proof (induction reads arbitrary: se)
  case (Cons r reads)
  show ?case
  proof (cases r)
    case (Inr p)
    obtain b md where "p = (b, md)" by fastforce
    with Inr show ?thesis
      by (simp only: lockstep.simps Let_def) (intro consume_rules Cons.IH; simp add: count_input_def)
  qed (simp add: consumes_of)
qed (simp add: consumes_of)

lemma consumes_serve_stream [consume_rules]: "consumes (serve_stream E used protocol info req b ctx)"
  unfolding serve_stream_def put_header_def stream_body_def Let_def by (intro consume_rules; simp)

lemma consumes_calls [consume_rules]: "consumes (begin_call E di req)" "consumes (end_call E di outer)"
  by (rule consumes_same; simp add: begin_call_def end_call_def io_update_def Let_def split: prod.split)+

lemma consumes_invoke [consume_rules]: "consumes (invoke_method E used auth b bnd info req)"
  unfolding invoke_method_def Let_def
  by (cases "mi_method_type info") (simp_all only: method_type.case, (intro consume_rules)+)

lemma consumes_reflection [consume_rules]: "consumes (serve_reflection S A H sv req b tb)"
  unfolding serve_reflection_def
  by (intro consumes_bind consumes_of) (simp split: reflection_reply.split; intro conjI allI impI; intro consume_rules)

lemma consumes_reflection_logged [consume_rules]:
  "consumes (serve_reflection_logged hooked S A H sv req b auth tb :: ('b, 'w, bool) io)"
proof (rule consumesI)
  fix c :: "('b, 'w) conn"
  define c0 where "c0 = c\<lparr> cn_hooks := cn_hooks c @ [Dispatch_Start ((dispatch_info_from_request H sv req ''unary'' auth)
    \<lparr> di_request_shape := Some (request_shape_of req) \<rparr>)] \<rparr>"
  obtain x c' where s: "serve_reflection S A H sv req b tb c0 = (x, c')" by fastforce
  then have "length (cn_inputs c') \<le> length (cn_inputs c)"
    using consumesD [OF consumes_reflection s] by (simp add: c0_def)
  moreover have "length (cn_inputs (snd (serve_reflection S A H sv req b tb c))) \<le> length (cn_inputs c)"
    by (rule consumes_reflection [unfolded consumes_def, rule_format])
  ultimately show "length (cn_inputs (snd (serve_reflection_logged hooked S A H sv req b auth tb c))) \<le> length (cn_inputs c)"
    using s by (cases x) (simp_all add: serve_reflection_logged_def Let_def flip: c0_def)
qed

lemma consumes_dispatch [consume_rules]: "consumes (serve_dispatch E used auth b d)"
  by (cases d) (simp_all only: serve_dispatch_def dispatch.case, (intro consume_rules)+)

lemma read_request_consumes:
  assumes "read_request E c = (Done (Inr (Some x)), c')"
  shows "length (cn_inputs c') < length (cn_inputs c)"
proof (cases "cn_inputs c")
  case Nil
  then show ?thesis
    using assms by (simp add: read_request_def open_input_def split: if_split_asm)
next
  case (Cons i rest)
  obtain b md reads where i: "in_open i = Inr ()" "in_reads i = Inr (b, md) # reads"
    using assms Cons
    by (cases "in_open i"; cases "in_reads i"; cases "hd (in_reads i)")
      (auto simp: read_request_def open_input_def split: if_split_asm)
  then have "accept_request E b md reads (c\<lparr> cn_inputs := rest \<rparr>) = (Done (Inr (Some x)), c')"
    using assms Cons by (simp add: read_request_def open_input_def)
  moreover have "consumes (accept_request E b md reads)"
    unfolding accept_request_def Let_def by (intro consume_rules)
  ultimately show ?thesis
    using Cons consumesD by fastforce
qed

lemma serve_one_consumes:
  assumes "serve_one_conn E auth c = (Done (Inr True), c')"
  shows "length (cn_inputs c') < length (cn_inputs c)"
proof -
  obtain rd c1 where rd: "read_request E c = (rd, c1)" by fastforce
  obtain r c2 where one: "serve_one E auth c = (r, c2)" by fastforce
  have r: "r = Done (Inr True)" "cn_inputs c' = cn_inputs c2"
    using assms one inputs_put [of Flush c2] by (cases r; simp add: serve_one_conn_def)+
  then obtain b md used where x: "rd = Done (Inr (Some (b, md, used)))"
    using one rd by (auto simp: serve_one_def io_bind_def io_of_def split: outcome.split_asm sum.split_asm option.split_asm)
  then obtain d where "serve_dispatch E used auth b d c1 = (r, c2)"
    using one rd r by (auto simp: serve_one_def io_bind_def split: outcome.split_asm)
  then have "length (cn_inputs c2) \<le> length (cn_inputs c1)"
    by (rule consumesD [OF consumes_dispatch])
  then show ?thesis
    using read_request_consumes [of E c "(b, md, used)" c1] rd x r(2) by simp
qed

text \<open>The loop ends with the input, on an error, or with a panic, which ends the serving thread.\<close>

function serve_loop ::
  "('b, 'c, 'd, 't, 'st, 'w) serve_env \<Rightarrow> auth_context \<Rightarrow> ('b, 'w) conn \<Rightarrow> unit outcome \<times> ('b, 'w) conn" where
  "serve_loop E auth c =
     (case serve_one_conn E auth c of
        (Done (Inr True), c') \<Rightarrow> serve_loop E auth c'
      | (Done _, c') \<Rightarrow> (Done (), c')
      | (Panic, c') \<Rightarrow> (Panic, c'))"
  by pat_completeness auto
termination
  by (relation "measure (\<lambda>(_, _, c). length (cn_inputs c))") (auto dest!: sym serve_one_consumes)

declare serve_loop.simps [simp del]

definition no_segment :: connection_shm where
  "no_segment = \<lparr> cs_name = None, cs_segment = None \<rparr>"

definition serve_with_context ::
  "('b, 'c, 'd, 't, 'st, 'w) serve_env \<Rightarrow> auth_context \<Rightarrow> ('b, 'w) conn \<Rightarrow> unit outcome \<times> ('b, 'w) conn" where
  "serve_with_context E auth c = serve_loop E auth (c\<lparr> cn_shm := no_segment \<rparr>)"

definition serve :: "('b, 'c, 'd, 't, 'st, 'w) serve_env \<Rightarrow> ('b, 'w) conn \<Rightarrow> unit outcome \<times> ('b, 'w) conn" where
  "serve E c = serve_with_context E anonymous c"

text \<open>With a shutdown signal: \<open>shutdown i\<close> is the answer to the poll before request \<open>i\<close>.\<close>

function serve_until ::
  "('b, 'c, 'd, 't, 'st, 'w) serve_env \<Rightarrow> auth_context \<Rightarrow> (nat \<Rightarrow> bool) \<Rightarrow> nat \<Rightarrow> ('b, 'w) conn
   \<Rightarrow> unit outcome \<times> ('b, 'w) conn" where
  "serve_until E auth shutdown i c =
     (if shutdown i then (Done (), c)
      else case serve_one_conn E auth c of
        (Done (Inr True), c') \<Rightarrow> serve_until E auth shutdown (Suc i) c'
      | (Done _, c') \<Rightarrow> (Done (), c')
      | (Panic, c') \<Rightarrow> (Panic, c'))"
  by pat_completeness auto
termination
  by (relation "measure (\<lambda>(_, _, _, _, c). length (cn_inputs c))") (auto dest!: sym serve_one_consumes)

declare serve_until.simps [simp del]

definition serve_with_context_and_shutdown ::
  "('b, 'c, 'd, 't, 'st, 'w) serve_env \<Rightarrow> auth_context \<Rightarrow> (nat \<Rightarrow> bool) \<Rightarrow> ('b, 'w) conn
   \<Rightarrow> unit outcome \<times> ('b, 'w) conn" where
  "serve_with_context_and_shutdown E auth shutdown c = serve_until E auth shutdown 0 (c\<lparr> cn_shm := no_segment \<rparr>)"

definition serve_with_shutdown ::
  "('b, 'c, 'd, 't, 'st, 'w) serve_env \<Rightarrow> (nat \<Rightarrow> bool) \<Rightarrow> ('b, 'w) conn \<Rightarrow> unit outcome \<times> ('b, 'w) conn" where
  "serve_with_shutdown E shutdown c = serve_with_context_and_shutdown E anonymous shutdown c"

end
