(* ===== verification/Serve_Spec.thy ===== *)
theory Serve_Spec
  imports Serve
begin

text \<open>
  What the serve loop writes: the contract of the crates and of application code, a rule for every step of
  \<^verbatim>\<open>Serve\<close>, and the properties of the loop. Strict mode is the case in which no write fails.
\<close>

section \<open>What the loop relies on\<close>

text \<open>A unary handler answers with the declared result schema.\<close>

definition handlers_typed :: "('b, 'c, 'd, 't, 'st, 'w) serve_env \<Rightarrow> bool" where
  "handlers_typed E =
     (\<forall>bnd info req b ctx w out logs ref w'.
        resolve_binding (ev_server E) (hp_name bnd) = Some bnd \<longrightarrow> map_of (hp_methods bnd) (rq_method req) = Some info \<longrightarrow>
        ap_unary (ev_application E) (hp_name bnd) req b ctx w = (Done (Inr (Some out)), logs, ref, w') \<longrightarrow>
        sa_schema (ev_shm E) out = mi_result_schema info)"

text \<open>Every answer of reflection can be built.\<close>

definition reflection_total :: "('b, 'c, 'd, 't, 'st, 'w) serve_env \<Rightarrow> bool" where
  "reflection_total E =
     (let A = ev_reflection E in
      list_all (describable (he_debug (ev_hash E))) (map snd (sv_methods (ev_server E)))
      \<and> (\<forall>x e. ra_ipc_open A x \<noteq> Inl e) \<and> (\<forall>x y e. ra_ipc_write A x y \<noteq> Inl e) \<and> (\<forall>x e. ra_ipc_finish A x \<noteq> Inl e)
      \<and> (\<forall>x e. ra_protocol_list A x \<noteq> Inl e) \<and> (\<forall>x e. ra_service_description A x \<noteq> Inl e)
      \<and> (\<forall>x e. ra_result A x \<noteq> Inl e))"

definition sound_env :: "('b, 'c, 'd, 't, 'st, 'w) serve_env \<Rightarrow> bool \<Rightarrow> bool" where
  "sound_env E n =
     (empties_ok (ev_shm E) n \<and> application_ok (ev_shm E) (ev_show_schema E) (ev_application E) \<and> handlers_typed E
      \<and> (n \<longrightarrow> reflection_total E))"

section \<open>What each step writes\<close>

lemma sound_empties: "sound_env E n \<Longrightarrow> empties_ok (ev_shm E) n"
  by (simp add: sound_env_def)

lemma put_failure_triple [io_rules]:
  assumes "sound_env E n"
  shows "io_triple (at_pos (ev_shm E) n is (Between k)) (put_failure E s logs err env)
    (\<lambda>_. at_pos (ev_shm E) n is (Between (Suc k))) (failed (ev_shm E) n)"
  unfolding put_failure_def
  by (intro with_stream_triple io_triple_bind [OF put_logs_triple] io_triple_bind [OF put_error_triple] put_in_stream
      sound_empties [OF assms])

lemma pointer_schema:
  assumes "empties_ok S n" "maybe_write_to_shm W S t b md g = (Done (Inr (w, wmd)), g')"
  shows "sa_schema S w = sa_schema S b"
  using assms
  by (auto simp: maybe_write_to_shm_def make_shm_pointer_batch_def empties_ok_def result_simps and_then_Inr_iff Let_def
      split: option.split_asm if_split_asm prod.split_asm outcome.split_asm sum.split_asm)

lemma at_pos_set_segment [simp]: "at_pos S n is st (set_segment g c) = at_pos S n is st c"
  by (simp add: set_segment_def split: option.split)

lemma route_shm_triple [io_rules]:
  assumes "sound_env E n" "n \<Longrightarrow> \<not> used" "sa_schema (ev_shm E) b = s"
  shows "io_triple (at_pos (ev_shm E) n is (Inside k s)) (route_shm E used b md)
    (\<lambda>p c. list_all (\<lambda>(w, _). sa_schema (ev_shm E) w = s) (case p of None \<Rightarrow> [] | Some x \<Rightarrow> [x])
       \<and> at_pos (ev_shm E) n is (Inside k s) c) (left_open (ev_shm E) n k s)"
proof (rule io_tripleI, goal_cases)
  case c: (1 c)
  have l: "left_open (ev_shm E) n k s (set_segment g c)" if "used" for g
    using c assms(2) that by (auto simp: at_pos_def left_open_def set_segment_def split: option.split)
  show ?case
  proof (cases "shm_ref used c")
    case (Some g)
    then have u: "used" by (auto simp: shm_ref_def split: if_split_asm)
    obtain r g' where r: "maybe_write_to_shm (xa_writer (ev_api E)) (ev_shm E) (ev_shm_threshold E) b md (Some g) = (r, g')"
      by fastforce
    show ?thesis
    proof (cases r rule: outcome_cases)
      case (ok x)
      then show ?thesis
        using Some r c pointer_schema [OF sound_empties [OF assms(1)]] assms(3) by (cases x) (auto simp: route_shm_def)
    qed (use Some r l [OF u] in \<open>auto simp: route_shm_def\<close>)
  qed (use c in \<open>simp add: route_shm_def\<close>)
qed

lemma externalized_schema:
  assumes "empties_ok (xa_shm X) n" "maybe_externalize_batch X b s md cfg cw = (Inr (Some (p, pmd)), cw')"
  shows "sa_schema (xa_shm X) p = s"
  using assms
  by (auto simp: maybe_externalize_batch_def prepare_externalize_batch_def prepare_externalize_batch_inner_def
      upload_prepared_def empties_ok_def and_then_Inr_iff Let_def
      split: option.split_asm if_split_asm prod.split_asm sum.split_asm)

lemma externalize_triple [io_rules]:
  assumes "sound_env E n"
  shows "io_triple (at_pos (ev_shm E) n is (Inside k s)) (externalize E b s md)
    (\<lambda>x c. (\<forall>p pmd. x = Inr (Some (p, pmd)) \<longrightarrow> sa_schema (ev_shm E) p = s) \<and> at_pos (ev_shm E) n is (Inside k s) c)
    (left_open (ev_shm E) n k s)"
  using externalized_schema [OF sound_empties [OF assms]]
  by (intro io_tripleI) (fastforce simp: externalize_def split: option.split prod.split)

lemma put_last_triple:
  "sa_schema S b = s \<Longrightarrow> io_triple (at_pos S n is (Inside k s)) (io_bind (put_frame (Put b md)) (\<lambda>_. put_frame Close))
     (\<lambda>_. at_pos S n is (Between (Suc k))) (left_open S n k s)"
  by (intro io_triple_bind [OF put_in_stream(1)] put_in_stream)

lemma stats_triple [io_rules]:
  "io_triple (at_pos S n is st) (io_update (\<lambda>c. c\<lparr> cn_stats := f c \<rparr>)) (\<lambda>_. at_pos S n is st) R"
  "io_triple (at_pos S n is st) (io_update (count_output r)) (\<lambda>_. at_pos S n is st) R"
  "io_triple (at_pos S n is st) (io_update (count_input r)) (\<lambda>_. at_pos S n is st) R"
  "io_triple (at_pos S n is st) (io_update (\<lambda>c. c\<lparr> cn_app_err := e \<rparr>)) (\<lambda>_. at_pos S n is st) R"
  by (rule update_triple; simp add: count_output_def count_input_def)+

lemma unary_out_triple:
  assumes "sound_env E n" "\<And>out. b = Some out \<Longrightarrow> sa_schema (ev_shm E) out = s"
  shows "io_triple (at_pos (ev_shm E) n is (Inside k s))
    (case b of Some b \<Rightarrow> io_ret b | None \<Rightarrow> io_of (empty_batch (ev_shm E) s))
    (\<lambda>out c. sa_schema (ev_shm E) out = s \<and> at_pos (ev_shm E) n is (Inside k s) c) (left_open (ev_shm E) n k s)"
  using assms(2) by (cases b) (auto intro: empty_triple sound_empties [OF assms(1)] io_triple_of)

lemma triple_cases:
  "(p = None \<Longrightarrow> io_triple P m Q R) \<Longrightarrow> (\<And>x. p = Some x \<Longrightarrow> io_triple P (f x) Q R) \<Longrightarrow> io_triple P (case_option m f p) Q R"
  "(\<And>x y. q = (x, y) \<Longrightarrow> io_triple P (g x y) Q R) \<Longrightarrow> io_triple P (case_prod g q) Q R"
  "(\<And>x. r = Inl x \<Longrightarrow> io_triple P (h x) Q R) \<Longrightarrow> (\<And>x. r = Inr x \<Longrightarrow> io_triple P (i x) Q R)
   \<Longrightarrow> io_triple P (case_sum h i r) Q R"
  "(C \<Longrightarrow> io_triple P m Q R) \<Longrightarrow> (\<not> C \<Longrightarrow> io_triple P m' Q R) \<Longrightarrow> io_triple P (if C then m else m') Q R"
  by (simp_all split: option.split prod.split sum.split)

lemma unary_value_triple:
  assumes "sound_env E n" "n \<Longrightarrow> \<not> used" "\<And>out. b = Some out \<Longrightarrow> sa_schema (ev_shm E) out = s"
  shows "io_triple (at_pos (ev_shm E) n is (Inside k s)) (unary_value E used s b)
    (\<lambda>_. at_pos (ev_shm E) n is (Between (Suc k))) (left_open (ev_shm E) n k s)"
  unfolding unary_value_def
  by (rule io_triple_bind [OF unary_out_triple [OF assms(1)]], erule assms(3), rule io_triple_fact,
      rule io_triple_bind [OF stats_triple(1)], rule io_triple_bind [OF route_shm_triple [OF assms(1,2)]], assumption,
      assumption, rule io_triple_fact,
      intro triple_cases put_last_triple io_triple_bind [OF externalize_triple [OF assms(1)]] io_triple_fact; simp)

lemma unary_ref_triple:
  assumes "sound_env E n"
  shows "io_triple (at_pos (ev_shm E) n is (Inside k s)) (unary_ref E s r)
    (\<lambda>_. at_pos (ev_shm E) n is (Between (Suc k))) (left_open (ev_shm E) n k s)"
proof -
  have "io_triple (at_pos (ev_shm E) n is (Inside k s)) (io_of (pointer_batch (ev_shm E) r s))
      (\<lambda>p c. sa_schema (ev_shm E) (fst p) = s \<and> at_pos (ev_shm E) n is (Inside k s) c) (left_open (ev_shm E) n k s)"
    using sound_empties [OF assms]
    by (intro io_triple_of)
      (auto simp: pointer_batch_def empties_ok_def and_then_Inr_iff and_then_Inl_iff at_pos_def left_open_def Let_def)
  then show ?thesis
    unfolding unary_ref_def
    by (rule io_triple_bind) (intro io_triple_fact triple_cases io_triple_bind [OF stats_triple(1)] put_last_triple; simp)
qed

lemma app_fact_triple:
  assumes "\<And>w. F (fst (f w))"
  shows "io_triple (at_pos S n is st) (io_app f) (\<lambda>x c. F x \<and> at_pos S n is st c) R"
proof (rule io_tripleI, goal_cases)
  case (1 c)
  then show ?case
    using assms [of "cn_world c"] by (cases "f (cn_world c)") (simp add: io_app_def)
qed

lemma guarded_Inr: "guarded r = Inr x \<longleftrightarrow> r = Done (Inr x)"
  by (cases r rule: outcome_cases) (simp_all add: guarded_def call_guard_def)

lemma serve_unary_triple:
  assumes "sound_env E n" "n \<Longrightarrow> \<not> used"
    and bnd: "resolve_binding (ev_server E) p = Some bnd" "map_of (hp_methods bnd) (rq_method req) = Some info"
  shows "io_triple (at_pos (ev_shm E) n is (Between k)) (serve_unary E used p info req b ctx)
    (\<lambda>_. at_pos (ev_shm E) n is (Between (Suc k))) (failed (ev_shm E) n)"
proof -
  have typed: "sa_schema (ev_shm E) out = mi_result_schema info"
    if "ap_unary (ev_application E) p req b ctx w = (Done (Inr (Some out)), logs, ref, w')" for out logs ref w w'
    using assms(1) that bnd resolve_binding_Some(1) [OF bnd(1)] unfolding sound_env_def handlers_typed_def by blast
  show ?thesis
    unfolding serve_unary_def Let_def
  proof (rule io_triple_bind [OF app_fact_triple
        [where F = "\<lambda>(r, logs, ref). \<forall>out. r = Inr (Some out) \<longrightarrow> sa_schema (ev_shm E) out = mi_result_schema info"]], goal_cases)
    case (1 w)
    then show ?case by (auto simp: guarded_Inr intro: typed split: prod.split)
  next
    case (2 x)
    show ?case
      by (intro io_triple_fact triple_cases io_triple_bind [OF put_failure_triple [OF assms(1)]] stats_triple
          with_stream_triple io_triple_bind [OF put_logs_triple] sound_empties [OF assms(1)] unary_ref_triple
          unary_value_triple assms(1,2)) auto
  qed
qed

section \<open>Streams\<close>

lemma emit_data_triple:
  assumes "sound_env E n" "n \<Longrightarrow> \<not> used" "sa_schema (ev_shm E) b = s"
  shows "io_triple (at_pos (ev_shm E) n is (Inside k s)) (emit_data E used s b md)
    (\<lambda>_. at_pos (ev_shm E) n is (Inside k s)) (left_open (ev_shm E) n k s)"
  unfolding emit_data_def
  by (rule io_triple_bind [OF stats_triple(2)], rule io_triple_bind [OF route_shm_triple [OF assms]], assumption,
      rule io_triple_fact,
      intro triple_cases put_in_stream io_triple_bind [OF externalize_triple [OF assms(1)]]
        io_triple_bind [OF stats_triple(4)] io_triple_fact)
    (simp_all add: assms(3))

lemma emit_items_triple:
  assumes "sound_env E n" "n \<Longrightarrow> \<not> used" "list_all (\<lambda>b. sa_schema (ev_shm E) b = s) (data_items items)"
  shows "io_triple (at_pos (ev_shm E) n is (Inside k s)) (emit_items E used s items env)
    (\<lambda>_. at_pos (ev_shm E) n is (Inside k s)) (left_open (ev_shm E) n k s)"
  using assms(3)
proof (induction items arbitrary: env)
  case (Cons i items)
  then show ?case
    by (cases i)
      (auto intro!: io_triple_bind [OF emit_data_triple [OF assms(1,2)]]
        io_triple_bind [OF put_logs_triple [OF sound_empties [OF assms(1)]]] simp del: put_logs.simps)
qed (simp add: ret_triple)

lemma turn_typed:
  assumes "sound_env E n" "run_turn (ev_application E) st input (collector_new s p) ctx w = (st', t)"
  shows "list_all (\<lambda>b. sa_schema (ev_shm E) b = s) (data_items (oc_items (tn_out t)))"
proof -
  have "collector_reach (ev_shm E) (ev_show_schema E) (collector_new s p) (tn_out t)"
    using assms by (cases st) (auto simp: run_turn_def Let_def sound_env_def application_ok_def)
  then show ?thesis
    using collector_ok_reach [of "ev_shm E" "ev_show_schema E" "collector_new s p" "tn_out t"]
    by (auto simp: collector_ok_def collector_new_def)
qed

lemma stream_tick_triple:
  assumes "sound_env E n" "n \<Longrightarrow> \<not> used"
  shows "io_triple (at_pos (ev_shm E) n is (Inside k s)) (stream_tick E used s input_schema ctx input se)
    (\<lambda>_. at_pos (ev_shm E) n is (Inside k s)) (left_open (ev_shm E) n k s)"
proof (cases se)
  case (Pair st env)
  show ?thesis
  proof (cases "cast_input E input_schema input")
    case (Inl e)
    then show ?thesis
      using Pair by (auto simp: stream_tick_def intro!: io_triple_bind [OF put_error_triple] ret_triple sound_empties [OF assms(1)])
  next
    case (Inr casted)
    show ?thesis
      unfolding stream_tick_def Pair Inr prod.case sum.case
    proof (rule io_triple_bind [OF app_fact_triple
          [where F = "\<lambda>(st', t). list_all (\<lambda>b. sa_schema (ev_shm E) b = s) (data_items (oc_items (tn_out t)))"]], goal_cases)
      case (1 w)
      then show ?case by (auto intro: turn_typed [OF assms(1)] split: prod.split)
    next
      case (2 x)
      show ?case
        by (intro triple_cases io_triple_bind [OF put_error_triple] io_triple_fact
            io_triple_bind [OF put_logs_triple] io_triple_bind [OF stats_triple(4)] ret_triple
            io_triple_bind [OF emit_items_triple] io_triple_bind [OF put_in_stream(3)] sound_empties [OF assms(1)] assms) auto
    qed
  qed
qed

lemma cancel_stream_triple:
  assumes "sound_env E n"
  shows "io_triple (at_pos (ev_shm E) n is (Inside k s)) (cancel_stream E s st ctx env)
    (\<lambda>_. at_pos (ev_shm E) n is (Inside k s)) (left_open (ev_shm E) n k s)"
  unfolding cancel_stream_def Let_def
  by (intro triple_cases io_triple_bind [OF put_error_triple] io_triple_bind [OF app_triple]
      io_triple_bind [OF put_logs_triple] stats_triple ret_triple sound_empties [OF assms(1)])

lemma resolve_input_triple:
  assumes "n \<Longrightarrow> \<not> used"
  shows "io_triple (at_pos S n is (Inside k s)) (resolve_input E used b md)
    (\<lambda>_. at_pos S n is (Inside k s)) (left_open S n k s)"
proof (rule io_tripleI, goal_cases)
  case c: (1 c)
  obtain r g where r: "resolve_shm_batch (xa_arrow (ev_api E)) (ev_shm E) b md (shm_ref used c) = (r, g)" by fastforce
  show ?case
  proof (cases r)
    case (Inl e)
    then have "used"
      using r by (auto simp: shm_ref_def resolve_shm_batch_def Let_def split: if_split_asm)
    then show ?thesis
      using Inl r c assms by (auto simp: resolve_input_def at_pos_def left_open_def set_segment_def split: option.split)
  qed (use r c in \<open>simp add: resolve_input_def Let_def\<close>)
qed

lemma lockstep_triple:
  assumes "sound_env E n" "n \<Longrightarrow> \<not> used"
  shows "io_triple (at_pos (ev_shm E) n is (Inside k s)) (lockstep E used s input_schema ctx reads se)
    (\<lambda>_. at_pos (ev_shm E) n is (Inside k s)) (left_open (ev_shm E) n k s)"
proof (induction reads arbitrary: se)
  case (Cons r reads)
  show ?case
  proof (cases r)
    case (Inr p)
    obtain b md where "p = (b, md)" by fastforce
    with Inr show ?thesis
      by (simp only: lockstep.simps Let_def)
        (intro io_triple_bind [OF resolve_input_triple] triple_cases io_triple_bind [OF stats_triple(3)] cancel_stream_triple io_triple_bind [OF stream_tick_triple] ret_triple Cons.IH assms)
  qed (simp add: ret_triple)
qed (simp add: ret_triple)

text \<open>A call is answered by one stream, or by two when it has a header.\<close>

definition answered ::
  "(schema, 'b) shm_api \<Rightarrow> bool \<Rightarrow> 'b input_stream list \<Rightarrow> nat \<Rightarrow> ('b, 'w) conn \<Rightarrow> bool" where
  "answered S n is k c = (\<exists>j. k < j \<and> j \<le> k + 2 \<and> at_pos S n is (Between j) c)"

lemma answered_post:
  "io_triple P m (\<lambda>_. at_pos S n is (Between j)) R \<Longrightarrow> k < j \<Longrightarrow> j \<le> k + 2 \<Longrightarrow> io_triple P m (\<lambda>_. answered S n is k) R"
  by (erule io_triple_post) (auto simp: answered_def)

lemma put_header_triple:
  assumes "sound_env E n"
  shows "io_triple (at_pos (ev_shm E) n is (Between k)) (put_header E logs h md env)
    (\<lambda>_. at_pos (ev_shm E) n is (Between (if h = None then k else Suc k))) (failed (ev_shm E) n)"
proof (cases h)
  case (Some hb)
  then show ?thesis
    unfolding put_header_def Let_def
    by (auto intro!: with_stream_triple io_triple_bind [OF put_logs_triple] io_triple_bind [OF put_in_stream(1)]
        io_triple_bind [OF put_in_stream(2)] ret_triple sound_empties [OF assms])
qed (simp add: put_header_def ret_triple)

lemma stream_body_triple:
  assumes "sound_env E n" "n \<Longrightarrow> \<not> used" "n \<Longrightarrow> is \<noteq> [] \<and> in_open (hd is) = Inr ()"
  shows "io_triple (at_pos (ev_shm E) n is (Between k)) (stream_body E used logs r ctx env)
    (\<lambda>_. at_pos (ev_shm E) n (tl is) (Between (Suc k))) (failed (ev_shm E) n)"
proof -
  have e: "io_triple (at_pos (ev_shm E) n js (Inside k s)) (io_of (empty_batch (ev_shm E) s))
      (\<lambda>_. at_pos (ev_shm E) n js (Inside k s)) (left_open (ev_shm E) n k s)" for js s
    by (rule io_triple_post [OF empty_triple [OF sound_empties [OF assms(1)]]]) auto
  show ?thesis
    unfolding stream_body_def Let_def
    by (intro with_stream_triple io_triple_bind [OF put_in_stream(3)] io_triple_bind [OF open_triple [OF assms(3)]]
        io_triple_bind [OF e] io_triple_bind [OF triple_cases(4) [OF put_logs_triple ret_triple]]
        io_triple_bind [OF lockstep_triple] put_in_stream(2) sound_empties [OF assms(1)] assms)
qed

lemma serve_stream_triple:
  assumes "sound_env E n" "n \<Longrightarrow> \<not> used" "n \<Longrightarrow> is \<noteq> [] \<and> in_open (hd is) = Inr ()"
  shows "io_triple (at_pos (ev_shm E) n is (Between k)) (serve_stream E used p info req b ctx)
    (\<lambda>_. answered (ev_shm E) n (tl is) k) (failed (ev_shm E) n)"
proof -
  have fail: "io_triple (at_pos (ev_shm E) n is (Between k))
      (io_bind (put_failure E (mi_result_schema info) logs err env) (\<lambda>_.
       io_bind (io_ignore open_input) (\<lambda>_. io_update (\<lambda>c. c\<lparr> cn_app_err := Some err \<rparr>))))
      (\<lambda>_. answered (ev_shm E) n (tl is) k) (failed (ev_shm E) n)" for logs err env
    by (rule answered_post [where j = "Suc k"], intro io_triple_bind [OF put_failure_triple [OF assms(1)]]
        io_triple_bind [OF ignore_open_triple] stats_triple(4)) simp_all
  have ok: "io_triple (at_pos (ev_shm E) n is (Between k))
      (io_bind (put_header E logs h md env) (\<lambda>env. io_bind (io_ignore (put_frame Flush)) (\<lambda>_. stream_body E used logs r ctx env)))
      (\<lambda>_. answered (ev_shm E) n (tl is) k) (failed (ev_shm E) n)" for logs h md env r
    by (rule answered_post [where j = "Suc (if h = None then k else Suc k)"],
        intro io_triple_bind [OF put_header_triple [OF assms(1)]] io_triple_bind [OF ignore_flush_triple]
        stream_body_triple assms) simp_all
  show ?thesis
    unfolding serve_stream_def Let_def by (intro io_triple_bind [OF app_triple] triple_cases fail ok)
qed

section \<open>Requests\<close>

lemma failed_hooks [simp]: "failed S n (c\<lparr> cn_hooks := h \<rparr>) = failed S n c"
  by (simp add: failed_def)

lemma map_err_Inl_iff: "map_err g m = Inl e \<longleftrightarrow> (\<exists>e'. m = Inl e' \<and> e = g e')"
  by (cases m) auto

lemma build_rows_total:
  assumes "\<forall>x e. ra_ipc_open A x \<noteq> Inl e" "\<forall>x e. ra_ipc_finish A x \<noteq> Inl e"
  shows "build_method_rows A infos \<noteq> Inl e"
proof -
  have "schema_to_ipc A x \<noteq> Inl e" for x e
    using assms by (simp add: schema_to_ipc_def and_then_Inl_iff map_err_Inl_iff)
  then have "build_method_row A info \<noteq> Inl e" for info e
    by (simp add: build_method_row_def and_then_Inl_iff split: option.split)
  then show ?thesis
    by (induction infos) (simp_all add: and_then_Inl_iff)
qed

lemma reflection_answer_total:
  assumes "sound_env E True"
  shows "reflection_answer (ev_reflection E) (ev_hash E) (ev_server E) m b \<noteq> Inl e"
proof -
  let ?A = "ev_reflection E"
  have t: "list_all (describable (he_debug (ev_hash E))) (map snd (sv_methods (ev_server E)))"
    "\<forall>x e. ra_ipc_open ?A x \<noteq> Inl e" "\<forall>x e. ra_ipc_finish ?A x \<noteq> Inl e"
    "\<forall>x e. ra_protocol_list ?A x \<noteq> Inl e" "\<forall>x e. ra_service_description ?A x \<noteq> Inl e"
    using assms by (simp_all add: sound_env_def reflection_total_def Let_def)
  have "build_protocol_list ?A x y z ps \<noteq> Inl e" for x y z ps e
    using t(4) by (simp add: build_protocol_list_def map_err_Inl_iff)
  moreover have "build_service_description ?A p v h ms \<noteq> Inl e" for p v h ms e
    using build_rows_total [OF t(2,3)] t(5) by (simp add: build_service_description_def and_then_Inl_iff map_err_Inl_iff)
  moreover obtain x y where "table_hash (ev_hash E) (sv_protocol_name (ev_server E)) (sv_methods (ev_server E)) = Inr x"
    "table_hash (ev_hash E) REFLECTION_PROTOCOL_NAME reflection_methods = Inr y"
    using table_hash_ok [OF t(1)] table_hash_ok [OF reflection_describable] by metis
  ultimately show ?thesis
    by (simp add: reflection_answer_def describe_protocol_def and_then_Inl_iff split: option.split)
qed

lemma of_triple:
  assumes "n \<Longrightarrow> \<forall>e. r \<noteq> Inl e"
  shows "io_triple (at_pos S n is st) (io_of r) (\<lambda>_. at_pos S n is st) (failed S n)"
  using assms by (intro io_triple_of) (auto simp: at_pos_def failed_def)

lemma serve_reflection_triple:
  assumes "sound_env E n"
  shows "io_triple (at_pos (ev_shm E) n is (Between k))
    (serve_reflection (ev_shm E) (ev_reflection E) (ev_hash E) (ev_server E) req b tb)
    (\<lambda>_. at_pos (ev_shm E) n is (Between (Suc k))) (failed (ev_shm E) n)"
proof -
  have a: "io_triple (at_pos (ev_shm E) n is (Between k))
      (io_of (reflection_answer (ev_reflection E) (ev_hash E) (ev_server E) (rq_method req) b))
      (\<lambda>_. at_pos (ev_shm E) n is (Between k)) (failed (ev_shm E) n)"
    using reflection_answer_total [of E] assms by (intro of_triple) (cases n; simp)
  have b: "io_triple (at_pos (ev_shm E) n is (Between k)) (io_of (batch_to_ipc (ev_shm E) (ev_reflection E) x))
      (\<lambda>_. at_pos (ev_shm E) n is (Between k)) (failed (ev_shm E) n)" for x
    using assms by (intro of_triple)
      (auto simp: sound_env_def reflection_total_def Let_def batch_to_ipc_def and_then_Inl_iff map_err_Inl_iff)
  have c: "io_triple (at_pos (ev_shm E) n is (Between k)) (io_of (map_err g (ra_result (ev_reflection E) x)))
      (\<lambda>_. at_pos (ev_shm E) n is (Between k)) (failed (ev_shm E) n)" for x g
    using assms by (intro of_triple) (auto simp: sound_env_def reflection_total_def Let_def map_err_Inl_iff)
  show ?thesis
    unfolding serve_reflection_def
  proof (rule io_triple_bind [OF a])
    fix answer
    show "io_triple (at_pos (ev_shm E) n is (Between k)) (case answer of
         Answer_Error err \<Rightarrow>
           io_bind (write_error_stream (ev_shm E) (he_to_text (ev_hash E)) [] err (sv_server_id (ev_server E)) (rq_request_id req) tb)
             (\<lambda>_. io_ret True)
       | Answer_Batch batch \<Rightarrow>
           io_bind (io_of (batch_to_ipc (ev_shm E) (ev_reflection E) batch)) (\<lambda>nested.
           io_bind (io_of (map_err (\<lambda>e. protocol_error (''building reflection result: '' @ e)) (ra_result (ev_reflection E) nested))) (\<lambda>out.
           io_bind (write_unary_response (ev_shm E) out (build_envelope_metadata (sv_server_id (ev_server E)) (rq_request_id req))) (\<lambda>_.
           io_ret True))))
      (\<lambda>_. at_pos (ev_shm E) n is (Between (Suc k))) (failed (ev_shm E) n)"
      by (cases answer)
        (auto intro!: io_triple_bind [OF write_error_stream_triple] io_triple_bind [OF b] io_triple_bind [OF c]
          io_triple_bind [OF write_unary_response_triple] ret_triple sound_empties [OF assms])
  qed
qed

lemma serve_reflection_logged_triple:
  assumes "sound_env E n"
  shows "io_triple (at_pos (ev_shm E) n is (Between k))
    (serve_reflection_logged hooked (ev_shm E) (ev_reflection E) (ev_hash E) (ev_server E) req b auth tb)
    (\<lambda>_. at_pos (ev_shm E) n is (Between (Suc k))) (failed (ev_shm E) n)"
proof (rule io_tripleI, goal_cases)
  case c: (1 c)
  have t: "io_post (\<lambda>_. at_pos (ev_shm E) n is (Between (Suc k))) (failed (ev_shm E) n)
      (serve_reflection (ev_shm E) (ev_reflection E) (ev_hash E) (ev_server E) req b tb c)"
    if "at_pos (ev_shm E) n is (Between k) c" for c
    using that by (rule io_tripleD [OF serve_reflection_triple [OF assms]])
  show ?case
  proof (cases hooked)
    case True
    define c0 where "c0 = c\<lparr> cn_hooks := cn_hooks c @ [Dispatch_Start ((dispatch_info_from_request (ev_hash E) (ev_server E)
      req ''unary'' auth)\<lparr> di_request_shape := Some (request_shape_of req) \<rparr>)] \<rparr>"
    obtain r c' where s: "serve_reflection (ev_shm E) (ev_reflection E) (ev_hash E) (ev_server E) req b tb c0 = (r, c')"
      by fastforce
    have "io_post (\<lambda>_. at_pos (ev_shm E) n is (Between (Suc k))) (failed (ev_shm E) n) (r, c')"
      using t [of c0] s c by (simp add: c0_def)
    then show ?thesis
      using True s by (cases r rule: outcome_cases) (simp_all add: serve_reflection_logged_def Let_def flip: c0_def)
  qed (use t [of c] c in \<open>simp add: serve_reflection_logged_def\<close>)
qed

lemma at_pos_answered: "at_pos S n is (Between (Suc k)) c \<Longrightarrow> answered S n is k c"
  by (auto simp: answered_def)

text \<open>The input streams that are left after a call: a streaming method has one of its own.\<close>

definition is_streaming :: "'f dispatch \<Rightarrow> bool" where
  "is_streaming d = (case d of Invoke bnd info req \<Rightarrow> mi_method_type info \<noteq> Unary | _ \<Rightarrow> False)"

lemma invoke_method_triple:
  assumes "sound_env E n" "n \<Longrightarrow> \<not> used"
    and "resolve_binding (ev_server E) (hp_name bnd) = Some bnd" "map_of (hp_methods bnd) (rq_method req) = Some info"
    and "n \<Longrightarrow> mi_method_type info \<noteq> Unary \<Longrightarrow> is \<noteq> [] \<and> in_open (hd is) = Inr ()"
  shows "io_triple (at_pos (ev_shm E) n is (Between k)) (invoke_method E used auth b bnd info req)
    (\<lambda>_. answered (ev_shm E) n (if mi_method_type info = Unary then is else tl is) k) (failed (ev_shm E) n)"
proof -
  have start: "io_triple (at_pos (ev_shm E) n is (Between k)) (begin_call E di req) (\<lambda>_. at_pos (ev_shm E) n is (Between k)) R" for di R
    by (rule io_tripleI) (simp add: begin_call_def externalized_scope_new_def at_pos_def)
  have finish: "io_triple (answered (ev_shm E) n js k) (io_bind (end_call E di outer) (\<lambda>_. io_ret True))
      (\<lambda>_. answered (ev_shm E) n js k) (failed (ev_shm E) n)" for di outer js
    unfolding end_call_def
    by (rule io_triple_bind [OF io_triple_update [where Q = "\<lambda>_. answered (ev_shm E) n js k"] ret_triple])
      (simp add: answered_def at_pos_def externalized_scope_finish_def)
  have u: "io_triple (at_pos (ev_shm E) n is (Between k)) (serve_unary E used (hp_name bnd) info req b ctx)
      (\<lambda>_. answered (ev_shm E) n is k) (failed (ev_shm E) n)" for ctx
    by (rule answered_post [OF serve_unary_triple [OF assms(1-4)]]) simp_all
  show ?thesis
    unfolding invoke_method_def Let_def
    using assms(5) u serve_stream_triple [OF assms(1,2)]
    by (cases "mi_method_type info") (auto intro!: io_triple_bind [OF start] io_triple_bind [OF _ finish])
qed

lemma serve_dispatch_triple:
  assumes "sound_env E n" "n \<Longrightarrow> \<not> used"
    and "dispatch_request (ev_show_schema E) True (ev_server E) bv md = Done d"
    and "n \<Longrightarrow> is_streaming d \<Longrightarrow> is \<noteq> [] \<and> in_open (hd is) = Inr ()"
  shows "io_triple (at_pos (ev_shm E) n is (Between k)) (serve_dispatch E used auth b d)
    (\<lambda>_. answered (ev_shm E) n (if is_streaming d then tl is else is) k) (failed (ev_shm E) n)"
proof (cases d)
  case (Handshake hmd)
  have e: "io_triple (at_pos (ev_shm E) n is (Between k)) (io_of (empty_batch (ev_shm E) []))
      (\<lambda>b c. sa_schema (ev_shm E) b = [] \<and> at_pos (ev_shm E) n is (Between k) c) (failed (ev_shm E) n)"
    using sound_empties [OF assms(1)] by (intro io_triple_of) (auto simp: empties_ok_def at_pos_def failed_def)
  show ?thesis
    using Handshake
    by (auto simp: serve_dispatch_def is_streaming_def
        intro!: answered_post [where j = "Suc k"] io_triple_bind [OF e] io_triple_fact
          io_triple_bind [OF with_stream_triple [OF put_last_triple]] ret_triple)
next
  case (Error_Stream s err rid tb)
  then show ?thesis
    by (auto simp: serve_dispatch_def is_streaming_def intro!: answered_post [where j = "Suc k"]
        io_triple_bind [OF write_error_stream_triple] ret_triple sound_empties [OF assms(1)])
next
  case (Reflect req)
  then show ?thesis
    by (auto simp: serve_dispatch_def is_streaming_def intro!: answered_post [where j = "Suc k"]
        serve_reflection_logged_triple assms(1))
next
  case (Invoke bnd info req)
  then have d: "route (ev_server E) (rq_protocol req) = Done (Inr bnd)"
    "dispatch_bound (ev_show_schema E) (ev_server E) req bnd = Invoke bnd info req"
    using dispatch_request_Invoke [of "ev_show_schema E" True "ev_server E" bv md bnd info req] assms(3) by auto
  have r: "resolve_binding (ev_server E) (hp_name bnd) = Some bnd"
    using route_Inr(2) [OF d(1)] resolve_binding_Some(1) [OF route_Inr(2) [OF d(1)]] by simp
  have st: "is_streaming d = (mi_method_type info \<noteq> Unary)" "serve_dispatch E used auth b d = invoke_method E used auth b bnd info req"
    using Invoke by (simp_all add: is_streaming_def serve_dispatch_def)
  have "io_triple (at_pos (ev_shm E) n is (Between k)) (invoke_method E used auth b bnd info req)
    (\<lambda>_. answered (ev_shm E) n (if mi_method_type info = Unary then is else tl is) k) (failed (ev_shm E) n)"
    by (rule invoke_method_triple [OF assms(1,2) r dispatch_bound_Invoke(2) [OF d(2)]]) (use assms(4) st in auto)
  then show ?thesis
    unfolding st by (cases "mi_method_type info = Unary") simp_all
qed

section \<open>The loop under any failures\<close>

lemma frames_read_request: "cn_frames (snd (read_request E c)) = cn_frames c"
proof -
  have a: "cn_frames (snd (accept_request E b md reads c)) = cn_frames c" for b md reads c
    by (auto simp: accept_request_def Let_def io_bind_def io_of_def refresh_shm_def resolve_input_def set_segment_def
        split: outcome.split sum.split prod.split option.split)
  show ?thesis
    by (auto simp: read_request_def open_input_def a split: list.split outcome.split sum.split prod.split)
qed

lemma dispatch_any:
  assumes "sound_env E False" "dispatch_request (ev_show_schema E) True (ev_server E) bv md = Done d"
    and "at_pos (ev_shm E) False [] (Between k) c"
  shows "io_post (\<lambda>_ c. \<exists>j. at_pos (ev_shm E) False [] (Between j) c) (failed (ev_shm E) False) (serve_dispatch E used auth b d c)"
proof -
  have "io_triple (at_pos (ev_shm E) False [] (Between k)) (serve_dispatch E used auth b d)
      (\<lambda>_. answered (ev_shm E) False (if is_streaming d then tl [] else []) k) (failed (ev_shm E) False)"
    by (rule serve_dispatch_triple [OF assms(1) _ assms(2)]) simp_all
  from io_tripleD [OF this assms(3)] show ?thesis
    by (rule io_post_mono) (auto simp: answered_def at_pos_def)
qed

lemma serve_one_any:
  assumes "sound_env E False" "at_pos (ev_shm E) False [] (Between k) c"
  shows "io_post (\<lambda>_ c. \<exists>j. at_pos (ev_shm E) False [] (Between j) c) (failed (ev_shm E) False) (serve_one E auth c)"
proof -
  obtain r c1 where r: "read_request E c = (r, c1)" by fastforce
  then have c1: "at_pos (ev_shm E) False [] (Between k) c1" "failed (ev_shm E) False c1"
    using frames_read_request [of E c] assms(2) by (auto simp: at_pos_def failed_def)
  show ?thesis
  proof (cases r rule: outcome_cases)
    case (ok x)
    show ?thesis
    proof (cases x)
      case None
      then show ?thesis using ok r c1 by (auto simp: serve_one_def io_bind_def io_of_def)
    next
      case (Some y)
      then show ?thesis
        using ok r c1 dispatch_any [OF assms(1) _ c1(1)]
        by (cases y) (auto simp: serve_one_def io_bind_def split: outcome.split)
    qed
  qed (use r c1 in \<open>auto simp: serve_one_def io_bind_def\<close>)
qed

lemma failed_flush: "failed S n c \<Longrightarrow> failed S n (snd (put_frame Flush c))"
  by (cases rule: put_frame_cases [of c Flush]) (auto simp: failed_def scan_append split: Option.bind_split)

lemma at_pos_flush: "at_pos S n is st c \<Longrightarrow> at_pos S n is st (snd (put_frame Flush c))"
  by (cases rule: put_frame_cases [of c Flush]) (auto simp: at_pos_def scan_append)

lemma answered_flush: "answered S n is k c \<Longrightarrow> answered S n is k (snd (put_frame Flush c))"
  unfolding answered_def using at_pos_flush by blast

lemma serve_one_conn_any:
  assumes "sound_env E False" "at_pos (ev_shm E) False [] (Between k) c"
  shows "io_post (\<lambda>_ c. \<exists>j. at_pos (ev_shm E) False [] (Between j) c) (failed (ev_shm E) False) (serve_one_conn E auth c)"
proof -
  obtain r c1 where r: "serve_one E auth c = (r, c1)" by fastforce
  then show ?thesis
    using serve_one_any [OF assms, of auth] failed_flush
    by (cases r rule: outcome_cases) (auto simp: serve_one_conn_def intro: at_pos_flush)
qed

lemma serve_until_any:
  "sound_env E False \<Longrightarrow> at_pos (ev_shm E) False [] (Between k) c \<Longrightarrow>
   failed (ev_shm E) False (snd (serve_until E auth shutdown i c))"
proof (induction E auth shutdown i c arbitrary: k rule: serve_until.induct)
  case (1 E auth shutdown i c)
  have c: "failed (ev_shm E) False c"
    using 1(3) by (auto simp: at_pos_def failed_def)
  obtain r c' where r: "serve_one_conn E auth c = (r, c')" by fastforce
  have post: "io_post (\<lambda>_ c. \<exists>j. at_pos (ev_shm E) False [] (Between j) c) (failed (ev_shm E) False) (r, c')"
    using serve_one_conn_any [OF 1(2,3), of auth] r by simp
  then have f: "failed (ev_shm E) False c'"
    by (cases r rule: outcome_cases) (auto simp: at_pos_def failed_def)
  show ?case
  proof (cases "\<not> shutdown i \<and> r = Done (Inr True)")
    case True
    then obtain j where "at_pos (ev_shm E) False [] (Between j) c'" using post by auto
    then have "failed (ev_shm E) False (snd (serve_until E auth shutdown (Suc i) c'))"
      using True r 1(2) by (intro 1(1) [of r c' "Inr True" True]) auto
    then show ?thesis using True r by (simp add: serve_until.simps [of E auth shutdown i c])
  next
    case False
    then show ?thesis
      using c f r by (cases r rule: outcome_cases) (auto simp: serve_until.simps [of E auth shutdown i c])
  qed
qed

text \<open>Without a signal the loop is the one that never sees it.\<close>

lemma serve_loop_until: "serve_loop E auth c = serve_until E auth (\<lambda>_. False) i c"
proof (induction E auth c arbitrary: i rule: serve_loop.induct)
  case (1 E auth c)
  obtain r c' where r: "serve_one_conn E auth c = (r, c')" by fastforce
  show ?case
  proof (cases "r = Done (Inr True)")
    case True
    then show ?thesis
      using 1 [of r c' "Inr True" True] r by (simp add: serve_loop.simps [of E auth c] serve_until.simps [of E auth _ i c])
  next
    case False
    then show ?thesis
      using r by (cases r rule: outcome_cases) (auto simp: serve_loop.simps [of E auth c] serve_until.simps [of E auth _ i c])
  qed
qed

section \<open>The loop without failures\<close>

text \<open>
  A conversation: framed requests that do not use shared memory, each stream call followed by an input stream
  that opens, and no protocol name that makes the dispatch panic. The number of its calls.
\<close>

definition framed_request :: "'b input_stream \<Rightarrow> ('b \<times> metadata) option" where
  "framed_request i =
     (case (in_open i, in_reads i) of
        (Inr _, Inr (b, md) # rest) \<Rightarrow>
          if list_all is_ok rest \<and> \<not> md_contains md SHM_OFFSET_KEY \<and> \<not> md_contains md SHM_SEGMENT_NAME_KEY
          then Some (b, md) else None
      | _ \<Rightarrow> None)"

fun calls :: "('b, 'c, 'd, 't, 'st, 'w) serve_env \<Rightarrow> 'b input_stream list \<Rightarrow> nat option" where
  "calls E [] = Some 0"
| "calls E (i # is) =
     (case framed_request i of
        None \<Rightarrow> None
      | Some (b, md) \<Rightarrow>
          (case dispatch_request (ev_show_schema E) True (ev_server E) (batch_view (ev_shm E) b) md of
             Panic \<Rightarrow> None
           | Done d \<Rightarrow>
               if \<not> is_streaming d then map_option Suc (calls E is)
               else case is of
                 [] \<Rightarrow> None
               | j # js \<Rightarrow> if is_ok (in_open j) then map_option Suc (calls E js) else None))"

lemma drain_ok: "list_all is_ok reads \<Longrightarrow> drain_reads reads = Inr ()"
  by (induction reads rule: drain_reads.induct) (simp_all add: is_ok_def)

lemma framed_read:
  assumes "framed_request i = Some (b, md)" "cn_inputs c = i # rest"
  shows "read_request E c = (Done (Inr (Some (b, md, False))), c\<lparr> cn_inputs := rest \<rparr>)"
proof -
  obtain reads where i: "in_open i = Inr ()" "in_reads i = Inr (b, md) # reads" "list_all is_ok reads"
    "\<not> md_contains md SHM_OFFSET_KEY" "\<not> md_contains md SHM_SEGMENT_NAME_KEY"
    using assms(1) by (auto simp: framed_request_def split: sum.split_asm list.split_asm if_split_asm)
  then have "is_shm_pointer_batch (ev_shm E) b md = False" "md_get md SHM_SEGMENT_NAME_KEY = None"
    by (auto simp: is_shm_pointer_batch_def md_contains_def)
  then show ?thesis
    using i assms(2) drain_ok [OF i(3)]
    by (simp add: read_request_def open_input_def accept_request_def io_bind_def io_of_def refresh_shm_def connection_refresh_def)
qed

text \<open>An answered request is followed by the next one.\<close>

definition goes_on :: "('b, 'w, bool) io \<Rightarrow> bool" where
  "goes_on m = (\<forall>c c'. m c \<noteq> (Done (Inr False), c'))"

lemma goes_on_bind: "(\<And>y. goes_on (f y)) \<Longrightarrow> goes_on (io_bind m f)"
  unfolding goes_on_def io_bind_def by (simp split: prod.split outcome.split sum.split)

lemma goes_on_ret: "goes_on (io_ret True)"
  by (simp add: goes_on_def io_of_def)

lemma goes_on_reflection: "goes_on (serve_reflection S A H sv req b tb)"
  unfolding serve_reflection_def
  by (rule goes_on_bind) (simp split: reflection_reply.split add: goes_on_bind goes_on_ret)

lemma goes_on_logged: "goes_on (serve_reflection_logged hooked S A H sv req b auth tb)"
  using goes_on_reflection [of S A H sv req b tb] unfolding goes_on_def serve_reflection_logged_def Let_def
  by (auto split: prod.split outcome.split)

lemma goes_on_dispatch: "goes_on (serve_dispatch E used auth b d)"
  by (cases d) (simp_all add: serve_dispatch_def invoke_method_def Let_def goes_on_bind goes_on_ret goes_on_logged)

lemma serve_one_strict:
  assumes "sound_env E True" "at_pos (ev_shm E) True (i # rest) (Between k) c" "framed_request i = Some (b, md)"
    and "dispatch_request (ev_show_schema E) True (ev_server E) (batch_view (ev_shm E) b) md = Done d"
    and "is_streaming d \<Longrightarrow> rest \<noteq> [] \<and> in_open (hd rest) = Inr ()"
  shows "\<exists>c'. serve_one_conn E auth c = (Done (Inr True), c')
    \<and> answered (ev_shm E) True (if is_streaming d then tl rest else rest) k c'"
proof -
  let ?c = "c\<lparr> cn_inputs := rest \<rparr>"
  have "io_triple (at_pos (ev_shm E) True rest (Between k)) (serve_dispatch E False auth b d)
      (\<lambda>_. answered (ev_shm E) True (if is_streaming d then tl rest else rest) k) (failed (ev_shm E) True)"
    by (rule serve_dispatch_triple [OF assms(1) _ assms(4)]) (use assms(5) in auto)
  moreover have "at_pos (ev_shm E) True rest (Between k) ?c"
    using assms(2) by (simp add: at_pos_def)
  ultimately have p: "io_post (\<lambda>_. answered (ev_shm E) True (if is_streaming d then tl rest else rest) k)
      (failed (ev_shm E) True) (serve_dispatch E False auth b d ?c)"
    by (rule io_tripleD)
  obtain r c' where r: "serve_dispatch E False auth b d ?c = (r, c')" by fastforce
  then obtain x where x: "r = Done (Inr x)" "answered (ev_shm E) True (if is_streaming d then tl rest else rest) k c'"
    using p by (cases r rule: outcome_cases) (auto simp: failed_def)
  then have "x = True" using goes_on_dispatch [of E False auth b d] r by (cases x) (auto simp: goes_on_def)
  moreover have "read_request E c = (Done (Inr (Some (b, md, False))), ?c)"
    using assms(2) by (intro framed_read [OF assms(3)]) (simp add: at_pos_def)
  ultimately have "serve_one E auth c = (Done (Inr True), c')"
    using assms(4) r x(1) by (simp add: serve_one_def io_bind_def)
  then show ?thesis
    using answered_flush [OF x(2)] by (simp add: serve_one_conn_def)
qed

lemma end_of_input: "is_eof_message empty_ipc_stream"
  by code_simp

lemma serve_loop_strict:
  "sound_env E True \<Longrightarrow> at_pos (ev_shm E) True is (Between k) c \<Longrightarrow> calls E is = Some m \<Longrightarrow>
   \<exists>c' j. serve_loop E auth c = (Done (), c') \<and> k + m \<le> j \<and> j \<le> k + 2 * m \<and> at_pos (ev_shm E) True [] (Between j) c'"
proof (induction E "is" arbitrary: k c m rule: calls.induct)
  case (1 E)
  then have "cn_inputs c = []" by (simp add: at_pos_def)
  then have "serve_one_conn E auth c = (Done (Inr False), snd (put_frame Flush c))"
    by (simp add: serve_one_conn_def serve_one_def io_bind_def io_of_def read_request_def open_input_def end_of_input)
  then show ?case
    using 1 by (auto simp: serve_loop.simps [of E auth c] intro: at_pos_flush)
next
  case (2 E i rest)
  obtain b md where f: "framed_request i = Some (b, md)"
    using 2(5) by (auto split: option.split_asm)
  obtain d where d: "dispatch_request (ev_show_schema E) True (ev_server E) (batch_view (ev_shm E) b) md = Done d"
    using 2(5) f by (auto split: outcome.split_asm)
  define next_is where "next_is = (if is_streaming d then tl rest else rest)"
  obtain m' where m: "m = Suc m'" "calls E next_is = Some m'"
    using 2(5) f d by (auto simp: next_is_def split: if_split_asm list.split_asm)
  have ready: "is_streaming d \<Longrightarrow> rest \<noteq> [] \<and> in_open (hd rest) = Inr ()"
    using 2(5) f d by (auto simp: is_ok_def split: if_split_asm list.split_asm sum.split_asm)
  obtain c1 j where c1: "serve_one_conn E auth c = (Done (Inr True), c1)" "k < j" "j \<le> k + 2"
    "at_pos (ev_shm E) True next_is (Between j) c1"
    using serve_one_strict [OF 2(3,4) f d ready, of auth] by (auto simp: answered_def next_is_def)
  have "\<exists>c' i. serve_loop E auth c1 = (Done (), c') \<and> j + m' \<le> i \<and> i \<le> j + 2 * m' \<and> at_pos (ev_shm E) True [] (Between i) c'"
  proof (cases "is_streaming d")
    case True
    then show ?thesis
      using 2(2) [OF f refl d _ _ _ 2(3), of "hd rest" "tl rest" j c1 m'] ready c1(4) m(2) by (auto simp: next_is_def is_ok_def)
  next
    case False
    then show ?thesis
      using 2(1) [OF f refl d _ 2(3), of j c1 m'] c1(4) m(2) by (auto simp: next_is_def)
  qed
  then obtain c2 l where l: "serve_loop E auth c1 = (Done (), c2)" "j + m' \<le> l" "l \<le> j + 2 * m'"
    "at_pos (ev_shm E) True [] (Between l) c2"
    by blast
  then show ?case
    using c1(1-3) m(1) by (intro exI [of _ c2] exI [of _ l]) (simp add: serve_loop.simps [of E auth c])
qed

section \<open>A concrete server\<close>

text \<open>Batches are a schema and a row count; the server has a unary method and a producer that ends at once.\<close>

definition demo_batches :: "(schema, schema \<times> nat) shm_api" where
  "demo_batches = \<lparr> sa_schema = fst, sa_dictionary_fields = \<lambda>_. [], sa_num_rows = snd, sa_memory_size = \<lambda>_. 0,
     sa_column_sizes = \<lambda>_. [], sa_try_empty = \<lambda>s. Inr (s, 0), sa_stream_bytes = \<lambda>_ _. Inr [], sa_schema_stream = \<lambda>_. Inr [],
     sa_open_stream = \<lambda>_. Inr None \<rparr>"

definition demo_count :: "arrow_field method_info" where
  "demo_count = (method_info_unary ''count'' [] [])\<lparr> mi_method_type := Producer \<rparr>"

definition demo_worker :: "arrow_field rpc_server" where
  "demo_worker = demo_hosting\<lparr> sv_methods := [(''echo'', demo_echo), (''count'', demo_count)], sv_protocol_version := [] \<rparr>"

definition demo_application :: "(arrow_field, schema \<times> nat, unit, nat) application" where
  "demo_application =
     \<lparr> ap_unary = \<lambda>p req b ctx w.
         (if rq_method req = ''echo'' then Done (Inr (Some (mi_result_schema demo_echo, 1))) else Panic, [], None, w),
       ap_stream = \<lambda>p req b ctx w. (Done (Inr (stream_result_producer [] ())), [], w),
       ap_produce = \<lambda>st out ctx w.
         \<lparr> tn_state = st, tn_out = collector_finish out, tn_logs = [], tn_world = w + 1, tn_result = Done (Inr ()) \<rparr>,
       ap_exchange = \<lambda>st b out ctx w. \<lparr> tn_state = st, tn_out = out, tn_logs = [], tn_world = w, tn_result = Panic \<rparr>,
       ap_on_cancel = \<lambda>st ctx w. (Panic, [], w), ap_encode_state = \<lambda>_. Done (Inr []), ap_state_decoder = \<lambda>_ _. None \<rparr>"

definition demo_decoding :: "(schema, schema \<times> nat, unit) arrow_api" where
  "demo_decoding = \<lparr> root_as_message = \<lambda>_. Inl (Fb_Error []), fb_to_schema = \<lambda>_. Panic, read_dictionary = \<lambda>_ _ _ _. Panic,
     read_record_batch = \<lambda>_ _ _ _. Panic, no_dictionaries = () \<rparr>"

definition demo_encoding :: "(schema, schema \<times> nat, unit) arrow_writer_api" where
  "demo_encoding = \<lparr> aw_root_as_message = \<lambda>_. Inl (Fb_Error []), aw_build_message = \<lambda>_. [], aw_write_message = \<lambda>_ cw. (Inr (), cw),
     aw_new_tracker = (), aw_schema_to_bytes = \<lambda>_ t. (\<lparr> ed_ipc_message = [], ed_arrow_data = [] \<rparr>, t),
     aw_encode = \<lambda>_ t. (Inl [], t), aw_num_rows = snd, aw_num_columns = \<lambda>b. length (fst b), aw_field0_large_binary = \<lambda>_. False,
     aw_large_binary_value = \<lambda>_. None \<rparr>"

definition demo_api :: "(schema, schema \<times> nat, unit, unit) external_api" where
  "demo_api = \<lparr> xa_arrow = demo_decoding, xa_shm = demo_batches, xa_writer = demo_encoding, xa_crypto = demo_crypto,
     xa_codings = demo_codings, xa_zstd = \<lparr> zb_new = \<lambda>_. Inr (), zb_content_size = Inr (), zb_compress = \<lambda>_ bs. Inr bs \<rparr>,
     xa_url = \<lparr> ua_parse = \<lambda>_. Inl [], ua_stripped = \<lambda>_. None \<rparr> \<rparr>"

definition demo_env :: "(schema \<times> nat, unit, unit, unit, unit, nat) serve_env" where
  "demo_env = \<lparr> ev_api = demo_api, ev_reflection = demo_reflection, ev_hash = demo_hash_env, ev_show_schema = \<lambda>_. [],
     ev_column = \<lambda>_ _. (), ev_cast = \<lambda>_ _. Inr (), ev_try_new = \<lambda>s _. Inr (s, 0), ev_shm_threshold = 0,
     ev_os_attach = \<lambda>_ _. Inl (ipc_error []), ev_external = None, ev_server = demo_worker,
     ev_application = demo_application, ev_hooked = True \<rparr>"

definition demo_input :: "string \<Rightarrow> string \<Rightarrow> schema \<Rightarrow> (schema \<times> nat) input_stream" where
  "demo_input protocol method_name params =
     \<lparr> in_open = Inr (),
       in_reads = [Inr ((params, 1), [(RPC_METHOD_KEY, method_name), (REQUEST_VERSION_KEY, REQUEST_VERSION), (PROTOCOL_KEY, protocol)])] \<rparr>"

definition demo_ticks :: "(schema \<times> nat) input_stream" where
  "demo_ticks = \<lparr> in_open = Inr (), in_reads = [Inr (([], 0), [])] \<rparr>"

definition demo_conn :: "(schema \<times> nat) input_stream list \<Rightarrow> rpc_error option list \<Rightarrow> (schema \<times> nat, nat) conn" where
  "demo_conn inputs faults = \<lparr> cn_frames = [], cn_faults = faults, cn_inputs = inputs, cn_shm = no_segment, cn_stats = no_statistics,
     cn_app_err = None, cn_hooks = [], cn_externalized = 0, cn_world = 0 \<rparr>"

definition demo_talk :: "(schema \<times> nat) input_stream list" where
  "demo_talk = [demo_input ''demo.Echo'' ''echo'' (mi_params_schema demo_echo), demo_input ''demo.Echo'' ''count'' [], demo_ticks,
     demo_input REFLECTION_PROTOCOL_NAME LIST_PROTOCOLS_METHOD [], demo_input ''demo.Other'' ''echo'' []]"

lemma demo_talk_calls: "calls demo_env demo_talk = Some 4"
  by code_simp

lemma demo_handlers_typed: "handlers_typed demo_env"
proof -
  have "mi_result_schema info = mi_result_schema demo_echo"
    if "resolve_binding demo_worker n = Some bnd" "map_of (hp_methods bnd) ''echo'' = Some info" for n bnd info
    using that
    by (auto simp: resolve_binding_def demo_worker_def demo_hosting_def split: if_split_asm option.split_asm)
  then show ?thesis
    unfolding handlers_typed_def
    by (auto simp: demo_env_def demo_api_def demo_batches_def demo_application_def split: if_split_asm)
qed

lemma demo_env_sound: "sound_env demo_env n"
proof -
  have "empties_ok demo_batches n"
    by (simp add: empties_ok_def empty_batch_def demo_batches_def)
  moreover have "application_ok demo_batches (\<lambda>_. []) demo_application"
    by (auto simp: application_ok_def demo_application_def intro: step_finish)
  moreover have "reflection_total demo_env"
    by (simp add: reflection_total_def Let_def demo_env_def demo_reflection_def demo_hash_env_def demo_worker_def demo_echo_def
        describable_def demo_count_def method_entry_of_def hash_method_of_def
        method_info_unary_def tokens_if_def schema_tokens_def unary_has_return_def)
  ultimately show ?thesis
    using demo_handlers_typed by (simp add: sound_env_def) (simp add: demo_env_def demo_api_def)
qed

section \<open>Properties\<close>





end
