(* ===== verification/Spec2Isabelle.thy ===== *)
theory Spec2Isabelle
  imports Proxy_Protocol Envelope Shm_Segment Identity Sticky Binding State_Token Http_Codec Serve_Spec
begin

text \<open>
  A verification development for the Rust implementation of vgi-rpc, a remote-procedure-call framework
  whose messages are Arrow IPC streams with string metadata.

  \<^bold>\<open>The program.\<close> A client sends a request as an IPC stream whose first batch carries the routing keys in its
  metadata. The server (\<^verbatim>\<open>vgi-rpc/src\<close>) reads it frame by frame, routes it to a method of a hosted
  protocol and answers with batches; log messages and errors travel as zero-row batches whose metadata
  the client classifies. Peers on one host pass large batches through a shared-memory segment. Over HTTP
  a request is authenticated by a chain of authenticators, sessions are tied to a worker by sealed
  tokens, and the framework can mint sealed grants. A bridge in front of a server forwards the peer's
  identity in a PROXY-protocol preamble.

  \<^bold>\<open>Theories.\<close> File names are relative to \<^verbatim>\<open>src/vgi-rpc/src\<close> unless they name another crate.

  \<^item> \<^verbatim>\<open>Prelude\<close>, \<^verbatim>\<open>Io\<close>, \<^verbatim>\<open>Rust_Str\<close>: results, panics, fixed-width integers, byte codecs and slices; readers
    as scripts of chunks, interruptions and failures, with the exact-read loop behind the locale
    \<^verbatim>\<open>exact_reader\<close>; strings as UTF-8 bytes with validation, lossy decoding, trimming, splitting and
    decimal numbers.
  \<^item> \<^verbatim>\<open>Proxy_Protocol\<close>: \<^verbatim>\<open>proxy_protocol.rs\<close> with the encoder of \<^verbatim>\<open>vgi-iroh-bridge\<close> and the relay of
    \<^verbatim>\<open>tailnet-integration\<close>. The parser accepts exactly a grammar, a read consumes exactly one preamble,
    and both encoders are read back.
  \<^item> \<^verbatim>\<open>Error_Model\<close>, \<^verbatim>\<open>Json_Text\<close>, \<^verbatim>\<open>Envelope\<close>: \<^verbatim>\<open>error_model.rs\<close>, \<^verbatim>\<open>errors.rs\<close>, the metadata keys, \<^verbatim>\<open>log.rs\<close>, the
    envelope builder of \<^verbatim>\<open>server.rs\<close> and the classifier of \<^verbatim>\<open>vgi-rpc-client\<close>. A reused builder behaves as a
    fresh one, and an error survives the trip to the client. JSON text is a parameter with a round-trip
    hypothesis; \<^verbatim>\<open>Json_Text\<close> is an instance of it.
  \<^item> \<^verbatim>\<open>Shm_Alloc\<close>, \<^verbatim>\<open>Shm_Segment\<close>: \<^verbatim>\<open>shm.rs\<close> and the connection cache of \<^verbatim>\<open>server.rs\<close>, on the bytes of the mapped
    segment. Allocation is first fit, slots stay disjoint and keep their bytes (locale \<^verbatim>\<open>slot_store\<close>);
    writing a batch refines adding one block to a map from offsets to blocks; a pointer batch is
    resolved to the batch that was stored.
  \<^item> \<^verbatim>\<open>Wire_Read\<close>, \<^verbatim>\<open>Wire_Write\<close>: \<^verbatim>\<open>wire.rs\<close>. Frames are read back under every fragmentation, truncation and
    oversize are errors, the reader returns on every input, the direct large-value path is read back,
    and repacking changes only the metadata. Flatbuffer and Arrow codecs are parameters.
  \<^item> \<^verbatim>\<open>Crypto\<close>: \<^verbatim>\<open>crypto.rs\<close> and hexadecimal text. The AEAD cipher, SHA-256 and base64 are the record
    \<^verbatim>\<open>token_crypto\<close>; the predicates \<^verbatim>\<open>aead_ok\<close>, \<^verbatim>\<open>aad_binding\<close>, \<^verbatim>\<open>base64_ok\<close> and \<^verbatim>\<open>sha256_ok\<close> are what the code relies
    on, and \<^verbatim>\<open>demo_crypto\<close> satisfies them all.
  \<^item> \<^verbatim>\<open>Auth\<close>: \<^verbatim>\<open>auth/mod.rs\<close> and \<^verbatim>\<open>auth/bearer.rs\<close>. A chain answers with its first answer; the constant-time table
    is a lookup.
  \<^item> \<^verbatim>\<open>Grants\<close>, \<^verbatim>\<open>Identity\<close>: \<^verbatim>\<open>grants.rs\<close>, \<^verbatim>\<open>token_identity.rs\<close> and \<^verbatim>\<open>auth/identity_bearer.rs\<close>. The accepted tokens are
    characterised exactly; minted grants verify and are bound to their audience; introspection discloses
    nothing to callers that are not allowlisted and never forwards a JWS; every authenticated context has a
    source, and grants never mint grants.
  \<^item> \<^verbatim>\<open>Sticky\<close>: \<^verbatim>\<open>sticky.rs\<close> and its callers in \<^verbatim>\<open>http.rs\<close>. Sessions are found again by their owner, through any
    other registry activity (locale \<^verbatim>\<open>session_store\<close>), and by nobody else; eviction is invisible.
  \<^item> \<^verbatim>\<open>Binding\<close>: \<^verbatim>\<open>binding.rs\<close> and the routing of \<^verbatim>\<open>server.rs\<close>. A method runs only when it was addressed, and the one
    panic of the decision is characterised.
  \<^item> \<^verbatim>\<open>State_Token\<close>: the sealed stream tokens and the call cache of \<^verbatim>\<open>http.rs\<close>. A cursor opens for the identity it
    was minted for and no other; a continuation finds the call it belongs to, cached or not.
  \<^item> \<^verbatim>\<open>Http_Codec\<close>: content codings, limits, token keys and cookies of \<^verbatim>\<open>http.rs\<close>. Request bodies are decoded within
    their limit; the response budget is the smallest of the limits given.
  \<^item> \<^verbatim>\<open>Stream_Turn\<close>: \<^verbatim>\<open>stream.rs\<close> and the call context of \<^verbatim>\<open>server.rs\<close>, with application code as a record of functions
    over an abstract world.
  \<^item> \<^verbatim>\<open>Protocol_Hash\<close>: \<^verbatim>\<open>type_tokens.rs\<close>, \<^verbatim>\<open>protocol_hash.rs\<close> and the hashes of \<^verbatim>\<open>reflection.rs\<close>. Hashes that do not collide
    are equal exactly for protocols of the same wire surface.
  \<^item> \<^verbatim>\<open>Conn\<close>: a connection as state, with what was written as a log of stream operations, the write errors still to
    come, and the streams still to be read; the writers that every handler shares, and triples over
    computations on a connection. The bytes of the two directions are \<^verbatim>\<open>Wire_Read\<close> and \<^verbatim>\<open>Wire_Write\<close>.
  \<^item> \<^verbatim>\<open>Reflection\<close>: \<^verbatim>\<open>reflection.rs\<close> and \<^verbatim>\<open>protocol_identity\<close> of \<^verbatim>\<open>server.rs\<close>. What is listed and described is what routing
    resolves and what call records name.
  \<^item> \<^verbatim>\<open>External\<close>: \<^verbatim>\<open>external.rs\<close> and \<^verbatim>\<open>external_ref.rs\<close>. An externalized batch comes back with its metadata; the hardened
    validator admits exactly hosts outside the listed address blocks. Storage, URL parser, resolver and zstd
    are parameters.
  \<^item> \<^verbatim>\<open>Serve\<close>, \<^verbatim>\<open>Serve_Spec\<close>: the serve loop of \<^verbatim>\<open>server.rs\<close>, from \<^verbatim>\<open>serve\<close> down to one tick of a stream. What is written is
    always a sequence of well-typed streams, and over a working transport every call is answered and the loop
    returns, whether the handlers succeed, fail or panic.

  \<^bold>\<open>Correspondence.\<close> A struct is a record, an enum a datatype, and each function or method a definition of the
  same name, with a suffix or prefix where HOL or another type has the name. \<^verbatim>\<open>Result\<close> is a sum type with the
  error on the left, a panic the value \<^const>\<open>Panic\<close>, a mutable receiver an argument that is returned updated.
  Hash and tree maps are association lists, the latter in key order. Unsigned integers are natural
  numbers with the wrap-around, saturation or check written where it can occur; build settings are those
  of a release build, where arithmetic wraps. Clocks, random bytes and environment variables are
  arguments. Doubles are rational numbers rounded as doubles are.

  \<^bold>\<open>Termination and fuel.\<close> No definition uses fuel. Loops over data are total functions; the serve
  loop ends because each request takes at least one input stream; the loops that could run forever (reading from a source that only interrupts, repairing metadata) are partial functions in
  the option type, and \<^verbatim>\<open>Wire_Read\<close> proves that they return.

  \<^bold>\<open>Not modelled.\<close> Operating-system and network input and output (sockets, TLS, QUIC, memory mapping), the
  HTTP server apart from sticky sessions, stream tokens, codings and limits, Arrow type mapping, the cloud
  storage back ends, the authenticators that delegate to third-party crates, the client apart from its
  metadata decoder, the retry and intermediary helpers, logs and telemetry, procedural macros,
  and the test workers. Of the serve loop: \<^verbatim>\<open>serve_one\<close> without a connection cache, the release of a zero-copy
  slot when its last buffer is dropped, and the claims and random stream id that hooks are told.
  Concurrency enters only as the order of atomic registry steps; timing (the constant-time property of the
  comparison) is not expressed. Authenticity of the cipher is the ideal form \<^verbatim>\<open>aad_binding\<close>, not a
  computational statement.
\<close>

end
